(* ===== verification/Prelude.thy ===== *)
theory Prelude
  imports Complex_Main "HOL-Library.AList" "HOL-Library.Sublist" "HOL-Library.Char_ord" "HOL-Library.List_Lexorder"
begin

text \<open>
  Shared vocabulary of the development.

  \<^item> Python dictionaries are association lists with the library's in-place \<open>AList.update\<close>
    (a dictionary keeps the position of a key that is overwritten and appends a new key).
  \<^item> Code that mutates stores and may raise is a function from a state to a result and a new
    state, \<open>('s, 'e, 'a) prog\<close>: \<open>Inl\<close> is the raised exception, and the returned state is the one
    the exception leaves behind, so what is durable after a failure is part of the model.
  \<^item> Properties of such programs are stated with \<open>hoare\<close>, a triple with one postcondition for
    a normal return and one for a raised error, and proved by the rules collected in
    \<open>hoare_rules\<close>.
  \<^item> Times are exact rationals; Python's floating-point rounding is not modelled.
\<close>

named_theorems hoare_rules \<open>compositional rules for state-and-error programs\<close>
named_theorems dict_simps \<open>lookup, key and size laws of dictionaries\<close>

subsection \<open>Dictionaries\<close>

type_synonym 'v dict = "(string \<times> 'v) list"

abbreviation dict_get :: "'v dict \<Rightarrow> string \<Rightarrow> 'v option" where
  "dict_get d k \<equiv> map_of d k"

abbreviation dict_set :: "string \<Rightarrow> 'v \<Rightarrow> 'v dict \<Rightarrow> 'v dict" where
  "dict_set k v d \<equiv> AList.update k v d"

abbreviation dict_del :: "string \<Rightarrow> 'v dict \<Rightarrow> 'v dict" where
  "dict_del k d \<equiv> AList.delete k d"

abbreviation dict_keys :: "'v dict \<Rightarrow> string list" where
  "dict_keys d \<equiv> map fst d"

definition dict_ok :: "'v dict \<Rightarrow> bool" where
  "dict_ok d \<longleftrightarrow> distinct (dict_keys d)"

text \<open>Loaded JSON or YAML values, and Python's truth value of one.\<close>

datatype pyval = P_none | P_bool bool | P_int int | P_float rat | P_str string | P_list "pyval list"
  | P_dict "(string \<times> pyval) list"

fun truthy :: "pyval \<Rightarrow> bool" where
  "truthy P_none = False"
| "truthy (P_bool b) = b"
| "truthy (P_int i) = (i \<noteq> 0)"
| "truthy (P_float r) = (r \<noteq> 0)"
| "truthy (P_str s) = (s \<noteq> [])"
| "truthy (P_list xs) = (xs \<noteq> [])"
| "truthy (P_dict d) = (d \<noteq> [])"

definition flag_set :: "string \<Rightarrow> pyval dict \<Rightarrow> bool" where
  "flag_set k d \<longleftrightarrow> (case dict_get d k of None \<Rightarrow> False | Some v \<Rightarrow> truthy v)"

subsection \<open>Programs with state and errors\<close>

type_synonym ('s, 'e, 'a) prog = "'s \<Rightarrow> ('e + 'a) \<times> 's"

definition ret :: "'a \<Rightarrow> ('s, 'e, 'a) prog" where
  "ret x s = (Inr x, s)"

definition raise :: "'e \<Rightarrow> ('s, 'e, 'a) prog" where
  "raise e s = (Inl e, s)"

definition bindE :: "('s, 'e, 'a) prog \<Rightarrow> ('a \<Rightarrow> ('s, 'e, 'b) prog) \<Rightarrow> ('s, 'e, 'b) prog" where
  "bindE m f s = (case m s of (Inl e, t) \<Rightarrow> (Inl e, t) | (Inr x, t) \<Rightarrow> f x t)"

definition gets :: "('s \<Rightarrow> 'a) \<Rightarrow> ('s, 'e, 'a) prog" where
  "gets f s = (Inr (f s), s)"

definition modify :: "('s \<Rightarrow> 's) \<Rightarrow> ('s, 'e, unit) prog" where
  "modify f s = (Inr (), f s)"

definition guardE :: "bool \<Rightarrow> 'e \<Rightarrow> ('s, 'e, unit) prog" where
  "guardE b e = (if b then ret () else raise e)"

definition catchE :: "('s, 'e, 'a) prog \<Rightarrow> ('e \<Rightarrow> ('s, 'f, 'a) prog) \<Rightarrow> ('s, 'f, 'a) prog" where
  "catchE m h s = (case m s of (Inl e, t) \<Rightarrow> h e t | (Inr x, t) \<Rightarrow> (Inr x, t))"

definition liftE :: "'e + 'a \<Rightarrow> ('s, 'e, 'a) prog" where
  "liftE r s = (r, s)"

definition hoare :: "('s \<Rightarrow> bool) \<Rightarrow> ('s, 'e, 'a) prog \<Rightarrow> ('a \<Rightarrow> 's \<Rightarrow> bool)
    \<Rightarrow> ('e \<Rightarrow> 's \<Rightarrow> bool) \<Rightarrow> bool" where
  "hoare P m Q E \<longleftrightarrow>
     (\<forall>s. P s \<longrightarrow> (case m s of (Inl e, t) \<Rightarrow> E e t | (Inr x, t) \<Rightarrow> Q x t))"

text \<open>An invariant kept whether the program returns or raises.\<close>

definition keeps :: "('s \<Rightarrow> bool) \<Rightarrow> ('s, 'e, 'a) prog \<Rightarrow> bool" where
  "keeps I m \<longleftrightarrow> hoare I m (\<lambda>_. I) (\<lambda>_. I)"

subsection \<open>Text\<close>

fun digit_char :: "nat \<Rightarrow> char" where
  "digit_char n = char_of (48 + n)"

fun show_nat :: "nat \<Rightarrow> string" where
  "show_nat n = (if n < 10 then [digit_char n] else show_nat (n div 10) @ [digit_char (n mod 10)])"

declare show_nat.simps [simp del]

definition show_int :: "int \<Rightarrow> string" where
  "show_int i = (if i < 0 then ''-'' @ show_nat (nat (- i)) else show_nat (nat i))"

text \<open>\<open>s.rsplit(c, 1)[-1]\<close>: the text after the last occurrence of the separator.\<close>

definition after_last :: "char \<Rightarrow> string \<Rightarrow> string" where
  "after_last c s = rev (takeWhile (\<lambda>x. x \<noteq> c) (rev s))"

text \<open>
  Strings are lists of code points below 256. \<open>py_space\<close> are the ones Python's \<open>str.isspace\<close>
  accepts in that range; \<open>split_on\<close> is \<open>str.split\<close> with a one-character separator (or
  \<open>re.split\<close> with a one-character class), \<open>py_words\<close> is \<open>str.split()\<close> and \<open>py_strip\<close> is
  \<open>str.strip()\<close>.
\<close>

definition py_space :: "char \<Rightarrow> bool" where
  "py_space c \<longleftrightarrow> (let n = of_char c :: nat in
     n = 32 \<or> (9 \<le> n \<and> n \<le> 13) \<or> (28 \<le> n \<and> n \<le> 31) \<or> n = 133 \<or> n = 160)"

fun split_on :: "(char \<Rightarrow> bool) \<Rightarrow> string \<Rightarrow> string list" where
  "split_on p [] = [[]]"
| "split_on p (c # cs) =
     (if p c then [] # split_on p cs
      else (case split_on p cs of [] \<Rightarrow> [[c]] | w # ws \<Rightarrow> (c # w) # ws))"

definition py_words :: "string \<Rightarrow> string list" where
  "py_words s = filter (\<lambda>w. w \<noteq> []) (split_on py_space s)"

definition strip_chars :: "(char \<Rightarrow> bool) \<Rightarrow> string \<Rightarrow> string" where
  "strip_chars p s = rev (dropWhile p (rev (dropWhile p s)))"

definition py_strip :: "string \<Rightarrow> string" where
  "py_strip s = strip_chars py_space s"

definition startswith :: "string \<Rightarrow> string \<Rightarrow> bool" where
  "startswith s p \<longleftrightarrow> prefix p s"

definition contains :: "string \<Rightarrow> string \<Rightarrow> bool" where
  "contains s p \<longleftrightarrow> (\<exists>t \<in> set (suffixes s). prefix p t)"

text \<open>\<open>str.upper()\<close> on ASCII letters, which is all a comparison with an ASCII word sees.\<close>

definition py_upper :: "string \<Rightarrow> string" where
  "py_upper s = map (\<lambda>c. let n = of_char c :: nat in if 97 \<le> n \<and> n \<le> 122 then char_of (n - 32) else c) s"

subsection \<open>Runs of adjacent elements\<close>

text \<open>The grouping loop of \<open>_segment_calls\<close> and \<open>_verification_segments\<close>: an element joins the last group
  if the group has its kind, and a group of one is never a group of the first kind.\<close>

definition add_segment :: "('a \<Rightarrow> bool) \<Rightarrow> 'a \<Rightarrow> (bool \<times> 'a list) list \<Rightarrow> (bool \<times> 'a list) list" where
  "add_segment P x segs =
     (case rev segs of
        (b, g) # before \<Rightarrow> if b = P x then rev before @ [(b, g @ [x])] else segs @ [(P x, [x])]
      | [] \<Rightarrow> [(P x, [x])])"

definition segments :: "('a \<Rightarrow> bool) \<Rightarrow> 'a list \<Rightarrow> (bool \<times> 'a list) list" where
  "segments P xs = map (\<lambda>(b, g). (b \<and> 1 < length g, g)) (fold (add_segment P) xs [])"

lemma concat_add_segment: "concat (map snd (add_segment P x segs)) = concat (map snd segs) @ [x]"
  by (cases segs rule: rev_cases) (auto simp: add_segment_def)

lemma concat_segments: "concat (map snd (segments P xs)) = xs"
proof -
  have "concat (map snd (fold (add_segment P) xs segs)) = concat (map snd segs) @ xs" for segs
    by (induction xs arbitrary: segs) (simp_all add: concat_add_segment)
  then show ?thesis by (simp add: segments_def comp_def case_prod_beta)
qed

lemma add_segment_kind:
  "(\<forall>(b, g) \<in> set segs. \<forall>x \<in> set g. P x = b) \<Longrightarrow> (\<forall>(b, g) \<in> set (add_segment P x segs). \<forall>x \<in> set g. P x = b)"
  by (cases segs rule: rev_cases) (auto simp: add_segment_def)

lemma segments_kind: "(True, g) \<in> set (segments P xs) \<Longrightarrow> \<forall>x \<in> set g. P x"
proof -
  have "\<forall>(b, g) \<in> set segs. \<forall>x \<in> set g. P x = b
      \<Longrightarrow> \<forall>(b, g) \<in> set (fold (add_segment P) xs segs). \<forall>x \<in> set g. P x = b" for segs
  proof (induction xs arbitrary: segs)
    case (Cons x xs)
    from Cons.IH [OF add_segment_kind [OF Cons.prems]] show ?case by simp
  qed simp
  from this [of "[]"] show "(True, g) \<in> set (segments P xs) \<Longrightarrow> \<forall>x \<in> set g. P x" by (auto simp: segments_def)
qed

subsection \<open>Laws of dictionaries\<close>

lemma dict_ok_Nil [simp]: "dict_ok []"
  by (simp add: dict_ok_def)

lemma dict_ok_set [dict_simps, intro]: "dict_ok d \<Longrightarrow> dict_ok (dict_set k v d)"
  by (simp add: dict_ok_def distinct_update)

lemma dict_ok_del [dict_simps, intro]: "dict_ok d \<Longrightarrow> dict_ok (dict_del k d)"
  by (simp add: dict_ok_def distinct_delete)

lemma dict_get_set [dict_simps]: "dict_get (dict_set k v d) j = (if j = k then Some v else dict_get d j)"
  by (simp add: update_conv')

lemma dict_get_del [dict_simps]: "dict_get (dict_del k d) j = (if j = k then None else dict_get d j)"
  by (simp add: delete_conv')

lemma dict_keys_set [dict_simps]: "set (dict_keys (dict_set k v d)) = insert k (set (dict_keys d))"
  by (induction d) auto

lemma dict_keys_del [dict_simps]: "set (dict_keys (dict_del k d)) = set (dict_keys d) - {k}"
  by (simp add: delete_keys)

lemma dict_get_None_iff: "dict_get d k = None \<longleftrightarrow> k \<notin> set (dict_keys d)"
  by (induction d) auto

lemma length_dict: "dict_ok d \<Longrightarrow> length d = card (set (dict_keys d))"
  by (metis dict_ok_def distinct_card length_map)

lemma length_dict_set [dict_simps]:
  "length (dict_set k v d) = (if k \<in> set (dict_keys d) then length d else Suc (length d))"
  by (induction d) auto

lemma length_dict_del_le: "length (dict_del k d) \<le> length d"
  by (rule length_delete_le)

lemma dict_get_in_set: "dict_ok d \<Longrightarrow> dict_get d k = Some v \<longleftrightarrow> (k, v) \<in> set d"
  by (simp add: dict_ok_def)

subsection \<open>Laws of text\<close>

lemma split_on_not_Nil [simp]: "split_on p s \<noteq> []"
  by (induction s) (auto split: list.splits)

text \<open>Joining the pieces back with one separator each gives the text again.\<close>

lemma split_on_join:
  "concat (map (\<lambda>w. w @ [sep]) (butlast (split_on (\<lambda>c. c = sep) s)))
     @ last (split_on (\<lambda>c. c = sep) s) = s"
proof (induction s)
  case (Cons a s)
  then show ?case by (cases "split_on (\<lambda>c. c = sep) s") auto
qed simp

lemma split_on_pieces: "\<forall>w \<in> set (split_on p s). \<forall>c \<in> set w. \<not> p c"
proof (induction s)
  case (Cons a s)
  then show ?case by (cases "split_on p s") (auto split: if_splits)
qed simp

subsection \<open>Laws of programs\<close>

lemma ret_apply [simp]: "ret x s = (Inr x, s)"
  by (simp add: ret_def)

lemma raise_apply [simp]: "raise e s = (Inl e, s)"
  by (simp add: raise_def)

lemma gets_apply [simp]: "gets f s = (Inr (f s), s)"
  by (simp add: gets_def)

lemma modify_apply [simp]: "modify f s = (Inr (), f s)"
  by (simp add: modify_def)

lemma liftE_apply [simp]: "liftE r s = (r, s)"
  by (simp add: liftE_def)

lemma liftE_sum [simp]: "liftE (Inr x) = ret x" "liftE (Inl e) = raise e"
  by (simp_all add: fun_eq_iff)

lemma bindE_ret [simp]: "bindE (ret x) f = f x"
  by (simp add: bindE_def fun_eq_iff)

lemma bindE_raise [simp]: "bindE (raise e) f = raise e"
  by (simp add: bindE_def fun_eq_iff)

lemma bindE_assoc: "bindE (bindE m f) g = bindE m (\<lambda>x. bindE (f x) g)"
  by (simp add: bindE_def fun_eq_iff split: prod.split sum.split)

lemma bindE_Inr: "bindE m f s = (Inr y, t) \<longleftrightarrow> (\<exists>x u. m s = (Inr x, u) \<and> f x u = (Inr y, t))"
  by (simp add: bindE_def split: prod.split sum.split)

lemma hoare_ret [hoare_rules]: "(\<And>s. P s \<Longrightarrow> Q x s) \<Longrightarrow> hoare P (ret x) Q E"
  by (simp add: hoare_def)

lemma hoare_raise [hoare_rules]: "(\<And>s. P s \<Longrightarrow> E e s) \<Longrightarrow> hoare P (raise e) Q E"
  by (simp add: hoare_def)

lemma hoare_gets [hoare_rules]: "(\<And>s. P s \<Longrightarrow> Q (f s) s) \<Longrightarrow> hoare P (gets f) Q E"
  by (simp add: hoare_def)

lemma hoare_modify [hoare_rules]: "(\<And>s. P s \<Longrightarrow> Q () (f s)) \<Longrightarrow> hoare P (modify f) Q E"
  by (simp add: hoare_def)

lemma hoare_liftE [hoare_rules]:
  "(\<And>s x. P s \<Longrightarrow> r = Inr x \<Longrightarrow> Q x s) \<Longrightarrow> (\<And>s e. P s \<Longrightarrow> r = Inl e \<Longrightarrow> E e s) \<Longrightarrow> hoare P (liftE r) Q E"
  by (cases r) (simp_all add: hoare_def)

lemma hoare_bind [hoare_rules]:
  assumes "hoare P m R E" and "\<And>x. hoare (R x) (f x) Q E"
  shows "hoare P (bindE m f) Q E"
  using assms unfolding hoare_def bindE_def by (fastforce split: prod.splits sum.splits)

lemma hoare_gets_bind: "(\<And>x. hoare P (f x) Q E) \<Longrightarrow> hoare P (bindE (gets g) f) Q E"
  by (simp add: hoare_def bindE_def)

lemma hoare_guard [hoare_rules]:
  "(\<And>s. P s \<Longrightarrow> b \<Longrightarrow> Q () s) \<Longrightarrow> (\<And>s. P s \<Longrightarrow> \<not> b \<Longrightarrow> E e s) \<Longrightarrow> hoare P (guardE b e) Q E"
  by (simp add: guardE_def hoare_def)

lemma hoare_catch [hoare_rules]:
  assumes "hoare P m Q R" and "\<And>e. hoare (R e) (h e) Q E"
  shows "hoare P (catchE m h) Q E"
  using assms unfolding hoare_def catchE_def by (fastforce split: prod.splits sum.splits)

lemma hoare_if [hoare_rules]:
  "(b \<Longrightarrow> hoare P m Q E) \<Longrightarrow> (\<not> b \<Longrightarrow> hoare P n Q E) \<Longrightarrow> hoare P (if b then m else n) Q E"
  by simp

lemma hoare_option [hoare_rules]:
  "(x = None \<Longrightarrow> hoare P m Q E) \<Longrightarrow> (\<And>y. x = Some y \<Longrightarrow> hoare P (f y) Q E)
   \<Longrightarrow> hoare P (case x of None \<Rightarrow> m | Some y \<Rightarrow> f y) Q E"
  by (cases x) simp_all

lemma hoare_conseq:
  assumes "hoare P' m Q' E'" and "\<And>s. P s \<Longrightarrow> P' s"
    and "\<And>x s. Q' x s \<Longrightarrow> Q x s" and "\<And>e s. E' e s \<Longrightarrow> E e s"
  shows "hoare P m Q E"
  using assms unfolding hoare_def by (fastforce split: prod.splits sum.splits)

lemma hoare_pre: "hoare P' m Q E \<Longrightarrow> (\<And>s. P s \<Longrightarrow> P' s) \<Longrightarrow> hoare P m Q E"
  by (rule hoare_conseq)

lemma hoareI:
  "(\<And>s x t. P s \<Longrightarrow> m s = (Inr x, t) \<Longrightarrow> Q x t) \<Longrightarrow> (\<And>s e t. P s \<Longrightarrow> m s = (Inl e, t) \<Longrightarrow> E e t)
   \<Longrightarrow> hoare P m Q E"
  unfolding hoare_def by (auto split: prod.splits sum.splits)

lemma hoareD: "hoare P m Q E \<Longrightarrow> P s \<Longrightarrow> m s = (Inr x, t) \<Longrightarrow> Q x t"
  unfolding hoare_def by fastforce

lemma hoareD_error: "hoare P m Q E \<Longrightarrow> P s \<Longrightarrow> m s = (Inl e, t) \<Longrightarrow> E e t"
  unfolding hoare_def by fastforce

lemma keepsI: "hoare I m (\<lambda>_. I) (\<lambda>_. I) \<Longrightarrow> keeps I m"
  by (simp add: keeps_def)

lemma keeps_final: "keeps I m \<Longrightarrow> I s \<Longrightarrow> I (snd (m s))"
  by (cases "m s") (auto simp: keeps_def hoare_def split: sum.splits dest!: spec [of _ s])

lemma keeps_iff: "keeps I m \<longleftrightarrow> (\<forall>s. I s \<longrightarrow> I (snd (m s)))"
  by (simp add: keeps_def hoare_def split: prod.split sum.split) (metis prod.collapse snd_conv)

lemma keeps_bind [hoare_rules]: "keeps I m \<Longrightarrow> (\<And>x. keeps I (f x)) \<Longrightarrow> keeps I (bindE m f)"
  unfolding keeps_def by (rule hoare_bind)

end
