(* ===== verification/Ownership.thy ===== *)
theory Ownership
  imports Prelude
begin

text \<open>
  Owners of leases and capacity slots (\<open>garuda/runtime/ownership.py\<close>) and the three-valued
  liveness verdict every takeover decision rests on. What the operating system answers is a
  record of probes: \<open>kill(pid, 0)\<close>, \<open>killpg(pgid, 0)\<close>, the zombie test and the process
  identity reader of \<open>garuda/runtime/recovery.py\<close>.
\<close>

record owner =
  pid :: int
  identity :: string
  pgid :: int
  epoch :: string

text \<open>The outcome of sending signal 0: delivered, no such process, or refused.\<close>

datatype signal0 = Sig_ok | Sig_no_process | Sig_denied

record os_probe =
  kill0 :: "int \<Rightarrow> signal0"
  killpg0 :: "int \<Rightarrow> signal0"
  is_zombie :: "int \<Rightarrow> bool"
  process_identity :: "int \<Rightarrow> unit + string option"

definition same_process :: "string option \<Rightarrow> string option \<Rightarrow> bool" where
  "same_process recorded current =
     (case (recorded, current) of
        (Some r, Some c) \<Rightarrow>
          if r = [] \<or> c = [] then False
          else if r = c then True
          else if startswith r ''ps:'' \<and> startswith c ''ps:''
          then (let start = take 5 (py_words r) in length start = 5 \<and> start = take 5 (py_words c))
          else False
      | _ \<Rightarrow> False)"

definition process_live :: "os_probe \<Rightarrow> int \<Rightarrow> bool option" where
  "process_live os p =
     (case kill0 os p of
        Sig_no_process \<Rightarrow> Some False
      | Sig_denied \<Rightarrow> None
      | Sig_ok \<Rightarrow> Some (\<not> is_zombie os p))"

definition owner_liveness :: "os_probe \<Rightarrow> owner \<Rightarrow> bool option" where
  "owner_liveness os ow =
     (if pid ow \<le> 0 then None
      else case process_live os (pid ow) of
        None \<Rightarrow> None
      | Some True \<Rightarrow>
          if identity ow = [] \<or> identity ow = ''unknown'' then None
          else (case process_identity os (pid ow) of
                  Inl _ \<Rightarrow> None
                | Inr None \<Rightarrow> None
                | Inr (Some current) \<Rightarrow> Some (same_process (Some (identity ow)) (Some current)))
      | Some False \<Rightarrow>
          if pgid ow = pid ow \<and> pgid ow > 1
          then (case killpg0 os (pgid ow) of
                  Sig_no_process \<Rightarrow> Some False
                | Sig_denied \<Rightarrow> None
                | Sig_ok \<Rightarrow> Some True)
          else Some False)"

text \<open>\<open>current_owner\<close> with its fresh epoch as an argument.\<close>

definition current_owner :: "os_probe \<Rightarrow> int \<Rightarrow> (int \<Rightarrow> int) \<Rightarrow> string \<Rightarrow> owner" where
  "current_owner os me getpgid fresh =
     \<lparr> pid = me,
       identity = (case process_identity os me of
                     Inr (Some i) \<Rightarrow> (if i = [] then ''unknown'' else i)
                   | _ \<Rightarrow> ''unknown''),
       pgid = getpgid me, epoch = fresh \<rparr>"

lemma same_process_refl: "r \<noteq> [] \<Longrightarrow> same_process (Some r) (Some r)"
  by (simp add: same_process_def)

lemma same_process_sym: "same_process r c = same_process c r"
  by (auto simp: same_process_def Let_def simp del: length_take split: option.splits)

text \<open>A verdict \<open>False\<close> needs evidence: the pid is positive and either the process is gone
  (and, where it led its group, the group is gone) or the pid now names another process.\<close>

lemma owner_liveness_FalseD:
  assumes "owner_liveness os ow = Some False"
  shows "pid ow > 0 \<and>
    (process_live os (pid ow) = Some False \<and>
       (pgid ow = pid ow \<and> pgid ow > 1 \<longrightarrow> killpg0 os (pgid ow) = Sig_no_process)
     \<or> process_live os (pid ow) = Some True \<and>
       (\<exists>c. process_identity os (pid ow) = Inr (Some c) \<and> \<not> same_process (Some (identity ow)) (Some c)))"
  using assms
  by (auto simp: owner_liveness_def split: if_splits option.splits bool.splits sum.splits signal0.splits)

end
