(* ===== verification/Capacity.thy ===== *)
theory Capacity
  imports Ownership
begin

text \<open>
  Runtime capacity shared by every launch (\<open>garuda/runtime/capacity.py\<close>) and the queue's
  protected reservations in it (\<open>garuda/runtime/queue_slots.py\<close>).

  Durable state is one document per capacity key; a process also keeps the tickets it adopted,
  the reservations it issued and the loans it made. Every access to the disk (taking the
  directory lock, publishing a document, writing a backup) draws the next element of
  \<open>outcomes\<close>: it succeeds, fails with the old document in place, or fails after the new document
  became visible (the directory flush of \<open>strict_store.write_locked_document\<close> comes after the
  rename). An empty list means success from here on. A crash at a publication leaves the same
  disk as one of the two failures, so a statement for every \<open>outcomes\<close> covers crashes too.

  Documents are typed: a record that lacks a field or holds a value of another type is the
  constructor \<open>Unreadable\<close>. Clock readings and random identifiers are functions of a counter.
\<close>

datatype store_error = QueueError | LockUnavailable | CorruptState | JournalError | ValueError
  | KeyError | CapacityError | CapacityUnavailable | StorageUnavailable

datatype io_outcome = Io_ok | Io_fail | Io_fail_visible

datatype 'd stored = Absent | Unreadable | Present 'd

datatype phase = Pending | Selected | Activated | Releasing_selected | Releasing_activated

record qentry =
  entry_id :: string
  seq :: int
  user :: string
  harness :: string
  session_id :: "string option"
  config_digest :: "string option"
  enqueued_at :: rat

record ticket =
  tk_key :: string
  tk_holder :: string
  tk_owner :: owner
  tk_transaction :: string
  tk_queue_root :: string
  tk_binding_digest :: string
  tk_activation_ready :: bool

record marker =
  mk_transaction :: string
  mk_queue_root :: string
  mk_binding_digest :: string
  mk_phase :: phase
  mk_activation_ready :: bool

record slot =
  slot_owner :: owner
  reserved_at :: rat
  slot_queue :: "marker option"
  slot_loan :: "string option"

record cap_document =
  cap_version :: nat
  cap_key :: string
  cap_slots :: "slot dict"

text \<open>A reservation carries the identity of its Python object, which \<open>is\<close> compares.\<close>

record reservation =
  res_key :: string
  res_holder :: string
  res_owner :: owner
  res_object :: nat

text \<open>The extra state of a loan of a queue slot (\<open>QueueCapacityLoan\<close>).\<close>

record queue_borrow =
  qb_ticket :: ticket
  qb_scope :: string
  qb_session :: string
  qb_borrower :: string
  qb_parent_quarantined :: bool

record loan =
  ln_reservation :: reservation
  ln_epoch :: string
  ln_active :: bool
  ln_used :: bool
  ln_quarantined :: bool
  ln_queue :: "queue_borrow option"

record world =
  cap_files :: "string \<Rightarrow> cap_document stored"
  cap_backups :: "string \<Rightarrow> cap_document option"
  adopted :: "string \<times> string \<times> string \<Rightarrow> ticket option"
  issued :: "string \<times> string \<Rightarrow> reservation option"
  loan_table :: "string \<times> string \<Rightarrow> nat option"
  loan_objs :: "nat \<Rightarrow> loan option"
  claimed_owners :: "string \<times> string \<Rightarrow> owner option"
  outcomes :: "io_outcome list"
  next_id :: nat
  clock_reads :: nat

text \<open>What an operation takes from its surroundings.\<close>

record cap_env =
  cap_root :: string
  os :: os_probe
  getpid :: int
  getpgid :: "int \<Rightarrow> int"
  store_liveness :: "owner \<Rightarrow> bool option"
  clock :: "nat \<Rightarrow> rat"
  uuid4 :: "nat \<Rightarrow> string"
  sha256 :: "string \<Rightarrow> string"

type_synonym ('w, 'a) store_prog = "('w world_scheme, store_error, 'a) prog"

subsection \<open>Storage\<close>

definition next_outcome :: "('w, io_outcome) store_prog" where
  "next_outcome s =
     (case outcomes s of [] \<Rightarrow> (Inr Io_ok, s) | r # rs \<Rightarrow> (Inr r, s\<lparr>outcomes := rs\<rparr>))"

definition exclusive_lock :: "store_error \<Rightarrow> ('w, unit) store_prog" where
  "exclusive_lock e = bindE next_outcome (\<lambda>r. guardE (r = Io_ok) e)"

text \<open>A publication: \<open>change\<close> makes the new document visible.\<close>

definition publish_with :: "('w world_scheme \<Rightarrow> 'w world_scheme) \<Rightarrow> store_error \<Rightarrow> ('w, unit) store_prog" where
  "publish_with change e =
     bindE next_outcome (\<lambda>r. case r of
        Io_ok \<Rightarrow> modify change
      | Io_fail \<Rightarrow> raise e
      | Io_fail_visible \<Rightarrow> bindE (modify change) (\<lambda>_. raise e))"

definition fresh_id :: "('w, nat) store_prog" where
  "fresh_id s = (Inr (next_id s), s\<lparr>next_id := Suc (next_id s)\<rparr>)"

definition fresh_uuid :: "('c cap_env_scheme) \<Rightarrow> ('w, string) store_prog" where
  "fresh_uuid env = bindE fresh_id (\<lambda>n. ret (uuid4 env n))"

definition read_clock :: "('c cap_env_scheme) \<Rightarrow> ('w, rat) store_prog" where
  "read_clock env s = (Inr (clock env (clock_reads s)), s\<lparr>clock_reads := Suc (clock_reads s)\<rparr>)"

definition me :: "('c cap_env_scheme) \<Rightarrow> ('w, owner) store_prog" where
  "me env = bindE (fresh_uuid env) (\<lambda>u. ret (current_owner (os env) (getpid env) (getpgid env) u))"

subsection \<open>Tickets and markers\<close>

definition nonempty :: "string option \<Rightarrow> bool" where
  "nonempty x = (case x of None \<Rightarrow> False | Some s \<Rightarrow> s \<noteq> [])"

definition binding_ready :: "qentry \<Rightarrow> bool" where
  "binding_ready e \<longleftrightarrow> user e \<noteq> [] \<and> harness e \<noteq> [] \<and> nonempty (session_id e) \<and> nonempty (config_digest e)"

definition check_scope_binding :: "string \<Rightarrow> qentry \<Rightarrow> store_error + unit" where
  "check_scope_binding scope e =
     (if binding_ready e \<and> scope \<noteq> user e @ '':'' @ harness e then Inl ValueError else Inr ())"

text \<open>\<open>json.dumps\<close> of the binding: its keys sorted, \<open>", "\<close> and \<open>": "\<close> as separators.\<close>

definition hex_digit :: "nat \<Rightarrow> char" where
  "hex_digit n = char_of (if n < 10 then 48 + n else 87 + n)"

definition json_char :: "char \<Rightarrow> string" where
  "json_char c = (let n = of_char c :: nat in
     if n = 34 then [char_of (92::nat), c] else if n = 92 then [c, c]
     else if n = 10 then [char_of (92::nat), CHR ''n''] else if n = 13 then [char_of (92::nat), CHR ''r'']
     else if n = 9 then [char_of (92::nat), CHR ''t''] else if n = 8 then [char_of (92::nat), CHR ''b'']
     else if n = 12 then [char_of (92::nat), CHR ''f'']
     else if n < 32 \<or> 127 < n
     then [char_of (92::nat), CHR ''u'', CHR ''0'', CHR ''0'', hex_digit (n div 16), hex_digit (n mod 16)]
     else [c])"

definition json_string :: "string \<Rightarrow> string" where
  "json_string s = [char_of (34::nat)] @ concat (map json_char s) @ [char_of (34::nat)]"

definition json_opt :: "string option \<Rightarrow> string" where
  "json_opt x = (case x of None \<Rightarrow> ''null'' | Some s \<Rightarrow> json_string s)"

definition binding_json :: "string \<Rightarrow> qentry \<Rightarrow> string" where
  "binding_json scope e =
     ''{'' @ json_string ''config_digest'' @ '': '' @ json_opt (config_digest e) @ '', ''
     @ json_string ''harness'' @ '': '' @ json_string (harness e) @ '', ''
     @ json_string ''id'' @ '': '' @ json_string (entry_id e) @ '', ''
     @ json_string ''scope'' @ '': '' @ json_string scope @ '', ''
     @ json_string ''seq'' @ '': '' @ show_int (seq e) @ '', ''
     @ json_string ''session_id'' @ '': '' @ json_opt (session_id e) @ '', ''
     @ json_string ''user'' @ '': '' @ json_string (user e) @ ''}''"

definition ticket_create :: "('c cap_env_scheme) \<Rightarrow> string \<Rightarrow> string \<Rightarrow> qentry \<Rightarrow> owner \<Rightarrow> string
    \<Rightarrow> store_error + ticket" where
  "ticket_create env queue_root scope e ow transaction =
     (case check_scope_binding scope e of Inl err \<Rightarrow> Inl err | Inr _ \<Rightarrow>
      if queue_root = [] \<or> scope = [] \<or> transaction = [] \<or> entry_id e = [] \<or> harness e = [] \<or> user e = []
         \<or> seq e < 1
      then Inl ValueError
      else if pid ow \<le> 0 \<or> pgid ow \<le> 0 \<or> identity ow = [] \<or> epoch ow = [] then Inl ValueError
      else Inr \<lparr> tk_key = harness e, tk_holder = entry_id e, tk_owner = ow, tk_transaction = transaction,
                 tk_queue_root = queue_root, tk_binding_digest = sha256 env (binding_json scope e),
                 tk_activation_ready = binding_ready e \<rparr>)"

definition ticket_marker :: "ticket \<Rightarrow> phase \<Rightarrow> marker" where
  "ticket_marker t p =
     \<lparr> mk_transaction = tk_transaction t, mk_queue_root = tk_queue_root t,
       mk_binding_digest = tk_binding_digest t, mk_phase = p, mk_activation_ready = tk_activation_ready t \<rparr>"

definition valid_marker :: "marker \<Rightarrow> bool" where
  "valid_marker m \<longleftrightarrow> mk_transaction m \<noteq> [] \<and> mk_queue_root m \<noteq> [] \<and> mk_binding_digest m \<noteq> []"

definition can_activate :: "('c cap_env_scheme) \<Rightarrow> ticket \<Rightarrow> bool" where
  "can_activate env t \<longleftrightarrow> tk_activation_ready t \<and> pid (tk_owner t) = getpid env
     \<and> pgid (tk_owner t) = getpgid env 0 \<and> owner_liveness (os env) (tk_owner t) = Some True"

subsection \<open>Adoption\<close>

abbreviation adoption_key :: "('c cap_env_scheme) \<Rightarrow> ticket \<Rightarrow> string \<times> string \<times> string" where
  "adoption_key env t \<equiv> (cap_root env, tk_key t, tk_holder t)"

definition adopt :: "('c cap_env_scheme) \<Rightarrow> ticket \<Rightarrow> ('w, unit) store_prog" where
  "adopt env t = modify (\<lambda>s. s\<lparr>adopted := (adopted s)(adoption_key env t \<mapsto> t)\<rparr>)"

definition unadopt :: "('c cap_env_scheme) \<Rightarrow> ticket \<Rightarrow> ('w, unit) store_prog" where
  "unadopt env t =
     modify (\<lambda>s. if adopted s (adoption_key env t) = Some t
                 then s\<lparr>adopted := (adopted s)(adoption_key env t := None)\<rparr> else s)"

definition is_adopted :: "('c cap_env_scheme) \<Rightarrow> 'w world_scheme \<Rightarrow> ticket \<Rightarrow> bool" where
  "is_adopted env s t \<longleftrightarrow> adopted s (adoption_key env t) = Some t"

subsection \<open>The capacity document\<close>

definition cap_path :: "('c cap_env_scheme) \<Rightarrow> string \<Rightarrow> string" where
  "cap_path env key = take 32 (sha256 env key) @ ''.json''"

definition bad_slot :: "cap_document \<Rightarrow> slot \<Rightarrow> bool" where
  "bad_slot d sl \<longleftrightarrow>
     (case slot_queue sl of None \<Rightarrow> False | Some m \<Rightarrow> cap_version d \<noteq> 2 \<or> \<not> valid_marker m)"

text \<open>A legacy source is backed up before its first mutation; an existing different backup refuses.\<close>

definition preserve_backup :: "('c cap_env_scheme) \<Rightarrow> string \<Rightarrow> cap_document \<Rightarrow> ('w, unit) store_prog" where
  "preserve_backup env key d =
     bindE (gets (\<lambda>s. cap_backups s (cap_path env key))) (\<lambda>b. case b of
        Some old \<Rightarrow> bindE (guardE (old = d) CapacityError) (\<lambda>_. publish_with (\<lambda>s. s) CapacityError)
      | None \<Rightarrow> publish_with (\<lambda>s. s\<lparr>cap_backups := (cap_backups s)(cap_path env key \<mapsto> d)\<rparr>) CapacityError)"

text \<open>The checks on a document that was read, and the upgrade of an empty version 1 document.\<close>

definition cap_accept :: "('c cap_env_scheme) \<Rightarrow> string \<Rightarrow> bool \<Rightarrow> cap_document \<Rightarrow> ('w, cap_document) store_prog" where
  "cap_accept env key for_mutation d =
     bindE (guardE (cap_version d \<in> {1, 2}) CapacityError) (\<lambda>_.
     bindE (guardE (cap_key d = key) CapacityError) (\<lambda>_.
     bindE (guardE (\<not> (\<exists>(h, sl) \<in> set (cap_slots d). bad_slot d sl)) CapacityError) (\<lambda>_.
     if cap_version d = 1 \<and> for_mutation
     then bindE (guardE (cap_slots d = []) CapacityError) (\<lambda>_.
          bindE (preserve_backup env key d) (\<lambda>_.
          ret (d\<lparr>cap_version := 2\<rparr>)))
     else ret d)))"

definition cap_load :: "('c cap_env_scheme) \<Rightarrow> string \<Rightarrow> bool \<Rightarrow> ('w, cap_document) store_prog" where
  "cap_load env key for_mutation =
     bindE (gets (\<lambda>s. cap_files s (cap_path env key))) (\<lambda>f. case f of
        Unreadable \<Rightarrow> raise CapacityError
      | Absent \<Rightarrow> ret \<lparr> cap_version = 2, cap_key = key, cap_slots = [] \<rparr>
      | Present d \<Rightarrow> cap_accept env key for_mutation d)"

definition write_cap :: "('c cap_env_scheme) \<Rightarrow> string \<Rightarrow> cap_document \<Rightarrow> store_error \<Rightarrow> ('w, unit) store_prog" where
  "write_cap env key d e =
     publish_with (\<lambda>s. s\<lparr>cap_files := (cap_files s)(cap_path env key := Present d)\<rparr>) e"

definition put_slot :: "string \<Rightarrow> slot \<Rightarrow> cap_document \<Rightarrow> cap_document" where
  "put_slot h sl d = d\<lparr>cap_slots := dict_set h sl (cap_slots d)\<rparr>"

definition drop_slot :: "string \<Rightarrow> cap_document \<Rightarrow> cap_document" where
  "drop_slot h d = d\<lparr>cap_slots := dict_del h (cap_slots d)\<rparr>"

definition set_phase :: "phase \<Rightarrow> slot \<Rightarrow> slot" where
  "set_phase p sl = sl\<lparr>slot_queue := map_option (\<lambda>m. m\<lparr>mk_phase := p\<rparr>) (slot_queue sl)\<rparr>"

definition at_ceiling :: "int option \<Rightarrow> cap_document \<Rightarrow> bool" where
  "at_ceiling limit d = (case limit of None \<Rightarrow> False | Some c \<Rightarrow> int (length (cap_slots d)) \<ge> c)"

subsection \<open>Queue reservations (\<open>QueueSlots\<close>)\<close>

definition same_slot :: "slot \<Rightarrow> ticket \<Rightarrow> bool" where
  "same_slot sl t \<longleftrightarrow> slot_owner sl = tk_owner t \<and>
     (case slot_queue sl of None \<Rightarrow> False
      | Some m \<Rightarrow> valid_marker m \<and> m\<lparr>mk_phase := Pending\<rparr> = ticket_marker t Pending)"

definition slot_phase :: "slot \<Rightarrow> phase" where
  "slot_phase sl = (case slot_queue sl of None \<Rightarrow> Pending | Some m \<Rightarrow> mk_phase m)"

definition is_activated_phase :: "phase \<Rightarrow> bool" where
  "is_activated_phase p \<longleftrightarrow> p = Activated \<or> p = Releasing_activated"

definition slots_reserve :: "('c cap_env_scheme) \<Rightarrow> ticket \<Rightarrow> int option \<Rightarrow> ('w, unit) store_prog" where
  "slots_reserve env t limit =
     bindE (guardE (case limit of None \<Rightarrow> True | Some c \<Rightarrow> 1 \<le> c) CapacityError) (\<lambda>_.
     bindE (exclusive_lock CapacityError) (\<lambda>_.
     bindE (cap_load env (tk_key t) True) (\<lambda>d.
     case dict_get (cap_slots d) (tk_holder t) of
       Some existing \<Rightarrow> guardE (same_slot existing t) CapacityUnavailable
     | None \<Rightarrow>
         bindE (guardE (\<not> at_ceiling limit d) CapacityUnavailable) (\<lambda>_.
         bindE (read_clock env) (\<lambda>now.
         write_cap env (tk_key t)
           (put_slot (tk_holder t)
              \<lparr> slot_owner = tk_owner t, reserved_at = now, slot_queue = Some (ticket_marker t Pending),
                slot_loan = None \<rparr> d)
           CapacityError)))))"

definition slots_transition :: "('c cap_env_scheme) \<Rightarrow> ticket \<Rightarrow> phase \<Rightarrow> ('w, unit) store_prog" where
  "slots_transition env t p =
     bindE (guardE (p = Selected \<or> p = Activated) CapacityError) (\<lambda>_.
     bindE (guardE (p = Activated \<longrightarrow> can_activate env t) CapacityUnavailable) (\<lambda>_.
     bindE (exclusive_lock CapacityError) (\<lambda>_.
     bindE (cap_load env (tk_key t) True) (\<lambda>d.
     case dict_get (cap_slots d) (tk_holder t) of
       None \<Rightarrow> raise CapacityUnavailable
     | Some sl \<Rightarrow>
         bindE (guardE (same_slot sl t) CapacityUnavailable) (\<lambda>_.
         if slot_phase sl = p then write_cap env (tk_key t) d CapacityError
         else
           bindE (guardE ((slot_phase sl, p) \<in> {(Pending, Selected), (Selected, Activated)}) CapacityUnavailable)
             (\<lambda>_. write_cap env (tk_key t) (put_slot (tk_holder t) (set_phase p sl) d) CapacityError))))))"

definition slots_phase :: "('c cap_env_scheme) \<Rightarrow> ticket \<Rightarrow> ('w, phase option) store_prog" where
  "slots_phase env t =
     bindE (cap_load env (tk_key t) False) (\<lambda>d.
     case dict_get (cap_slots d) (tk_holder t) of
       None \<Rightarrow> ret None
     | Some sl \<Rightarrow> bindE (guardE (same_slot sl t) CapacityUnavailable) (\<lambda>_. ret (Some (slot_phase sl))))"

subsection \<open>Loans: who may end one\<close>

definition check_issued :: "('c cap_env_scheme) \<Rightarrow> 'w world_scheme \<Rightarrow> reservation \<Rightarrow> slot option \<Rightarrow> bool" where
  "check_issued env s r slo =
     (let ow = current_owner (os env) (getpid env) (getpgid env) [] in
      (case issued s (res_key r, res_holder r) of None \<Rightarrow> False | Some i \<Rightarrow> res_object i = res_object r)
      \<and> pid (res_owner r) = pid ow \<and> identity (res_owner r) = identity ow \<and> pgid (res_owner r) = pgid ow
      \<and> (case slo of None \<Rightarrow> False
         | Some sl \<Rightarrow> slot_queue sl = None \<and> slot_owner sl = res_owner r
             \<and> store_liveness env (slot_owner sl) = Some True))"

text \<open>\<open>CapacityLoan.owner_may_release\<close>: \<open>_check_issued\<close> raises when the authority is gone.\<close>

definition loan_owner_may_release ::
    "('c cap_env_scheme) \<Rightarrow> 'w world_scheme \<Rightarrow> nat \<Rightarrow> loan \<Rightarrow> slot \<Rightarrow> store_error + bool" where
  "loan_owner_may_release env s i l sl =
     (if \<not> check_issued env s (ln_reservation l) (Some sl) then Inl CapacityError
      else Inr (ln_used l \<and> \<not> ln_active l \<and> \<not> ln_quarantined l \<and> slot_loan sl = Some (ln_epoch l)
                \<and> loan_table s (res_key (ln_reservation l), res_holder (ln_reservation l)) = Some i))"

definition queue_loan_checked ::
    "('c cap_env_scheme) \<Rightarrow> 'w world_scheme \<Rightarrow> nat \<Rightarrow> loan \<Rightarrow> queue_borrow \<Rightarrow> slot option \<Rightarrow> bool" where
  "queue_loan_checked env s i l b slo \<longleftrightarrow>
     (let t = qb_ticket b; r = ln_reservation l in
      pid (tk_owner t) = getpid env \<and> pgid (tk_owner t) = getpgid env 0
      \<and> owner_liveness (os env) (tk_owner t) = Some True
      \<and> claimed_owners s (qb_scope b, qb_session b) = Some (tk_owner t)
      \<and> (case issued s (res_key r, res_holder r) of None \<Rightarrow> False | Some x \<Rightarrow> res_object x = res_object r)
      \<and> loan_table s (res_key r, res_holder r) = Some i
      \<and> (case slo of None \<Rightarrow> False | Some sl \<Rightarrow> same_slot sl t))"

definition queue_loan_owner_may_release ::
    "('c cap_env_scheme) \<Rightarrow> 'w world_scheme \<Rightarrow> nat \<Rightarrow> loan \<Rightarrow> queue_borrow \<Rightarrow> slot \<Rightarrow> ticket \<Rightarrow> store_error + bool" where
  "queue_loan_owner_may_release env s i l b sl t =
     (if \<not> queue_loan_checked env s i l b (Some sl) then Inl CapacityError
      else Inr (t = qb_ticket b \<and> ln_used l \<and> \<not> ln_active l \<and> \<not> ln_quarantined l
                \<and> \<not> qb_parent_quarantined b \<and> slot_loan sl = Some (ln_epoch l)))"

definition borrower_closed :: "('c cap_env_scheme) \<Rightarrow> 'w world_scheme \<Rightarrow> slot \<Rightarrow> ticket \<Rightarrow> store_error + bool" where
  "borrower_closed env s sl t =
     (case loan_table s (tk_key t, tk_holder t) of None \<Rightarrow> Inr False
      | Some i \<Rightarrow> (case loan_objs s i of None \<Rightarrow> Inr False
         | Some l \<Rightarrow> (case ln_queue l of None \<Rightarrow> Inr False
            | Some b \<Rightarrow> queue_loan_owner_may_release env s i l b sl t)))"

definition slots_fence_release :: "('c cap_env_scheme) \<Rightarrow> ticket \<Rightarrow> bool \<Rightarrow> ('w, unit) store_prog" where
  "slots_fence_release env t preactivation_only =
     bindE (exclusive_lock CapacityError) (\<lambda>_.
     bindE (cap_load env (tk_key t) True) (\<lambda>d.
     case dict_get (cap_slots d) (tk_holder t) of
       None \<Rightarrow> ret ()
     | Some sl \<Rightarrow>
         bindE (guardE (same_slot sl t) CapacityUnavailable) (\<lambda>_.
         bindE (if slot_loan sl = None then ret ()
                else bindE (gets (\<lambda>s. borrower_closed env s sl t)) (\<lambda>r.
                     bindE (liftE r) (\<lambda>ok. guardE ok CapacityUnavailable))) (\<lambda>_.
         bindE (guardE (\<not> (preactivation_only \<and> is_activated_phase (slot_phase sl))) CapacityUnavailable) (\<lambda>_.
         write_cap env (tk_key t)
           (put_slot (tk_holder t)
              (set_phase (if is_activated_phase (slot_phase sl) then Releasing_activated else Releasing_selected) sl) d)
           CapacityError)))))"

definition slots_release :: "('c cap_env_scheme) \<Rightarrow> ticket \<Rightarrow> ('w, unit) store_prog" where
  "slots_release env t =
     bindE (exclusive_lock CapacityError) (\<lambda>_.
     bindE (cap_load env (tk_key t) True) (\<lambda>d.
     case dict_get (cap_slots d) (tk_holder t) of
       None \<Rightarrow> ret ()
     | Some sl \<Rightarrow>
         bindE (guardE (same_slot sl t) CapacityUnavailable) (\<lambda>_.
         bindE (guardE (slot_phase sl = Releasing_selected \<or> slot_phase sl = Releasing_activated) CapacityUnavailable)
           (\<lambda>_. write_cap env (tk_key t) (drop_slot (tk_holder t) d) CapacityError))))"

subsection \<open>Ordinary reservations (\<open>CapacityStore\<close>)\<close>

definition cap_issue :: "string \<Rightarrow> string \<Rightarrow> owner \<Rightarrow> ('w, reservation) store_prog" where
  "cap_issue key h ow =
     bindE fresh_id (\<lambda>n.
     let r = \<lparr> res_key = key, res_holder = h, res_owner = ow, res_object = n \<rparr> in
     bindE (modify (\<lambda>s. s\<lparr>issued := (issued s)((key, h) \<mapsto> r), loan_table := (loan_table s)((key, h) := None)\<rparr>))
       (\<lambda>_. ret r))"

definition launch_authority :: "('c cap_env_scheme) \<Rightarrow> 'w world_scheme \<Rightarrow> ticket option \<Rightarrow> owner \<Rightarrow> slot \<Rightarrow> marker \<Rightarrow> bool" where
  "launch_authority env s ad ow sl m =
     (case ad of None \<Rightarrow> False
      | Some t \<Rightarrow> ow = tk_owner t \<and> is_adopted env s t \<and> slot_owner sl = ow
          \<and> (m = ticket_marker t Selected \<or> m = ticket_marker t Activated) \<and> can_activate env t)"

definition cap_reserve_existing :: "('c cap_env_scheme) \<Rightarrow> string \<Rightarrow> string \<Rightarrow> ticket option \<Rightarrow> owner
    \<Rightarrow> cap_document \<Rightarrow> slot \<Rightarrow> ('w, reservation) store_prog" where
  "cap_reserve_existing env key h ad ow d sl =
     bindE (guardE (slot_loan sl = None) CapacityUnavailable) (\<lambda>_.
     case slot_queue sl of
       Some m \<Rightarrow>
         bindE (gets (\<lambda>s. launch_authority env s ad ow sl m)) (\<lambda>ok.
         bindE (guardE ok CapacityUnavailable) (\<lambda>_.
         bindE (write_cap env key (put_slot h (set_phase Activated sl) d) CapacityError) (\<lambda>_.
         bindE (gets (\<lambda>s. \<exists>t. ad = Some t \<and> is_adopted env s t)) (\<lambda>still.
         bindE (guardE still CapacityUnavailable) (\<lambda>_. cap_issue key h ow)))))
     | None \<Rightarrow>
         if slot_owner sl = ow
         then bindE (guardE (store_liveness env (slot_owner sl) = Some True) CapacityUnavailable)
                (\<lambda>_. cap_issue key h ow)
         else raise CapacityUnavailable)"

definition cap_reserve :: "('c cap_env_scheme) \<Rightarrow> string \<Rightarrow> string \<Rightarrow> int \<Rightarrow> owner option \<Rightarrow> ticket option
    \<Rightarrow> ('w, reservation) store_prog" where
  "cap_reserve env key h limit given queue_ticket =
     bindE (guardE (1 \<le> limit) CapacityError) (\<lambda>_.
     bindE (gets (\<lambda>s. case adopted s (cap_root env, key, h) of
                        None \<Rightarrow> None
                      | Some t \<Rightarrow> if pid (tk_owner t) = getpid env then Some t else None)) (\<lambda>ad.
     bindE (case given of Some ow \<Rightarrow> ret ow
            | None \<Rightarrow> (case ad of Some t \<Rightarrow> ret (tk_owner t) | None \<Rightarrow> me env)) (\<lambda>ow.
     bindE (exclusive_lock CapacityError) (\<lambda>_.
     bindE (cap_load env key True) (\<lambda>d.
     bindE (gets (\<lambda>s. case queue_ticket of None \<Rightarrow> True
                      | Some t \<Rightarrow> ad = Some t \<and> tk_key t = key \<and> tk_holder t = h \<and> is_adopted env s t)) (\<lambda>ok.
     bindE (guardE ok CapacityUnavailable) (\<lambda>_.
     case dict_get (cap_slots d) h of
       Some sl \<Rightarrow> cap_reserve_existing env key h ad ow d sl
     | None \<Rightarrow>
         bindE (guardE (ad = None) CapacityUnavailable) (\<lambda>_.
         bindE (guardE (\<not> at_ceiling (Some limit) d) CapacityUnavailable) (\<lambda>_.
         bindE (read_clock env) (\<lambda>now.
         bindE (write_cap env key
                  (put_slot h \<lparr> slot_owner = ow, reserved_at = now, slot_queue = None, slot_loan = None \<rparr> d)
                  CapacityError)
           (\<lambda>_. cap_issue key h ow)))))))))))"

text \<open>Whether \<open>release\<close> may drop a slot that carries a loan marker; a queue slot's loan object has a
  different signature and cannot stand here, because a queue slot returns earlier.\<close>

definition loan_permits_release :: "('c cap_env_scheme) \<Rightarrow> 'w world_scheme \<Rightarrow> reservation \<Rightarrow> slot \<Rightarrow> store_error + bool" where
  "loan_permits_release env s r sl =
     (case issued s (res_key r, res_holder r) of None \<Rightarrow> Inr False
      | Some x \<Rightarrow> if res_object x \<noteq> res_object r then Inr False
         else (case loan_table s (res_key r, res_holder r) of None \<Rightarrow> Inr False
         | Some i \<Rightarrow> (case loan_objs s i of None \<Rightarrow> Inr False
            | Some l \<Rightarrow> loan_owner_may_release env s i l sl)))"

definition cap_release :: "('c cap_env_scheme) \<Rightarrow> reservation \<Rightarrow> ('w, unit) store_prog" where
  "cap_release env r =
     bindE (exclusive_lock CapacityError) (\<lambda>_.
     bindE (cap_load env (res_key r) True) (\<lambda>d.
     case dict_get (cap_slots d) (res_holder r) of
       None \<Rightarrow> ret ()
     | Some sl \<Rightarrow>
         if slot_owner sl \<noteq> res_owner r then ret ()
         else if slot_queue sl \<noteq> None then ret ()
         else
           bindE (if slot_loan sl = None then ret True
                  else bindE (gets (\<lambda>s. loan_permits_release env s r sl)) liftE) (\<lambda>ok.
           if ok then write_cap env (res_key r) (drop_slot (res_holder r) d) CapacityError else ret ())))"

definition cap_holders :: "('c cap_env_scheme) \<Rightarrow> string \<Rightarrow> ('w, string list) store_prog" where
  "cap_holders env key = bindE (cap_load env key False) (\<lambda>d. ret (sort (dict_keys (cap_slots d))))"

subsection \<open>The slots a key has, and what an operation may change\<close>

text \<open>
  \<open>slot_view\<close> is the abstract state of the capacity store: for every key, the map from holders
  to slots that the durable documents record. \<open>rest\<close> is what the queue keeps in the same world.
\<close>

type_synonym slots = "string \<Rightarrow> string \<Rightarrow> slot option"

type_synonym 'w kept = "(string \<times> string \<times> string \<Rightarrow> ticket option) \<times> (string \<times> string \<Rightarrow> owner option) \<times> 'w"

definition slot_view :: "('c cap_env_scheme) \<Rightarrow> 'w world_scheme \<Rightarrow> slots" where
  "slot_view env s key =
     (case cap_files s (cap_path env key) of
        Present d \<Rightarrow> if cap_key d = key then dict_get (cap_slots d) else Map.empty
      | _ \<Rightarrow> Map.empty)"

definition rest :: "'w world_scheme \<Rightarrow> 'w kept" where
  "rest s = (adopted s, claimed_owners s, world.more s)"

definition seen :: "('c cap_env_scheme) \<Rightarrow> slots \<Rightarrow> 'w kept \<Rightarrow> 'w world_scheme \<Rightarrow> bool" where
  "seen env v r s \<longleftrightarrow> slot_view env s = v \<and> rest s = r"

definition loaded :: "('c cap_env_scheme) \<Rightarrow> string \<Rightarrow> cap_document \<Rightarrow> 'w world_scheme \<Rightarrow> bool" where
  "loaded env key d s \<longleftrightarrow> cap_key d = key \<and> dict_get (cap_slots d) = slot_view env s key
     \<and> (cap_files s (cap_path env key) = Absent
        \<or> (\<exists>d0. cap_files s (cap_path env key) = Present d0 \<and> cap_key d0 = key))"

definition upd_slot :: "slots \<Rightarrow> string \<Rightarrow> string \<Rightarrow> slot option \<Rightarrow> slots" where
  "upd_slot v key h x = v(key := (v key)(h := x))"

lemma upd_slot_apply: "upd_slot v key h x k j = (if k = key \<and> j = h then x else v k j)"
  by (simp add: upd_slot_def)

lemma upd_slot_same [simp]: "upd_slot v key h (v key h) = v"
  by (simp add: upd_slot_def)

lemma seen_outcomes [simp]: "seen env v r (s\<lparr>outcomes := x\<rparr>) = seen env v r s"
  by (simp add: seen_def slot_view_def rest_def fun_eq_iff)

lemma seen_next_id [simp]: "seen env v r (s\<lparr>next_id := n\<rparr>) = seen env v r s"
  by (simp add: seen_def slot_view_def rest_def fun_eq_iff)

lemma seen_clock [simp]: "seen env v r (s\<lparr>clock_reads := n\<rparr>) = seen env v r s"
  by (simp add: seen_def slot_view_def rest_def fun_eq_iff)

lemma seen_backups [simp]: "seen env v r (s\<lparr>cap_backups := b\<rparr>) = seen env v r s"
  by (simp add: seen_def slot_view_def rest_def fun_eq_iff)

lemma seen_issued [simp]: "seen env v r (s\<lparr>issued := a, loan_table := b\<rparr>) = seen env v r s"
  by (simp add: seen_def slot_view_def rest_def fun_eq_iff)

lemma loaded_outcomes [simp]: "loaded env key d (s\<lparr>outcomes := x\<rparr>) = loaded env key d s"
  by (simp add: loaded_def slot_view_def)

lemma loaded_clock [simp]: "loaded env key d (s\<lparr>clock_reads := x\<rparr>) = loaded env key d s"
  by (simp add: loaded_def slot_view_def)

lemma loaded_view: "loaded env key d s \<Longrightarrow> seen env v r s \<Longrightarrow> dict_get (cap_slots d) h = v key h"
  by (auto simp: loaded_def seen_def)

subsection \<open>Triples of the storage steps\<close>

lemma hoare_next_outcome:
  "(\<And>s x. P (s\<lparr>outcomes := x\<rparr>) = P s) \<Longrightarrow> hoare P next_outcome (\<lambda>_. P) E"
  by (rule hoareI) (auto simp: next_outcome_def split: list.splits)

lemma hoare_lock:
  assumes "\<And>s x. P (s\<lparr>outcomes := x\<rparr>) = P s"
  shows "hoare P (exclusive_lock e) (\<lambda>_. P) (\<lambda>_. P)"
  unfolding exclusive_lock_def
  by (rule hoare_bind [OF hoare_next_outcome [OF assms]]) (rule hoare_guard)

lemma hoare_publish_with:
  assumes "\<And>s x. P (s\<lparr>outcomes := x\<rparr>) = P s" and "\<And>s. P s \<Longrightarrow> Q (change s)"
  shows "hoare P (publish_with change e) (\<lambda>_. Q) (\<lambda>e' s. e' = e \<and> (P s \<or> Q s))"
  unfolding publish_with_def
proof (rule hoare_bind [OF hoare_next_outcome [OF assms(1)]])
  fix r
  show "hoare P (case r of Io_ok \<Rightarrow> modify change | Io_fail \<Rightarrow> raise e
      | Io_fail_visible \<Rightarrow> bindE (modify change) (\<lambda>_. raise e)) (\<lambda>_. Q) (\<lambda>e' s. e' = e \<and> (P s \<or> Q s))"
    using assms(2) by (cases r) (auto simp: hoare_def bindE_def)
qed

lemma hoare_read_clock:
  "(\<And>s x. P (s\<lparr>clock_reads := x\<rparr>) = P s) \<Longrightarrow> hoare P (read_clock env) (\<lambda>_. P) E"
  by (rule hoareI) (auto simp: read_clock_def)

lemma hoare_fresh_id: "(\<And>s x. P (s\<lparr>next_id := x\<rparr>) = P s) \<Longrightarrow> hoare P fresh_id (\<lambda>_. P) E"
  by (rule hoareI) (auto simp: fresh_id_def)

lemma hoare_fresh_uuid: "(\<And>s x. P (s\<lparr>next_id := x\<rparr>) = P s) \<Longrightarrow> hoare P (fresh_uuid env) (\<lambda>_. P) E"
  unfolding fresh_uuid_def by (rule hoare_bind [OF hoare_fresh_id]) (auto intro: hoare_ret)

lemma hoare_me: "(\<And>s x. P (s\<lparr>next_id := x\<rparr>) = P s) \<Longrightarrow> hoare P (me env) (\<lambda>_. P) E"
  unfolding me_def by (rule hoare_bind [OF hoare_fresh_uuid]) (auto intro: hoare_ret)

lemma hoare_preserve_backup:
  assumes o: "\<And>s x. P (s\<lparr>outcomes := x\<rparr>) = P s" and b: "\<And>s x. P (s\<lparr>cap_backups := x\<rparr>) = P s"
  shows "hoare P (preserve_backup env key d) (\<lambda>_. P) (\<lambda>_. P)"
proof -
  have pub: "hoare P (publish_with c CapacityError) (\<lambda>_. P) (\<lambda>_. P)" if "\<And>s. P s \<Longrightarrow> P (c s)" for c
    by (rule hoare_conseq [OF hoare_publish_with [where P = P and Q = P and change = c]]) (use o that in auto)
  show ?thesis
    unfolding preserve_backup_def
    by (rule hoare_bind [where R = "\<lambda>_. P"], rule hoare_gets, assumption,
        rule hoare_option, rule pub, simp add: b, rule hoare_bind [where R = "\<lambda>_. P"],
        rule hoare_guard, assumption+, rule pub)
qed

lemma hoare_cap_accept:
  "hoare (\<lambda>s. seen env v r s \<and> cap_files s (cap_path env key) = Present d) (cap_accept env key fm d)
     (\<lambda>d' s. seen env v r s \<and> loaded env key d' s) (\<lambda>_. seen env v r)"
proof (cases "cap_key d = key")
  case True
  let ?R = "\<lambda>s. seen env v r s \<and> cap_files s (cap_path env key) = Present d"
  have pb: "hoare ?R (preserve_backup env key d) (\<lambda>_. ?R) (\<lambda>_. seen env v r)"
    by (rule hoare_conseq [OF hoare_preserve_backup [where P = ?R]]) auto
  from True show ?thesis
    unfolding cap_accept_def
    by (intro hoare_bind [where R = "\<lambda>_. ?R"] hoare_if hoare_guard hoare_ret pb)
      (auto simp: loaded_def slot_view_def)
next
  case False
  then show ?thesis
    by (auto simp: cap_accept_def hoare_def bindE_def guardE_def)
qed

lemma hoare_cap_load:
  "hoare (seen env v r) (cap_load env key fm) (\<lambda>d s. seen env v r s \<and> loaded env key d s) (\<lambda>_. seen env v r)"
  unfolding cap_load_def
proof (rule hoare_bind [where R = "\<lambda>f s. seen env v r s \<and> cap_files s (cap_path env key) = f"])
  fix f
  show "hoare (\<lambda>s. seen env v r s \<and> cap_files s (cap_path env key) = f)
      (case f of Absent \<Rightarrow> ret \<lparr>cap_version = 2, cap_key = key, cap_slots = []\<rparr>
        | Unreadable \<Rightarrow> raise CapacityError | Present d \<Rightarrow> cap_accept env key fm d)
      (\<lambda>d s. seen env v r s \<and> loaded env key d s) (\<lambda>_. seen env v r)"
  proof (cases f)
    case (Present d)
    then show ?thesis using hoare_cap_accept by simp
  qed (auto intro!: hoare_ret hoare_raise simp: loaded_def slot_view_def)
qed (auto intro: hoare_gets)

lemma hoare_write_cap:
  assumes "cap_key d' = key"
  shows "hoare (\<lambda>s. seen env v r s \<and> loaded env key d s) (write_cap env key d' e)
    (\<lambda>_. seen env (v(key := dict_get (cap_slots d'))) r)
    (\<lambda>e' s. e' = e \<and> (seen env v r s \<or> seen env (v(key := dict_get (cap_slots d'))) r s))"
  unfolding write_cap_def
proof (rule hoare_conseq [OF hoare_publish_with [where P = "\<lambda>s. seen env v r s \<and> loaded env key d s"
        and Q = "seen env (v(key := dict_get (cap_slots d'))) r"
        and change = "\<lambda>s. s\<lparr>cap_files := (cap_files s)(cap_path env key := Present d')\<rparr>"]])
  fix s assume *: "seen env v r s \<and> loaded env key d s"
  then have v: "v = slot_view env s" by (simp add: seen_def)
  have "slot_view env (s\<lparr>cap_files := (cap_files s)(cap_path env key := Present d')\<rparr>) k
      = (v(key := dict_get (cap_slots d'))) k" for k
    using * assms by (auto simp: v loaded_def slot_view_def)
  with * show "seen env (v(key := dict_get (cap_slots d'))) r
      (s\<lparr>cap_files := (cap_files s)(cap_path env key := Present d')\<rparr>)"
    by (simp add: seen_def rest_def fun_eq_iff)
qed auto

text \<open>The two forms the operations use: one slot set, one slot dropped.\<close>

lemma put_slot_view:
  "cap_key (put_slot h sl d) = cap_key d"
  "dict_get (cap_slots d) = v key \<Longrightarrow> v(key := dict_get (cap_slots (put_slot h sl d))) = upd_slot v key h (Some sl)"
  by (auto simp: put_slot_def upd_slot_def dict_simps fun_eq_iff)

lemma drop_slot_view:
  "cap_key (drop_slot h d) = cap_key d"
  "dict_get (cap_slots d) = v key \<Longrightarrow> v(key := dict_get (cap_slots (drop_slot h d))) = upd_slot v key h None"
  by (auto simp: drop_slot_def upd_slot_def dict_simps fun_eq_iff)

definition changed_to :: "('c cap_env_scheme) \<Rightarrow> slots \<Rightarrow> slots \<Rightarrow> 'w kept \<Rightarrow> store_error \<Rightarrow> store_error \<Rightarrow> 'w world_scheme \<Rightarrow> bool" where
  "changed_to env v v' r e e' s \<longleftrightarrow> e' = e \<and> (seen env v r s \<or> seen env v' r s)"

lemma hoare_put_slot:
  "hoare (\<lambda>s. seen env v r s \<and> loaded env key d s) (write_cap env key (put_slot h sl d) e)
     (\<lambda>_. seen env (upd_slot v key h (Some sl)) r) (changed_to env v (upd_slot v key h (Some sl)) r e)"
proof (cases "cap_key d = key \<and> dict_get (cap_slots d) = v key")
  case True
  then have "cap_key (put_slot h sl d) = key" by (simp add: put_slot_view)
  from hoare_write_cap [OF this, of env v r d e] True show ?thesis
    by (simp add: put_slot_view changed_to_def [abs_def])
qed (auto simp: hoare_def loaded_def seen_def)

lemma hoare_drop_slot:
  "hoare (\<lambda>s. seen env v r s \<and> loaded env key d s) (write_cap env key (drop_slot h d) e)
     (\<lambda>_. seen env (upd_slot v key h None) r) (changed_to env v (upd_slot v key h None) r e)"
proof (cases "cap_key d = key \<and> dict_get (cap_slots d) = v key")
  case True
  then have "cap_key (drop_slot h d) = key" by (simp add: drop_slot_view)
  from hoare_write_cap [OF this, of env v r d e] True show ?thesis
    by (simp add: drop_slot_view changed_to_def [abs_def])
qed (auto simp: hoare_def loaded_def seen_def)

lemma hoare_rewrite_cap:
  "hoare (\<lambda>s. seen env v r s \<and> loaded env key d s) (write_cap env key d e)
     (\<lambda>_. seen env v r) (changed_to env v v r e)"
proof (cases "cap_key d = key \<and> dict_get (cap_slots d) = v key")
  case True
  then have "v(key := dict_get (cap_slots d)) = v" by auto
  with hoare_write_cap [of d key env v r d e] True show ?thesis
    by (simp add: changed_to_def [abs_def])
qed (auto simp: hoare_def loaded_def seen_def)

subsection \<open>Operations as transitions of the abstract slots\<close>

text \<open>The common shape of the operations: lock, load, look the holder up.\<close>

lemma hoare_locked_load:
  assumes "\<And>d. hoare (\<lambda>s. seen env v r s \<and> loaded env key d s) (f d) Q E"
    and "\<And>e s. seen env v r s \<Longrightarrow> E e s"
  shows "hoare (seen env v r) (bindE (exclusive_lock CapacityError) (\<lambda>_. bindE (cap_load env key True) f)) Q E"
proof (rule hoare_bind [where R = "\<lambda>_. seen env v r"])
  show "hoare (seen env v r) (exclusive_lock CapacityError) (\<lambda>_. seen env v r) E"
    by (rule hoare_conseq [OF hoare_lock [where P = "seen env v r"]]) (use assms(2) in auto)
  have "hoare (seen env v r) (cap_load env key True) (\<lambda>d s. seen env v r s \<and> loaded env key d s) E"
    by (rule hoare_conseq [OF hoare_cap_load]) (use assms(2) in auto)
  then show "hoare (seen env v r) (bindE (cap_load env key True) f) Q E"
    by (rule hoare_bind) (rule assms(1))
qed

lemma hoare_slot_case:
  assumes "v key h = None \<Longrightarrow> hoare (\<lambda>s. seen env v r s \<and> loaded env key d s) m Q E"
    and "\<And>sl. v key h = Some sl \<Longrightarrow> hoare (\<lambda>s. seen env v r s \<and> loaded env key d s) (f sl) Q E"
  shows "hoare (\<lambda>s. seen env v r s \<and> loaded env key d s)
    (case dict_get (cap_slots d) h of None \<Rightarrow> m | Some sl \<Rightarrow> f sl) Q E"
proof (cases "dict_get (cap_slots d) h = v key h")
  case True
  then show ?thesis using assms by (cases "v key h") simp_all
next
  case False
  then show ?thesis by (auto simp: hoare_def dest: loaded_view)
qed

text \<open>
  The contract of every operation on slots: \<open>R\<close> is the transition it makes on the abstract slots.
  A normal return has made it; an error has made nothing, except that a storage error
  (\<open>CapacityError\<close>) may have made the whole transition visible. Nothing of the queue's own state
  changes.
\<close>

definition slot_spec :: "('c cap_env_scheme) \<Rightarrow> ('w, 'a) store_prog \<Rightarrow> ('w kept \<Rightarrow> slots \<Rightarrow> slots \<Rightarrow> bool) \<Rightarrow> bool" where
  "slot_spec env p R \<longleftrightarrow> (\<forall>v r. hoare (seen env v r) p
     (\<lambda>_ s. \<exists>v'. R r v v' \<and> seen env v' r s)
     (\<lambda>e s. seen env v r s \<or> e = CapacityError \<and> (\<exists>v'. R r v v' \<and> seen env v' r s)))"

definition pending_slot :: "ticket \<Rightarrow> rat \<Rightarrow> slot" where
  "pending_slot t now = \<lparr> slot_owner = tk_owner t, reserved_at = now,
     slot_queue = Some (ticket_marker t Pending), slot_loan = None \<rparr>"

abbreviation tk_slot :: "slots \<Rightarrow> ticket \<Rightarrow> slot option" where
  "tk_slot v t \<equiv> v (tk_key t) (tk_holder t)"

abbreviation set_tk_slot :: "slots \<Rightarrow> ticket \<Rightarrow> slot option \<Rightarrow> slots" where
  "set_tk_slot v t x \<equiv> upd_slot v (tk_key t) (tk_holder t) x"

definition room :: "int option \<Rightarrow> slots \<Rightarrow> string \<Rightarrow> bool" where
  "room limit v key = (case limit of None \<Rightarrow> True | Some c \<Rightarrow> int (card (dom (v key))) < c)"

definition reserve_rel :: "ticket \<Rightarrow> int option \<Rightarrow> slots \<Rightarrow> slots \<Rightarrow> bool" where
  "reserve_rel t limit v v' \<longleftrightarrow>
     (\<exists>sl. tk_slot v t = Some sl \<and> same_slot sl t \<and> v' = v)
     \<or> tk_slot v t = None \<and> room limit v (tk_key t) \<and> (\<exists>now. v' = set_tk_slot v t (Some (pending_slot t now)))"

definition transition_rel :: "ticket \<Rightarrow> phase \<Rightarrow> slots \<Rightarrow> slots \<Rightarrow> bool" where
  "transition_rel t p v v' \<longleftrightarrow>
     (\<exists>sl. tk_slot v t = Some sl \<and> same_slot sl t \<and>
        (slot_phase sl = p \<and> v' = v
         \<or> (slot_phase sl, p) \<in> {(Pending, Selected), (Selected, Activated)}
           \<and> v' = set_tk_slot v t (Some (set_phase p sl))))"

definition fence_phase :: "slot \<Rightarrow> phase" where
  "fence_phase sl = (if is_activated_phase (slot_phase sl) then Releasing_activated else Releasing_selected)"

definition fence_rel :: "ticket \<Rightarrow> bool \<Rightarrow> slots \<Rightarrow> slots \<Rightarrow> bool" where
  "fence_rel t pre v v' \<longleftrightarrow>
     tk_slot v t = None \<and> v' = v
     \<or> (\<exists>sl. tk_slot v t = Some sl \<and> same_slot sl t \<and> \<not> (pre \<and> is_activated_phase (slot_phase sl))
          \<and> v' = set_tk_slot v t (Some (set_phase (fence_phase sl) sl)))"

definition release_rel :: "ticket \<Rightarrow> slots \<Rightarrow> slots \<Rightarrow> bool" where
  "release_rel t v v' \<longleftrightarrow>
     tk_slot v t = None \<and> v' = v
     \<or> (\<exists>sl. tk_slot v t = Some sl \<and> same_slot sl t
          \<and> (slot_phase sl = Releasing_selected \<or> slot_phase sl = Releasing_activated)
          \<and> v' = set_tk_slot v t None)"

lemma slot_specI:
  assumes "\<And>v r. hoare (seen env v r) p (\<lambda>_ s. \<exists>v'. R r v v' \<and> seen env v' r s)
     (\<lambda>e s. seen env v r s \<or> e = CapacityError \<and> (\<exists>v'. R r v v' \<and> seen env v' r s))"
  shows "slot_spec env p R"
  using assms by (simp add: slot_spec_def)

text \<open>A single write inside a locked operation meets the contract when its transition is allowed.\<close>

lemma put_slot_meets:
  assumes "R v (upd_slot v key h (Some sl))"
  shows "hoare (\<lambda>s. seen env v r s \<and> loaded env key d s) (write_cap env key (put_slot h sl d) CapacityError)
    (\<lambda>_ s. \<exists>v'. R v v' \<and> seen env v' r s)
    (\<lambda>e s. seen env v r s \<or> e = CapacityError \<and> (\<exists>v'. R v v' \<and> seen env v' r s))"
  by (rule hoare_conseq [OF hoare_put_slot]) (use assms in \<open>auto simp: changed_to_def\<close>)

lemma drop_slot_meets:
  assumes "R v (upd_slot v key h None)"
  shows "hoare (\<lambda>s. seen env v r s \<and> loaded env key d s) (write_cap env key (drop_slot h d) CapacityError)
    (\<lambda>_ s. \<exists>v'. R v v' \<and> seen env v' r s)
    (\<lambda>e s. seen env v r s \<or> e = CapacityError \<and> (\<exists>v'. R v v' \<and> seen env v' r s))"
  by (rule hoare_conseq [OF hoare_drop_slot]) (use assms in \<open>auto simp: changed_to_def\<close>)

lemma rewrite_meets:
  assumes "R v v"
  shows "hoare (\<lambda>s. seen env v r s \<and> loaded env key d s) (write_cap env key d CapacityError)
    (\<lambda>_ s. \<exists>v'. R v v' \<and> seen env v' r s)
    (\<lambda>e s. seen env v r s \<or> e = CapacityError \<and> (\<exists>v'. R v v' \<and> seen env v' r s))"
  by (rule hoare_conseq [OF hoare_rewrite_cap]) (use assms in \<open>auto simp: changed_to_def\<close>)

text \<open>Guards and steps that touch nothing keep the view that was read.\<close>

lemma hoare_guard_bind:
  assumes "b \<Longrightarrow> hoare P m Q E" and "\<And>s. P s \<Longrightarrow> \<not> b \<Longrightarrow> E e s"
  shows "hoare P (bindE (guardE b e) (\<lambda>_. m)) Q E"
  using assms by (cases b) (auto simp: guardE_def hoare_def)

lemma card_view_le: "loaded env key d s \<Longrightarrow> seen env v r s \<Longrightarrow> card (dom (v key)) \<le> length (cap_slots d)"
proof -
  assume "loaded env key d s" "seen env v r s"
  then have "dom (v key) = fst ` set (cap_slots d)"
    by (auto simp: loaded_def seen_def dom_map_of_conv_image_fst [symmetric])
  then show ?thesis by (metis card_length image_set length_map)
qed

lemma hoare_room:
  assumes "room limit v key \<Longrightarrow> hoare (\<lambda>s. seen env v r s \<and> loaded env key d s) m Q E"
    and "\<And>s. seen env v r s \<Longrightarrow> E CapacityUnavailable s"
  shows "hoare (\<lambda>s. seen env v r s \<and> loaded env key d s)
    (bindE (guardE (\<not> at_ceiling limit d) CapacityUnavailable) (\<lambda>_. m)) Q E"
proof (cases "int (card (dom (v key))) \<le> int (length (cap_slots d))")
  case True
  then have "\<not> at_ceiling limit d \<Longrightarrow> room limit v key"
    by (auto simp: at_ceiling_def room_def split: option.splits)
  with assms show ?thesis by (intro hoare_guard_bind) auto
qed (auto simp: hoare_def dest: card_view_le)

lemma slots_reserve_spec: "slot_spec env (slots_reserve env t limit) (\<lambda>_. reserve_rel t limit)"
proof (rule slot_specI)
  fix v r
  let ?Q = "\<lambda>_ s. \<exists>v'. reserve_rel t limit v v' \<and> seen env v' r s"
  let ?E = "\<lambda>e s. seen env v r s \<or> e = CapacityError \<and> (\<exists>v'. reserve_rel t limit v v' \<and> seen env v' r s)"
  have put: "hoare (\<lambda>s. seen env v r s \<and> loaded env (tk_key t) d s)
      (write_cap env (tk_key t) (put_slot (tk_holder t) (pending_slot t now) d) CapacityError) ?Q ?E"
    if "tk_slot v t = None" "room limit v (tk_key t)" for d now
    by (rule put_slot_meets) (use that in \<open>auto simp: reserve_rel_def\<close>)
  show "hoare (seen env v r) (slots_reserve env t limit) ?Q ?E"
    unfolding slots_reserve_def pending_slot_def [symmetric]
    by (intro hoare_room hoare_guard_bind hoare_locked_load hoare_slot_case hoare_guard
        hoare_bind [OF hoare_read_clock] put) (auto simp: reserve_rel_def)
qed

lemma slots_transition_spec: "slot_spec env (slots_transition env t p) (\<lambda>_. transition_rel t p)"
  unfolding slots_transition_def
  by (intro slot_specI hoare_guard_bind hoare_locked_load hoare_slot_case hoare_raise hoare_if
      rewrite_meets put_slot_meets) (auto simp: transition_rel_def)

lemma slots_release_spec: "slot_spec env (slots_release env t) (\<lambda>_. release_rel t)"
  unfolding slots_release_def
  by (intro slot_specI hoare_locked_load hoare_slot_case hoare_guard_bind hoare_ret drop_slot_meets)
    (auto simp: release_rel_def)

lemma slots_fence_release_spec: "slot_spec env (slots_fence_release env t pre) (\<lambda>_. fence_rel t pre)"
proof -
  have loan: "hoare (\<lambda>s. seen env v r s \<and> loaded env key d s)
      (if slot_loan sl = None then ret ()
       else bindE (gets (\<lambda>s. borrower_closed env s sl t)) (\<lambda>x. bindE (liftE x) (\<lambda>ok. guardE ok CapacityUnavailable)))
      (\<lambda>_ s. seen env v r s \<and> loaded env key d s)
      (\<lambda>e s. seen env v r s \<or> X e s)" for v r key d sl and X :: "store_error \<Rightarrow> 'w world_scheme \<Rightarrow> bool"
    by (intro hoare_if hoare_ret
        hoare_bind [where R = "\<lambda>_ s. seen env v r s \<and> loaded env key d s"]
        hoare_gets hoare_liftE hoare_guard) auto
  show ?thesis
    unfolding slots_fence_release_def fence_phase_def [symmetric]
    by (intro slot_specI hoare_locked_load hoare_slot_case hoare_guard_bind hoare_bind [OF loan] hoare_ret
        put_slot_meets) (auto simp: fence_rel_def)
qed

text \<open>The process holds the committed ticket of the slot and can prove that it is its live owner.\<close>

definition holds_ticket :: "('c cap_env_scheme) \<Rightarrow> 'w kept \<Rightarrow> slot \<Rightarrow> ticket \<Rightarrow> bool" where
  "holds_ticket env r sl t \<longleftrightarrow> fst r (adoption_key env t) = Some t \<and> slot_owner sl = tk_owner t
     \<and> (slot_queue sl = Some (ticket_marker t Selected) \<or> slot_queue sl = Some (ticket_marker t Activated))
     \<and> can_activate env t"

definition cap_reserve_rel :: "('c cap_env_scheme) \<Rightarrow> string \<Rightarrow> string \<Rightarrow> int \<Rightarrow> 'w kept \<Rightarrow> slots \<Rightarrow> slots \<Rightarrow> bool" where
  "cap_reserve_rel env key h limit r v v' \<longleftrightarrow>
     (\<exists>sl. v key h = Some sl \<and> slot_loan sl = None \<and> slot_queue sl = None \<and> v' = v)
     \<or> (\<exists>sl t. v key h = Some sl \<and> slot_loan sl = None \<and> holds_ticket env r sl t
          \<and> v' = upd_slot v key h (Some (set_phase Activated sl)))
     \<or> (v key h = None \<and> room (Some limit) v key
          \<and> (\<exists>sl. slot_queue sl = None \<and> slot_loan sl = None \<and> v' = upd_slot v key h (Some sl)))"

definition cap_release_rel :: "string \<Rightarrow> string \<Rightarrow> slots \<Rightarrow> slots \<Rightarrow> bool" where
  "cap_release_rel key h v v' \<longleftrightarrow>
     v' = v \<or> (\<exists>sl. v key h = Some sl \<and> slot_queue sl = None \<and> v' = upd_slot v key h None)"

lemma hoare_cap_issue: "hoare (seen env v r) (cap_issue key h ow) (\<lambda>_. seen env v r) E"
  unfolding cap_issue_def Let_def
  by (intro hoare_bind [OF hoare_fresh_id] hoare_bind [OF hoare_modify] hoare_ret) auto

lemma hoare_issue_bind:
  assumes "hoare P m (\<lambda>_ s. \<exists>v'. R v v' \<and> seen env v' r s) E"
  shows "hoare P (bindE m (\<lambda>_. cap_issue key h ow)) (\<lambda>_ s. \<exists>v'. R v v' \<and> seen env v' r s) E"
proof (rule hoare_bind [OF assms])
  show "hoare (\<lambda>s. \<exists>v'. R v v' \<and> seen env v' r s) (cap_issue key h ow)
      (\<lambda>_ s. \<exists>v'. R v v' \<and> seen env v' r s) E"
  proof (rule hoareI)
    fix s x t assume "\<exists>v'. R v v' \<and> seen env v' r s" and st: "cap_issue key h ow s = (Inr x, t)"
    then obtain v' where v': "R v v'" "seen env v' r s" by blast
    from hoareD [OF hoare_cap_issue v'(2) st] v'(1) show "\<exists>v'. R v v' \<and> seen env v' r t" by blast
  qed (auto simp: cap_issue_def bindE_def fresh_id_def Let_def)
qed

lemma seen_adopted: "seen env v r s \<Longrightarrow> is_adopted env s t \<longleftrightarrow> fst r (adoption_key env t) = Some t"
  by (auto simp: seen_def rest_def is_adopted_def)

lemma launch_authority_holds:
  "launch_authority env s ad ow sl m \<Longrightarrow> seen env v r s \<Longrightarrow> slot_queue sl = Some m
   \<Longrightarrow> \<exists>t. ad = Some t \<and> holds_ticket env r sl t"
  by (auto simp: launch_authority_def holds_ticket_def seen_adopted split: option.splits)

lemma cap_reserve_existing_meets:
  assumes sl: "v key h = Some sl"
  shows "hoare (\<lambda>s. seen env v r s \<and> loaded env key d s) (cap_reserve_existing env key h ad ow d sl)
    (\<lambda>_ s. \<exists>v'. cap_reserve_rel env key h limit r v v' \<and> seen env v' r s)
    (\<lambda>e s. seen env v r s \<or> e = CapacityError \<and> (\<exists>v'. cap_reserve_rel env key h limit r v v' \<and> seen env v' r s))"
    (is "hoare ?P _ (\<lambda>_. ?G) ?E")
proof -
  define AD where "AD \<longleftrightarrow> (\<exists>t. ad = Some t \<and> holds_ticket env r sl t)"
  have still: "hoare ?G (bindE (gets (\<lambda>s. \<exists>t. ad = Some t \<and> is_adopted env s t)) (\<lambda>ok.
      bindE (guardE ok CapacityUnavailable) (\<lambda>_. cap_issue key h ow))) (\<lambda>_. ?G) ?E" if AD
  proof (rule hoare_bind [where R = "\<lambda>ok s. ok \<and> ?G s"])
    show "hoare ?G (gets (\<lambda>s. \<exists>t. ad = Some t \<and> is_adopted env s t)) (\<lambda>ok s. ok \<and> ?G s) ?E"
      by (rule hoare_gets) (use that seen_adopted in \<open>fastforce simp: AD_def holds_ticket_def\<close>)
  next
    fix ok
    show "hoare (\<lambda>s. ok \<and> ?G s) (bindE (guardE ok CapacityUnavailable) (\<lambda>_. cap_issue key h ow)) (\<lambda>_. ?G) ?E"
      by (rule hoare_issue_bind) (rule hoare_guard; auto)
  qed
  have queue: "hoare ?P (bindE (gets (\<lambda>s. launch_authority env s ad ow sl m)) (\<lambda>ok.
      bindE (guardE ok CapacityUnavailable) (\<lambda>_.
      bindE (write_cap env key (put_slot h (set_phase Activated sl) d) CapacityError) (\<lambda>_.
      bindE (gets (\<lambda>s. \<exists>t. ad = Some t \<and> is_adopted env s t)) (\<lambda>still.
      bindE (guardE still CapacityUnavailable) (\<lambda>_. cap_issue key h ow)))))) (\<lambda>_. ?G) ?E"
    if m: "slot_queue sl = Some m" and nl: "slot_loan sl = None" for m
  proof (rule hoare_bind [where R = "\<lambda>ok s. (ok \<longrightarrow> AD) \<and> ?P s"])
    show "hoare ?P (gets (\<lambda>s. launch_authority env s ad ow sl m)) (\<lambda>ok s. (ok \<longrightarrow> AD) \<and> ?P s) ?E"
      unfolding AD_def by (rule hoare_gets) (use m in \<open>blast dest: launch_authority_holds\<close>)
  next
    fix ok
    show "hoare (\<lambda>s. (ok \<longrightarrow> AD) \<and> ?P s) (bindE (guardE ok CapacityUnavailable) (\<lambda>_.
        bindE (write_cap env key (put_slot h (set_phase Activated sl) d) CapacityError) (\<lambda>_.
        bindE (gets (\<lambda>s. \<exists>t. ad = Some t \<and> is_adopted env s t)) (\<lambda>still.
        bindE (guardE still CapacityUnavailable) (\<lambda>_. cap_issue key h ow))))) (\<lambda>_. ?G) ?E"
    proof (cases "ok \<and> AD")
      case True
      then have "cap_reserve_rel env key h limit r v (upd_slot v key h (Some (set_phase Activated sl)))"
        using sl nl by (auto simp: cap_reserve_rel_def AD_def)
      from hoare_bind [OF put_slot_meets [where R = "cap_reserve_rel env key h limit r", OF this] still] True
      show ?thesis by (simp add: guardE_def)
    qed (auto simp: hoare_def guardE_def)
  qed
  show ?thesis
    unfolding cap_reserve_existing_def
    by (intro hoare_guard_bind hoare_option hoare_if hoare_raise queue hoare_issue_bind hoare_guard)
      (use sl in \<open>auto simp: cap_reserve_rel_def\<close>)
qed

lemma cap_reserve_rel_new:
  "v key h = None \<Longrightarrow> room (Some limit) v key \<Longrightarrow> slot_queue sl = None \<Longrightarrow> slot_loan sl = None
   \<Longrightarrow> cap_reserve_rel env key h limit r v (upd_slot v key h (Some sl))"
  by (auto simp: cap_reserve_rel_def)

lemma cap_reserve_spec: "slot_spec env (cap_reserve env key h limit given qt) (cap_reserve_rel env key h limit)"
proof (rule slot_specI)
  fix v r
  let ?G = "\<lambda>s. \<exists>v'. cap_reserve_rel env key h limit r v v' \<and> seen env v' r s"
  let ?E = "\<lambda>e s. seen env v r s \<or> e = CapacityError \<and> ?G s"
  have new: "hoare (\<lambda>s. seen env v r s \<and> loaded env key d s)
     (bindE (guardE (ad = None) CapacityUnavailable) (\<lambda>_.
      bindE (guardE (\<not> at_ceiling (Some limit) d) CapacityUnavailable) (\<lambda>_.
      bindE (read_clock env) (\<lambda>now.
      bindE (write_cap env key (put_slot h \<lparr> slot_owner = ow, reserved_at = now, slot_queue = None, slot_loan = None \<rparr> d)
         CapacityError) (\<lambda>_. cap_issue key h ow))))) (\<lambda>_. ?G) ?E"
    if "v key h = None" for d ad ow
    by (intro hoare_room hoare_guard_bind hoare_bind [OF hoare_read_clock] hoare_issue_bind put_slot_meets
        cap_reserve_rel_new) (use that in auto)
  show "hoare (seen env v r) (cap_reserve env key h limit given qt) (\<lambda>_. ?G) ?E"
    unfolding cap_reserve_def
    by (intro hoare_guard_bind hoare_gets_bind
        hoare_bind [where R = "\<lambda>_. seen env v r", OF hoare_option] hoare_ret hoare_option hoare_me
        hoare_locked_load hoare_slot_case cap_reserve_existing_meets new) auto
qed

lemma cap_release_spec: "slot_spec env (cap_release env r) (\<lambda>_. cap_release_rel (res_key r) (res_holder r))"
proof (rule slot_specI)
  fix v q
  let ?Q = "\<lambda>_ s. \<exists>v'. cap_release_rel (res_key r) (res_holder r) v v' \<and> seen env v' q s"
  let ?E = "\<lambda>e s. seen env v q s \<or> e = CapacityError \<and> (\<exists>v'. cap_release_rel (res_key r) (res_holder r) v v' \<and> seen env v' q s)"
  have permit: "hoare (\<lambda>s. seen env v q s \<and> loaded env (res_key r) d s)
      (if slot_loan sl = None then ret True else bindE (gets (\<lambda>s. loan_permits_release env s r sl)) liftE)
      (\<lambda>_ s. seen env v q s \<and> loaded env (res_key r) d s) ?E" for d sl
    by (intro hoare_if hoare_ret hoare_bind [where R = "\<lambda>_ s. seen env v q s \<and> loaded env (res_key r) d s"]
        hoare_gets hoare_liftE) auto
  show "hoare (seen env v q) (cap_release env r) ?Q ?E"
    unfolding cap_release_def
    by (intro hoare_locked_load hoare_slot_case hoare_if hoare_ret hoare_bind [OF permit] drop_slot_meets)
      (auto simp: cap_release_rel_def)
qed

subsection \<open>What every operation on slots guarantees\<close>

locale slot_operation =
  fixes env :: "'c cap_env_scheme" and run :: "('w, 'a) store_prog" and R :: "'w kept \<Rightarrow> slots \<Rightarrow> slots \<Rightarrow> bool"
  assumes meets: "slot_spec env run R"
begin

lemma triple:
  "hoare (seen env v r) run (\<lambda>_ s. \<exists>v'. R r v v' \<and> seen env v' r s)
     (\<lambda>e s. seen env v r s \<or> e = CapacityError \<and> (\<exists>v'. R r v v' \<and> seen env v' r s))"
  using meets unfolding slot_spec_def by blast

lemma returned: "run s = (Inr x, t) \<Longrightarrow> R (rest s) (slot_view env s) (slot_view env t)"
  using hoareD [OF triple, of _ _ s x t] by (auto simp: seen_def)

lemma raised: "run s = (Inl e, t) \<Longrightarrow>
    slot_view env t = slot_view env s \<or> e = CapacityError \<and> R (rest s) (slot_view env s) (slot_view env t)"
  using hoareD_error [OF triple, of _ _ s e t] by (auto simp: seen_def)

lemma rest_same: "rest (snd (run s)) = rest s"
proof (cases "run s")
  case (Pair x t)
  then show ?thesis
    using hoareD [OF triple, of _ _ s _ t] hoareD_error [OF triple, of _ _ s _ t]
    by (cases x) (auto simp: seen_def)
qed

lemma final:
  "slot_view env (snd (run s)) = slot_view env s \<or> R (rest s) (slot_view env s) (slot_view env (snd (run s)))"
proof (cases "run s")
  case (Pair x t)
  then show ?thesis using returned [of s _ t] raised [of s _ t] by (cases x) auto
qed

lemma refused: "run s = (Inl e, t) \<Longrightarrow> e \<noteq> CapacityError \<Longrightarrow> slot_view env t = slot_view env s"
  using raised by blast

lemma keeps_view:
  assumes "\<And>r v v'. I v \<Longrightarrow> R r v v' \<Longrightarrow> I v'"
  shows "keeps (\<lambda>s. I (slot_view env s)) run"
  unfolding keeps_iff using final assms by metis

end

locale one_slot_operation = slot_operation +
  fixes key h :: string
  assumes only: "R r v v' \<Longrightarrow> (k, j) \<noteq> (key, h) \<Longrightarrow> v' k j = v k j"
begin

lemma others: "(k, j) \<noteq> (key, h) \<Longrightarrow> slot_view env (snd (run s)) k j = slot_view env s k j"
  using final only by metis

end

lemmas slot_rels = reserve_rel_def transition_rel_def fence_rel_def release_rel_def
  cap_reserve_rel_def cap_release_rel_def

interpretation reserving: one_slot_operation env "slots_reserve env t limit" "\<lambda>_. reserve_rel t limit"
    "tk_key t" "tk_holder t" for env t limit
  by unfold_locales (auto simp: slots_reserve_spec slot_rels upd_slot_apply)

interpretation moving: one_slot_operation env "slots_transition env t p" "\<lambda>_. transition_rel t p"
    "tk_key t" "tk_holder t" for env t p
  by unfold_locales (auto simp: slots_transition_spec slot_rels upd_slot_apply)

interpretation fencing: one_slot_operation env "slots_fence_release env t pre" "\<lambda>_. fence_rel t pre"
    "tk_key t" "tk_holder t" for env t pre
  by unfold_locales (auto simp: slots_fence_release_spec slot_rels upd_slot_apply)

interpretation returning: one_slot_operation env "slots_release env t" "\<lambda>_. release_rel t"
    "tk_key t" "tk_holder t" for env t
  by unfold_locales (auto simp: slots_release_spec slot_rels upd_slot_apply)

interpretation admitting: one_slot_operation env "cap_reserve env key h limit given qt"
    "cap_reserve_rel env key h limit" key h for env key h limit given qt
  by unfold_locales (auto simp: cap_reserve_spec slot_rels upd_slot_apply)

interpretation dropping: one_slot_operation env "cap_release env r"
    "\<lambda>_. cap_release_rel (res_key r) (res_holder r)" "res_key r" "res_holder r" for env r
  by unfold_locales (auto simp: cap_release_spec slot_rels upd_slot_apply)

subsection \<open>Interleavings of processes on one capacity directory\<close>

text \<open>
  One step is one operation of some process, run to its end under the directory lock, with any
  storage outcomes; \<open>other_process\<close> hands over to a process with other memory and the same files.
  \<open>n\<close> is the configured ceiling of the key.
\<close>

inductive cap_step :: "('c cap_env_scheme) \<Rightarrow> string \<Rightarrow> int \<Rightarrow> 'w world_scheme \<Rightarrow> 'w world_scheme \<Rightarrow> bool"
  for env key n where
  queue_reserve: "(tk_key t = key \<Longrightarrow> limit = Some n) \<Longrightarrow> sha256 (env' :: 'c cap_env_scheme) = sha256 env
    \<Longrightarrow> cap_step env key n s (snd (slots_reserve env' t limit s))"
| queue_transition: "sha256 (env' :: 'c cap_env_scheme) = sha256 env \<Longrightarrow> cap_step env key n s (snd (slots_transition env' t p s))"
| queue_fence: "sha256 (env' :: 'c cap_env_scheme) = sha256 env \<Longrightarrow> cap_step env key n s (snd (slots_fence_release env' t pre s))"
| queue_release: "sha256 (env' :: 'c cap_env_scheme) = sha256 env \<Longrightarrow> cap_step env key n s (snd (slots_release env' t s))"
| reserve: "(k = key \<Longrightarrow> limit = n) \<Longrightarrow> sha256 (env' :: 'c cap_env_scheme) = sha256 env
    \<Longrightarrow> cap_step env key n s (snd (cap_reserve env' k h limit given qt s))"
| release: "sha256 (env' :: 'c cap_env_scheme) = sha256 env \<Longrightarrow> cap_step env key n s (snd (cap_release env' r s))"
| other_process: "cap_files t = cap_files s \<Longrightarrow> cap_step env key n s t"

inductive cap_reach :: "('c cap_env_scheme) \<Rightarrow> string \<Rightarrow> int \<Rightarrow> 'w world_scheme \<Rightarrow> bool" for env key n where
  fresh: "(\<And>p. cap_files s p = Absent) \<Longrightarrow> cap_reach env key n s"
| step: "cap_reach env key n s \<Longrightarrow> cap_step env key n s t \<Longrightarrow> cap_reach env key n t"

fun phase_next :: "phase \<Rightarrow> phase \<Rightarrow> bool" where
  "phase_next Pending p = (p = Pending \<or> p = Selected \<or> p = Releasing_selected)"
| "phase_next Selected p = (p = Selected \<or> p = Activated \<or> p = Releasing_selected)"
| "phase_next Activated p = (p = Activated \<or> p = Releasing_activated)"
| "phase_next Releasing_selected p = (p = Releasing_selected)"
| "phase_next Releasing_activated p = (p = Releasing_activated)"

lemma slot_view_sha: "sha256 env' = sha256 env \<Longrightarrow> slot_view env' = slot_view env"
  by (simp add: slot_view_def cap_path_def fun_eq_iff)

text \<open>A property of the abstract slots that every transition keeps is kept by every step.\<close>

lemma cap_step_view:
  assumes "cap_step env key n s t"
    and "\<And>v v' t limit. (tk_key t = key \<longrightarrow> limit = Some n) \<Longrightarrow> reserve_rel t limit v v' \<Longrightarrow> P v v'"
    and "\<And>v v' t p. transition_rel t p v v' \<Longrightarrow> P v v'"
    and "\<And>v v' t pre. fence_rel t pre v v' \<Longrightarrow> P v v'"
    and "\<And>v v' t. release_rel t v v' \<Longrightarrow> P v v'"
    and "\<And>v v' env' k h limit r. (k = key \<longrightarrow> limit = n) \<Longrightarrow>
           cap_reserve_rel (env' :: 'c cap_env_scheme) k h limit (r :: 'w kept) v v' \<Longrightarrow> P v v'"
    and "\<And>v v' k h. cap_release_rel k h v v' \<Longrightarrow> P v v'" and "\<And>v. P v v"
  shows "P (slot_view (env :: 'c cap_env_scheme) s) (slot_view env (t :: 'w world_scheme))"
  using assms(1)
proof cases
  case (queue_reserve t limit env')
  then show ?thesis using assms(2,8) reserving.final [of env' t limit s] by (metis slot_view_sha)
next
  case (queue_transition env' t p)
  then show ?thesis using assms(3,8) moving.final [of env' t p s] by (metis slot_view_sha)
next
  case (queue_fence env' t pre)
  then show ?thesis using assms(4,8) fencing.final [of env' t pre s] by (metis slot_view_sha)
next
  case (queue_release env' t)
  then show ?thesis using assms(5,8) returning.final [of env' t s] by (metis slot_view_sha)
next
  case (reserve k limit env' h given qt)
  then show ?thesis using assms(6,8) admitting.final [of env' k h limit given qt s] by (metis slot_view_sha)
next
  case (release env' r)
  then show ?thesis using assms(7,8) dropping.final [of env' r s] by (metis slot_view_sha)
next
  case other_process
  then have "slot_view env t = slot_view env s" by (simp add: slot_view_def fun_eq_iff)
  then show ?thesis using assms(8) by simp
qed

lemma finite_slot_view: "finite (dom (slot_view env s key))"
  by (auto simp: slot_view_def finite_dom_map_of split: stored.splits)

lemma dom_upd_slot: "dom (upd_slot v k h x key) =
    (if k = key then (if x = None then dom (v key) - {h} else insert h (dom (v key))) else dom (v key))"
  by (auto simp: upd_slot_def)

lemma set_phase_same [simp]: "slot_queue sl = Some m \<Longrightarrow> set_phase (mk_phase m) sl = sl"
  by (cases sl) (simp add: set_phase_def)

lemma slot_phase_queue [simp]: "slot_queue sl = Some m \<Longrightarrow> slot_phase sl = mk_phase m"
  by (simp add: slot_phase_def)

lemma same_slot_queue: "same_slot sl t \<Longrightarrow> \<exists>m. slot_queue sl = Some m"
  by (auto simp: same_slot_def split: option.splits)

lemma card_upd_slot:
  assumes "finite (dom (v key))" and "int (card (dom (v key))) \<le> n"
    and "k = key \<Longrightarrow> x \<noteq> None \<Longrightarrow> h \<notin> dom (v key) \<Longrightarrow> int (card (dom (v key))) < n"
  shows "int (card (dom (upd_slot v k h x key))) \<le> n"
proof -
  have "card (dom (v key) - {h}) \<le> card (dom (v key))"
    using assms(1) by (intro card_mono) auto
  with assms show ?thesis
    by (cases "h \<in> dom (v key)") (auto simp: dom_upd_slot card_insert_if insert_absorb)
qed

lemma cap_step_bound:
  assumes "cap_step env key n s t" and "int (card (dom (slot_view env s key))) \<le> n"
  shows "int (card (dom (slot_view env t key))) \<le> n"
proof -
  have "finite (dom (slot_view env s key)) \<longrightarrow> int (card (dom (slot_view env s key))) \<le> n
      \<longrightarrow> int (card (dom (slot_view env t key))) \<le> n"
    by (rule cap_step_view [OF assms(1)]) (auto simp: slot_rels room_def intro: card_upd_slot)
  with assms(2) show ?thesis by (simp add: finite_slot_view)
qed

definition slot_next :: "slot \<Rightarrow> slot option \<Rightarrow> bool" where
  "slot_next sl x \<longleftrightarrow>
     x = None \<and> (slot_phase sl = Releasing_selected \<or> slot_phase sl = Releasing_activated)
     \<or> (\<exists>p. x = Some (set_phase p sl) \<and> phase_next (slot_phase sl) p)"

lemma phase_next_refl [simp]: "phase_next p p"
  by (cases p) simp_all

lemma slot_next_phase [simp]: "phase_next (slot_phase sl) p \<Longrightarrow> slot_next sl (Some (set_phase p sl))"
  by (auto simp: slot_next_def)

lemma slot_next_same [simp]: "slot_queue sl \<noteq> None \<Longrightarrow> slot_next sl (Some sl)"
proof -
  assume "slot_queue sl \<noteq> None"
  then have "set_phase (slot_phase sl) sl = sl" by auto
  with slot_next_phase [of sl "slot_phase sl"] show ?thesis by simp
qed

lemma slot_next_gone [simp]:
  "slot_phase sl = Releasing_selected \<or> slot_phase sl = Releasing_activated \<Longrightarrow> slot_next sl None"
  by (auto simp: slot_next_def)

lemma slot_next_fence [simp]: "slot_next sl (Some (set_phase (fence_phase sl) sl))"
  by (rule slot_next_phase) (cases "slot_phase sl"; simp add: fence_phase_def is_activated_phase_def)

lemma slot_next_activate [simp]: "holds_ticket env r sl t \<Longrightarrow> slot_next sl (Some (set_phase Activated sl))"
  by (rule slot_next_phase) (auto simp: holds_ticket_def ticket_marker_def)

lemma cap_step_slot_next:
  assumes "cap_step env key n s t" and "slot_view env s k h = Some sl" and "slot_queue sl = Some m"
  shows "slot_next sl (slot_view env t k h)"
proof -
  have "slot_view env s k h = Some sl \<longrightarrow> slot_next sl (slot_view env t k h)"
    by (rule cap_step_view [OF assms(1)])
      (use assms(3) in \<open>auto simp: slot_rels upd_slot_apply\<close>)
  with assms(2) show ?thesis by simp
qed

subsection \<open>A concrete process\<close>

text \<open>One worker with pid 7 that leads its group, alive and identifiable, on an empty directory.\<close>

definition demo_os :: os_probe where
  "demo_os = \<lparr> kill0 = (\<lambda>p. if p = 7 then Sig_ok else Sig_no_process),
     killpg0 = (\<lambda>p. if p = 7 then Sig_ok else Sig_no_process), is_zombie = (\<lambda>_. False),
     process_identity = (\<lambda>p. Inr (if p = 7 then Some ''proc:1'' else None)) \<rparr>"

definition demo_env :: cap_env where
  "demo_env = \<lparr> cap_root = ''cap'', os = demo_os, getpid = 7, getpgid = (\<lambda>_. 7),
     store_liveness = owner_liveness demo_os, clock = of_nat, uuid4 = show_nat, sha256 = (\<lambda>x. x) \<rparr>"

definition demo_owner :: owner where
  "demo_owner = \<lparr> pid = 7, identity = ''proc:1'', pgid = 7, epoch = ''e'' \<rparr>"

definition demo_ticket :: ticket where
  "demo_ticket = \<lparr> tk_key = ''h'', tk_holder = ''item'', tk_owner = demo_owner, tk_transaction = ''tx'',
     tk_queue_root = ''q'', tk_binding_digest = ''digest'', tk_activation_ready = True \<rparr>"

definition demo_slot :: "phase \<Rightarrow> slot" where
  "demo_slot p = \<lparr> slot_owner = demo_owner, reserved_at = 0, slot_queue = Some (ticket_marker demo_ticket p),
     slot_loan = None \<rparr>"

definition empty_world :: world where
  "empty_world = \<lparr> cap_files = (\<lambda>_. Absent), cap_backups = Map.empty, adopted = Map.empty, issued = Map.empty,
     loan_table = Map.empty, loan_objs = Map.empty, claimed_owners = Map.empty, outcomes = [], next_id = 0,
     clock_reads = 0 \<rparr>"

definition demo_world :: "phase \<Rightarrow> world" where
  "demo_world p = empty_world\<lparr>
     cap_files := (\<lambda>_. Absent)(''h.json'' := Present \<lparr> cap_version = 2, cap_key = ''h'', cap_slots = [(''item'', demo_slot p)] \<rparr>),
     adopted := Map.empty((''cap'', ''h'', ''item'') \<mapsto> demo_ticket)\<rparr>"

lemmas demo_defs = demo_os_def demo_env_def demo_owner_def demo_ticket_def demo_slot_def empty_world_def
  demo_world_def ticket_marker_def

lemma demo_view: "slot_view demo_env (demo_world p) ''h'' ''item'' = Some (demo_slot p)"
  by (simp add: demo_defs slot_view_def cap_path_def)

subsection \<open>Properties\<close>

text \<open>C18. Capacity is never exceeded: after any interleaving of queue reservations, phase changes,
  fences, releases and ordinary reservations and releases by any processes, with any storage
  failures, a key configured with ceiling \<open>n\<close> has at most \<open>n\<close> durable slots.\<close>

theorem capacity_never_exceeded:
  assumes "cap_reach env key n s" and "0 \<le> n"
  shows "int (card (dom (slot_view env s key))) \<le> n"
  using assms
proof (induction rule: cap_reach.induct)
  case (fresh s)
  then have "slot_view env s key = Map.empty" by (simp add: slot_view_def)
  with fresh show ?case by simp
next
  case (step s t)
  then show ?case by (blast intro: cap_step_bound)
qed

theorem capacity_never_exceeded_witness:
  "int (card (dom (slot_view demo_env
     (snd (slots_reserve demo_env demo_ticket (Some 1) empty_world)) ''h''))) \<le> 1"
proof -
  have "cap_reach demo_env ''h'' 1 empty_world" by (rule cap_reach.fresh) (simp add: empty_world_def)
  then have "cap_reach demo_env ''h'' 1 (snd (slots_reserve demo_env demo_ticket (Some 1) empty_world))"
    by (rule cap_reach.step) (rule cap_step.queue_reserve; simp)
  then show ?thesis by (rule capacity_never_exceeded) simp
qed

text \<open>C19. The lifecycle of a queue slot: in one step of any process it stays in place with the same
  owner and binding and its phase moves only forward (an activated slot never becomes a
  pre-activation one), or it is removed, and then only after a release fence.\<close>

theorem queue_slot_lifecycle:
  assumes "cap_step env key n s t" and "slot_view env s k h = Some sl" and "slot_queue sl = Some m"
  shows "slot_view env t k h = None \<and> (mk_phase m = Releasing_selected \<or> mk_phase m = Releasing_activated)
    \<or> (\<exists>p. slot_view env t k h = Some (set_phase p sl) \<and> phase_next (mk_phase m) p)"
  using cap_step_slot_next [OF assms] assms(3) by (simp add: slot_next_def)

theorem queue_slot_lifecycle_witness:
  "slot_view demo_env (snd (slots_release demo_env demo_ticket (demo_world Selected))) ''h'' ''item''
     = Some (demo_slot Selected)"
proof -
  have same: "slot_view demo_env (snd (slots_release demo_env demo_ticket (demo_world Selected))) ''h'' ''item'' \<noteq> None
     \<and> (\<forall>p. slot_view demo_env (snd (slots_release demo_env demo_ticket (demo_world Selected))) ''h'' ''item''
          = Some (set_phase p (demo_slot Selected)) \<longrightarrow> p = Selected)"
    by (simp add: slots_release_def bindE_def exclusive_lock_def next_outcome_def guardE_def cap_load_def
        cap_path_def cap_accept_def slot_view_def same_slot_def valid_marker_def bad_slot_def slot_phase_def
        set_phase_def demo_defs)
  have "cap_step demo_env ''h'' 1 (demo_world Selected) (snd (slots_release demo_env demo_ticket (demo_world Selected)))"
    by (rule cap_step.queue_release) simp
  from queue_slot_lifecycle [OF this demo_view] same show ?thesis
    by (fastforce simp: demo_slot_def set_phase_def ticket_marker_def)
qed

text \<open>An ordinary caller cannot return capacity that belongs to the queue: \<open>CapacityStore.release\<close>
  leaves every queue slot exactly as it was, whoever calls it and whatever the storage does.\<close>

lemma ordinary_release_keeps_queue_slots:
  assumes "slot_view env s k h = Some sl" and "slot_queue sl \<noteq> None"
  shows "slot_view env (snd (cap_release env r s)) k h = Some sl"
  using dropping.final [of env r s] assms by (auto simp: cap_release_rel_def upd_slot_apply)

text \<open>A reservation activates a queue slot only for the process that holds its committed ticket,
  is the recorded owner and can prove it is alive; anybody else leaves the slot as it was.\<close>

lemma activation_requires_ticket:
  assumes "slot_view env s key h = Some sl" and "slot_queue sl \<noteq> None"
    and "slot_view env (snd (cap_reserve env key h limit given qt s)) key h \<noteq> Some sl"
  shows "\<exists>t. adopted s (adoption_key env t) = Some t \<and> slot_owner sl = tk_owner t \<and> can_activate env t
      \<and> (slot_queue sl = Some (ticket_marker t Selected) \<or> slot_queue sl = Some (ticket_marker t Activated))
      \<and> slot_view env (snd (cap_reserve env key h limit given qt s)) key h = Some (set_phase Activated sl)"
  using admitting.final [of env key h limit given qt s] assms
  by (auto simp: cap_reserve_rel_def upd_slot_apply holds_ticket_def rest_def)

end
