(* ===== verification/Queue_Journal.thy ===== *)
theory Queue_Journal
  imports Capacity
begin

text \<open>
  The queue document and its transaction journal (\<open>garuda/runtime/queue_journal.py\<close>).

  The queue and the capacity of a runtime are different files. A claim writes its intent to the
  queue document, reserves the slot, publishes the claim, commits the slot and drops the journal
  record; a release fences the slot, publishes the removal, drops the slot and then the record.
  The functions below thread the in-memory document as a value and publish it where the source
  calls \<open>_publish\<close>; the world keeps what is durable.

  Only version 3 documents are represented. \<open>claim["reserved"]\<close> is always true and is left out.
\<close>

record claim =
  c_owner :: owner
  c_epoch :: string
  c_heartbeat :: rat
  c_claimed_at :: rat
  c_user :: string
  c_harness :: string
  c_session_id :: "string option"
  c_config_digest :: "string option"
  c_entry :: qentry
  c_transaction :: string
  c_quarantined :: bool

record scope_state =
  waiting :: "qentry list"
  claims :: "claim dict"

datatype operation = Op_claim | Op_release | Op_requeue

datatype journal_phase = Intent | Published

record pending_record =
  p_operation :: operation
  p_scope :: string
  p_entry :: qentry
  p_ticket :: ticket
  p_capacity_root :: string
  p_phase :: journal_phase

record qdoc =
  q_seq :: int
  q_scopes :: "scope_state dict"
  q_pending :: "pending_record dict"

record qworld = world +
  queue_file :: "qdoc stored"

record queue_env = cap_env +
  queue_root :: string
  q_liveness :: "owner \<Rightarrow> bool option"
  ceiling_for :: "string \<Rightarrow> store_error + int option"
  lease_ttl :: rat
  getuid :: nat
  monotonic :: "nat \<Rightarrow> rat"

type_synonym 'a qprog = "(qworld, store_error, 'a) prog"

datatype recovery = Quarantined string | Recovered string

subsection \<open>Reading and changing the document\<close>

text \<open>Documents are written with \<open>json.dumps(..., sort_keys=True)\<close>: a published document has its keys in
  order.\<close>

definition canon :: "qdoc \<Rightarrow> qdoc" where
  "canon st = st\<lparr> q_scopes := sort_key fst (map (\<lambda>(n, sc). (n, sc\<lparr>claims := sort_key fst (claims sc)\<rparr>)) (q_scopes st)),
                 q_pending := sort_key fst (q_pending st) \<rparr>"

definition publish :: "qdoc \<Rightarrow> unit qprog" where
  "publish st = publish_with (\<lambda>s. s\<lparr>queue_file := Present (canon st)\<rparr>) CorruptState"

definition scope_of :: "qdoc \<Rightarrow> string \<Rightarrow> scope_state option" where
  "scope_of st n = dict_get (q_scopes st) n"

definition waits :: "qdoc \<Rightarrow> string \<Rightarrow> qentry list" where
  "waits st n = (case scope_of st n of None \<Rightarrow> [] | Some sc \<Rightarrow> waiting sc)"

definition claim_at :: "qdoc \<Rightarrow> string \<Rightarrow> string \<Rightarrow> claim option" where
  "claim_at st n i = (case scope_of st n of None \<Rightarrow> None | Some sc \<Rightarrow> dict_get (claims sc) i)"

definition on_scope :: "string \<Rightarrow> (scope_state \<Rightarrow> scope_state) \<Rightarrow> qdoc \<Rightarrow> qdoc" where
  "on_scope n f st =
     (case scope_of st n of None \<Rightarrow> st | Some sc \<Rightarrow> st\<lparr>q_scopes := dict_set n (f sc) (q_scopes st)\<rparr>)"

definition set_pending :: "string \<Rightarrow> pending_record \<Rightarrow> qdoc \<Rightarrow> qdoc" where
  "set_pending tx rec st = st\<lparr>q_pending := dict_set tx rec (q_pending st)\<rparr>"

definition del_pending :: "string \<Rightarrow> qdoc \<Rightarrow> qdoc" where
  "del_pending tx st = st\<lparr>q_pending := dict_del tx (q_pending st)\<rparr>"

definition drop_claim :: "string \<Rightarrow> string \<Rightarrow> qdoc \<Rightarrow> qdoc" where
  "drop_claim n i st = on_scope n (\<lambda>sc. sc\<lparr>claims := dict_del i (claims sc)\<rparr>) st"

definition set_claim :: "string \<Rightarrow> string \<Rightarrow> claim \<Rightarrow> qdoc \<Rightarrow> qdoc" where
  "set_claim n i c st = on_scope n (\<lambda>sc. sc\<lparr>claims := dict_set i c (claims sc)\<rparr>) st"

definition pop_waiting :: "string \<Rightarrow> qdoc \<Rightarrow> qdoc" where
  "pop_waiting n st = on_scope n (\<lambda>sc. sc\<lparr>waiting := tl (waiting sc)\<rparr>) st"

text \<open>\<open>waiting.append(entry); waiting.sort(key=seq)\<close> (Python's sort and \<open>sort_key\<close> are stable).\<close>

definition requeue_entry :: "string \<Rightarrow> qentry \<Rightarrow> qdoc \<Rightarrow> qdoc" where
  "requeue_entry n e st = on_scope n (\<lambda>sc. sc\<lparr>waiting := sort_key seq (waiting sc @ [e])\<rparr>) st"

subsection \<open>Tickets of claims and of journal records\<close>

definition claim_matches_entry :: "claim \<Rightarrow> bool" where
  "claim_matches_entry c \<longleftrightarrow> c_user c = user (c_entry c) \<and> c_harness c = harness (c_entry c)
     \<and> c_session_id c = session_id (c_entry c) \<and> c_config_digest c = config_digest (c_entry c)"

text \<open>In \<open>{"id": item_id, **claim["entry"]}\<close> the entry's own id wins, so the item id is not used.\<close>

definition journal_ticket :: "queue_env \<Rightarrow> string \<Rightarrow> string \<Rightarrow> claim \<Rightarrow> store_error + ticket" where
  "journal_ticket env scope item c =
     (if \<not> claim_matches_entry c then Inl JournalError
      else ticket_create env (queue_root env) scope (c_entry c) (c_owner c) (c_transaction c))"

definition journal_record :: "queue_env \<Rightarrow> operation \<Rightarrow> string \<Rightarrow> qentry \<Rightarrow> ticket \<Rightarrow> pending_record" where
  "journal_record env oper scope e t =
     \<lparr> p_operation = oper, p_scope = scope, p_entry = e, p_ticket = t, p_capacity_root = cap_root env,
       p_phase = Intent \<rparr>"

definition journal_decode :: "queue_env \<Rightarrow> string \<Rightarrow> pending_record \<Rightarrow> store_error + ticket" where
  "journal_decode env tx rec =
     (case ticket_create env (queue_root env) (p_scope rec) (p_entry rec) (tk_owner (p_ticket rec)) tx of
        Inl _ \<Rightarrow> Inl JournalError
      | Inr expected \<Rightarrow>
          if p_ticket rec \<noteq> expected \<or> p_capacity_root rec \<noteq> cap_root env then Inl JournalError
          else Inr (p_ticket rec))"

subsection \<open>Claim, release, recovery, expiry\<close>

definition try_reserve :: "queue_env \<Rightarrow> ticket \<Rightarrow> bool qprog" where
  "try_reserve env t =
     catchE (bindE (liftE (ceiling_for env (tk_key t))) (\<lambda>limit.
             bindE (slots_reserve env t limit) (\<lambda>_. ret True)))
       (\<lambda>e. if e = CapacityUnavailable then ret False else raise e)"

definition claim_record :: "qentry \<Rightarrow> owner \<Rightarrow> string \<Rightarrow> string \<Rightarrow> rat \<Rightarrow> claim" where
  "claim_record e ow tx ep now =
     \<lparr> c_owner = ow, c_epoch = ep, c_heartbeat = now, c_claimed_at = now, c_user = user e,
       c_harness = harness e, c_session_id = session_id e, c_config_digest = config_digest e,
       c_entry = e, c_transaction = tx, c_quarantined = False \<rparr>"

definition journal_claim :: "queue_env \<Rightarrow> qdoc \<Rightarrow> string \<Rightarrow> qentry \<Rightarrow> owner \<Rightarrow> (ticket option \<times> qdoc) qprog" where
  "journal_claim env st scope e ow =
     bindE (fresh_uuid env) (\<lambda>tx.
     bindE (liftE (case ticket_create env (queue_root env) scope e ow tx of
                     Inl _ \<Rightarrow> Inl JournalError | Inr t \<Rightarrow> Inr t)) (\<lambda>t.
     let rec = journal_record env Op_claim scope e t; st1 = set_pending tx rec st in
     bindE (publish st1) (\<lambda>_.
     bindE (try_reserve env t) (\<lambda>reserved.
     if \<not> reserved
     then let st2 = del_pending tx st1 in bindE (publish st2) (\<lambda>_. ret (None, st2))
     else
       bindE (liftE (case scope_of st1 scope of None \<Rightarrow> Inl KeyError | Some sc \<Rightarrow> Inr sc)) (\<lambda>_.
       bindE (read_clock env) (\<lambda>now.
       bindE (fresh_uuid env) (\<lambda>ep.
       let st2 = set_pending tx (rec\<lparr>p_phase := Published\<rparr>)
                   (set_claim scope (entry_id e) (claim_record e ow tx ep now) (pop_waiting scope st1)) in
       bindE (publish st2) (\<lambda>_.
       bindE (slots_transition env t Selected) (\<lambda>_.
       let st3 = del_pending tx st2 in
       bindE (publish st3) (\<lambda>_. ret (Some t, st3)))))))))))"

definition journal_release :: "queue_env \<Rightarrow> qdoc \<Rightarrow> string \<Rightarrow> string \<Rightarrow> claim \<Rightarrow> bool \<Rightarrow> bool \<Rightarrow> qdoc qprog" where
  "journal_release env st scope item c requeue preactivation_only =
     bindE (liftE (journal_ticket env scope item c)) (\<lambda>t.
     bindE (unadopt env t) (\<lambda>_.
     let tx = tk_transaction t;
         rec = journal_record env (if requeue then Op_requeue else Op_release) scope (c_entry c) t;
         st1 = set_pending tx rec st in
     bindE (publish st1) (\<lambda>_.
     bindE (slots_fence_release env t preactivation_only) (\<lambda>_.
     let st2 = drop_claim scope item st1;
         st3 = (if requeue then requeue_entry scope (c_entry c) st2 else st2);
         st4 = set_pending tx (rec\<lparr>p_phase := Published\<rparr>) st3 in
     bindE (publish st4) (\<lambda>_.
     bindE (slots_release env t) (\<lambda>_.
     let st5 = del_pending tx st4 in
     bindE (publish st5) (\<lambda>_. ret st5)))))))"

text \<open>One journal record of \<open>recover\<close>: quarantined unless its owner is proved dead before activation.\<close>

definition recover_one :: "queue_env \<Rightarrow> string \<Rightarrow> pending_record \<Rightarrow> qdoc \<Rightarrow> (recovery \<times> qdoc) qprog" where
  "recover_one env tx rec st =
     bindE (liftE (journal_decode env tx rec)) (\<lambda>t.
     bindE (slots_phase env t) (\<lambda>ph.
     if (case ph of None \<Rightarrow> False | Some p \<Rightarrow> is_activated_phase p) \<or> q_liveness env (tk_owner t) \<noteq> Some False
     then ret (Quarantined (tk_holder t), st)
     else
       bindE (liftE (case scope_of st (p_scope rec) of None \<Rightarrow> Inl KeyError | Some sc \<Rightarrow> Inr sc)) (\<lambda>_.
       let co = claim_at st (p_scope rec) (tk_holder t) in
       bindE (guardE (\<not> (ph = None \<and> co \<noteq> None)) JournalError) (\<lambda>_.
       bindE (slots_fence_release env t True) (\<lambda>_.
       bindE (case co of
                None \<Rightarrow> ret st
              | Some c \<Rightarrow>
                  bindE (liftE (journal_ticket env (p_scope rec) (tk_holder t) c)) (\<lambda>t'.
                  bindE (guardE (t' = t) JournalError) (\<lambda>_.
                  let st1 = drop_claim (p_scope rec) (tk_holder t) st in
                  ret (if p_operation rec = Op_requeue then requeue_entry (p_scope rec) (p_entry rec) st1 else st1))))
         (\<lambda>st1.
       let st2 = set_pending tx (rec\<lparr>p_phase := Published\<rparr>) st1 in
       bindE (publish st2) (\<lambda>_.
       bindE (slots_release env t) (\<lambda>_.
       let st3 = del_pending tx st2 in
       bindE (publish st3) (\<lambda>_. ret (Recovered (tk_holder t), st3)))))))))) "

fun recover_all :: "queue_env \<Rightarrow> (string \<times> pending_record) list \<Rightarrow> qdoc \<Rightarrow> (recovery list \<times> qdoc) qprog" where
  "recover_all env [] st = ret ([], st)"
| "recover_all env ((tx, rec) # rs) st =
     bindE (recover_one env tx rec st) (\<lambda>(o1, st1).
     bindE (recover_all env rs st1) (\<lambda>(os, st2). ret (o1 # os, st2)))"

definition journal_recover :: "queue_env \<Rightarrow> qdoc \<Rightarrow> (recovery list \<times> qdoc) qprog" where
  "journal_recover env st = recover_all env (q_pending st) st"

definition quarantine_claim :: "string \<Rightarrow> string \<Rightarrow> claim \<Rightarrow> qdoc \<Rightarrow> qdoc" where
  "quarantine_claim n i c st = set_claim n i (c\<lparr>c_quarantined := True\<rparr>) st"

definition expire_one :: "queue_env \<Rightarrow> string \<Rightarrow> rat \<Rightarrow> string \<Rightarrow> claim \<Rightarrow> qdoc \<Rightarrow> qdoc qprog" where
  "expire_one env scope now item c st =
     (if c_transaction c \<in> set (dict_keys (q_pending st)) then ret (quarantine_claim scope item c st)
      else
        let verdict = q_liveness env (c_owner c) in
        bindE (liftE (journal_ticket env scope item c)) (\<lambda>t.
        bindE (slots_phase env t) (\<lambda>ph.
        bindE (guardE (ph = Some Selected \<or> ph = Some Activated) JournalError) (\<lambda>_.
        if verdict = Some False \<and> ph \<noteq> Some Activated
        then journal_release env st scope item c False True
        else if verdict = Some False \<or> verdict = None
        then (let age = now - c_heartbeat c in
              if verdict = Some False \<or> age < 0 \<or> age \<ge> lease_ttl env
              then ret (quarantine_claim scope item c st) else ret st)
        else ret st))))"

fun expire_all :: "queue_env \<Rightarrow> string \<Rightarrow> rat \<Rightarrow> (string \<times> claim) list \<Rightarrow> qdoc \<Rightarrow> qdoc qprog" where
  "expire_all env scope now [] st = ret st"
| "expire_all env scope now ((i, c) # cs) st =
     bindE (expire_one env scope now i c st) (\<lambda>st1. expire_all env scope now cs st1)"

definition journal_expire :: "queue_env \<Rightarrow> qdoc \<Rightarrow> string \<Rightarrow> rat \<Rightarrow> qdoc qprog" where
  "journal_expire env st scope now =
     (case scope_of st scope of None \<Rightarrow> raise KeyError
      | Some sc \<Rightarrow> expire_all env scope now (claims sc) st)"

definition valid_pending :: "queue_env \<Rightarrow> qdoc \<Rightarrow> string \<Rightarrow> pending_record \<Rightarrow> bool" where
  "valid_pending env st tx rec \<longleftrightarrow>
     (case journal_decode env tx rec of Inl _ \<Rightarrow> False | Inr _ \<Rightarrow> scope_of st (p_scope rec) \<noteq> None)"

definition valid_claim :: "queue_env \<Rightarrow> qdoc \<Rightarrow> string \<Rightarrow> string \<Rightarrow> claim \<Rightarrow> bool" where
  "valid_claim env st scope item c \<longleftrightarrow>
     (case journal_ticket env scope item c of Inl _ \<Rightarrow> False
      | Inr t \<Rightarrow> tk_holder t = item \<and> tk_key t = c_harness c
          \<and> 1 \<le> seq (c_entry c) \<and> seq (c_entry c) \<le> q_seq st)"

definition journal_validate :: "queue_env \<Rightarrow> qdoc \<Rightarrow> store_error + unit" where
  "journal_validate env st =
     (if (\<forall>(tx, rec) \<in> set (q_pending st). valid_pending env st tx rec)
         \<and> (\<forall>(n, sc) \<in> set (q_scopes st). \<forall>(i, c) \<in> set (claims sc). valid_claim env st n i c)
      then Inr () else Inl JournalError)"

end
