(* ===== verification/Queue_Store.thy ===== *)
theory Queue_Store
  imports Queue_Journal
begin

text \<open>
  The durable session queue (\<open>garuda/runtime/queue.py\<close>): reading and validating the document,
  the locked read-change-publish cycle, and the operations of \<open>QueueStore\<close>. Migration of version 1
  and 2 documents (\<open>queue_legacy.py\<close>) is not represented.
\<close>

record queue_row =
  row_scope :: string
  row_state :: string
  row_position :: nat
  row_id :: string
  row_seq :: "int option"
  row_user :: string
  row_harness :: string
  row_session_id :: "string option"
  row_config_digest :: "string option"
  row_enqueued_at :: "rat option"
  row_worker :: "owner option"
  row_heartbeat :: "rat option"
  row_quarantined :: bool
  row_pending :: "operation option"

subsection \<open>The document\<close>

definition q_empty :: qdoc where
  "q_empty = \<lparr> q_seq = 0, q_scopes = [], q_pending = [] \<rparr>"

definition valid_waiting :: "qentry \<Rightarrow> bool" where
  "valid_waiting w \<longleftrightarrow> entry_id w \<noteq> [] \<and> user w \<noteq> [] \<and> harness w \<noteq> []
     \<and> session_id w \<noteq> Some [] \<and> config_digest w \<noteq> Some []"

definition valid_sequences :: "int \<Rightarrow> int list \<Rightarrow> bool" where
  "valid_sequences hi qs \<longleftrightarrow> (\<forall>q \<in> set qs. 1 \<le> q \<and> q \<le> hi) \<and> (\<forall>(a, b) \<in> set (zip qs (tl qs)). a < b)"

definition doc_ids :: "qdoc \<Rightarrow> string list" where
  "doc_ids st = concat (map (\<lambda>(n, sc). map entry_id (waiting sc) @ dict_keys (claims sc)) (q_scopes st))"

definition q_validated :: "queue_env \<Rightarrow> qdoc \<Rightarrow> store_error + qdoc" where
  "q_validated env st =
     (if q_seq st < 0 then Inl CorruptState
      else if \<not> distinct (doc_ids st) then Inl CorruptState
      else if \<exists>(n, sc) \<in> set (q_scopes st). \<exists>w \<in> set (waiting sc). \<not> valid_waiting w then Inl CorruptState
      else if \<exists>(n, sc) \<in> set (q_scopes st). \<not> valid_sequences (q_seq st) (map seq (waiting sc)) then Inl CorruptState
      else case journal_validate env st of Inl _ \<Rightarrow> Inl CorruptState | Inr _ \<Rightarrow> Inr st)"

definition q_read :: "queue_env \<Rightarrow> qdoc qprog" where
  "q_read env =
     bindE (gets queue_file) (\<lambda>f. case f of
        Absent \<Rightarrow> ret q_empty
      | Unreadable \<Rightarrow> raise CorruptState
      | Present st \<Rightarrow> liftE (q_validated env st))"

text \<open>\<open>_locked\<close> publishes when \<open>json.dumps(state, sort_keys=True)\<close> has changed.\<close>

definition locked_error :: "store_error \<Rightarrow> store_error" where
  "locked_error e = (case e of JournalError \<Rightarrow> CorruptState | StorageUnavailable \<Rightarrow> LockUnavailable | _ \<Rightarrow> e)"

definition q_locked :: "queue_env \<Rightarrow> (qdoc \<Rightarrow> ('a \<times> qdoc) qprog) \<Rightarrow> 'a qprog" where
  "q_locked env body =
     catchE
       (bindE (exclusive_lock LockUnavailable) (\<lambda>_.
        bindE (q_read env) (\<lambda>st.
        bindE (body st) (\<lambda>(x, st').
        if canon st' = canon st then ret x else bindE (publish st') (\<lambda>_. ret x)))))
       (\<lambda>e. raise (locked_error e))"

definition ensure_scope :: "string \<Rightarrow> qdoc \<Rightarrow> qdoc" where
  "ensure_scope n st =
     (if scope_of st n = None then st\<lparr>q_scopes := dict_set n \<lparr> waiting = [], claims = [] \<rparr> (q_scopes st)\<rparr> else st)"

subsection \<open>Enqueue and cancel\<close>

definition current_user :: "queue_env \<Rightarrow> string" where
  "current_user env = ''uid'' @ show_nat (getuid env)"

definition scope_for :: "queue_env \<Rightarrow> string \<Rightarrow> string option \<Rightarrow> string" where
  "scope_for env harn us = (case us of Some u \<Rightarrow> (if u = [] then current_user env else u)
                             | None \<Rightarrow> current_user env) @ '':'' @ harn"

definition harness_of :: "string \<Rightarrow> string" where
  "harness_of scope = after_last (CHR '':'') scope"

type_synonym binding = "string \<times> string \<times> string option \<times> string option"

definition entry_binding :: "qentry \<Rightarrow> binding" where
  "entry_binding w = (user w, harness w, session_id w, config_digest w)"

definition claim_binding :: "claim \<Rightarrow> binding" where
  "claim_binding c = (c_user c, c_harness c, c_session_id c, c_config_digest c)"

definition existing_bindings :: "qdoc \<Rightarrow> string \<Rightarrow> (string \<times> binding) list" where
  "existing_bindings st item =
     concat (map (\<lambda>(n, sc).
       map (\<lambda>w. (n, entry_binding w)) (filter (\<lambda>w. entry_id w = item) (waiting sc))
       @ (case dict_get (claims sc) item of None \<Rightarrow> [] | Some c \<Rightarrow> [(n, claim_binding c)])) (q_scopes st))"

definition append_waiting :: "string \<Rightarrow> qentry \<Rightarrow> qdoc \<Rightarrow> qdoc" where
  "append_waiting n e st = on_scope n (\<lambda>sc. sc\<lparr>waiting := waiting sc @ [e]\<rparr>) (ensure_scope n st)"

definition add_entry :: "queue_env \<Rightarrow> string \<Rightarrow> qentry \<Rightarrow> qdoc \<Rightarrow> (string \<times> qdoc) qprog" where
  "add_entry env scope e0 st =
     (if \<exists>(tx, rec) \<in> set (q_pending st). entry_id (p_entry rec) = entry_id e0 then raise QueueError
      else case existing_bindings st (entry_id e0) of
        [] \<Rightarrow>
          bindE (read_clock env) (\<lambda>now.
          let sq = q_seq st + 1 in
          ret (entry_id e0,
               append_waiting scope (e0\<lparr>seq := sq, enqueued_at := now\<rparr>) (st\<lparr>q_seq := sq\<rparr>)))
      | [(n, b)] \<Rightarrow>
          if n \<noteq> scope \<or> b \<noteq> entry_binding e0 then raise QueueError else ret (entry_id e0, st)
      | _ \<Rightarrow> raise CorruptState)"

definition enqueue :: "queue_env \<Rightarrow> string \<Rightarrow> string option \<Rightarrow> string option \<Rightarrow> string option
    \<Rightarrow> string option \<Rightarrow> string option \<Rightarrow> string qprog" where
  "enqueue env scope item_id harn us sess digest =
     bindE (guardE (scope \<noteq> [] \<and> (\<forall>x \<in> {item_id, harn, us, sess, digest}. x \<noteq> Some [])) QueueError) (\<lambda>_.
     bindE (case item_id of Some i \<Rightarrow> ret i | None \<Rightarrow> fresh_uuid env) (\<lambda>item.
     let e0 = \<lparr> entry_id = item, seq = 0,
                user = (case us of Some u \<Rightarrow> u | None \<Rightarrow> current_user env),
                harness = (case harn of Some h \<Rightarrow> h | None \<Rightarrow> harness_of scope),
                session_id = sess, config_digest = digest, enqueued_at = 0 \<rparr> in
     bindE (case check_scope_binding scope e0 of Inl _ \<Rightarrow> raise QueueError | Inr _ \<Rightarrow> ret ()) (\<lambda>_.
     q_locked env (add_entry env scope e0))))"

definition cancel :: "queue_env \<Rightarrow> string \<Rightarrow> string \<Rightarrow> bool qprog" where
  "cancel env scope item =
     q_locked env (\<lambda>st.
       let st1 = ensure_scope scope st;
           kept = filter (\<lambda>w. entry_id w \<noteq> item) (waits st1 scope) in
       ret (length kept \<noteq> length (waits st1 scope), on_scope scope (\<lambda>sc. sc\<lparr>waiting := kept\<rparr>) st1))"

subsection \<open>Claiming\<close>

definition claim_body :: "queue_env \<Rightarrow> string \<Rightarrow> string \<Rightarrow> owner \<Rightarrow> qdoc \<Rightarrow> (ticket option \<times> qdoc) qprog" where
  "claim_body env scope item ow st =
     bindE (journal_recover env st) (\<lambda>(outs, st1).
     let st2 = ensure_scope scope st1 in
     bindE (read_clock env) (\<lambda>now.
     bindE (journal_expire env st2 scope now) (\<lambda>st3.
     case waits st3 scope of
       [] \<Rightarrow> ret (None, st3)
     | w # ws \<Rightarrow> if entry_id w \<noteq> item then ret (None, st3) else journal_claim env st3 scope w ow)))"

definition try_claim :: "queue_env \<Rightarrow> string \<Rightarrow> string \<Rightarrow> owner option \<Rightarrow> bool qprog" where
  "try_claim env scope item given =
     bindE (case given of Some ow \<Rightarrow> ret ow | None \<Rightarrow> me env) (\<lambda>ow.
     bindE (q_locked env (claim_body env scope item ow)) (\<lambda>tko.
     case tko of
       None \<Rightarrow> ret False
     | Some t \<Rightarrow>
         bindE (adopt env t) (\<lambda>_.
         bindE (modify (\<lambda>s. s\<lparr>claimed_owners := (claimed_owners s)((scope, item) \<mapsto> ow)\<rparr>)) (\<lambda>_.
         ret True))))"

fun expire_scopes :: "queue_env \<Rightarrow> string list \<Rightarrow> qdoc \<Rightarrow> qdoc qprog" where
  "expire_scopes env [] st = ret st"
| "expire_scopes env (n # ns) st =
     bindE (read_clock env) (\<lambda>now.
     bindE (journal_expire env st n now) (\<lambda>st1. expire_scopes env ns st1))"

definition recover_pending :: "queue_env \<Rightarrow> recovery list qprog" where
  "recover_pending env =
     q_locked env (\<lambda>st.
       bindE (journal_recover env st) (\<lambda>(outs, st1).
       bindE (expire_scopes env (dict_keys (q_scopes st1)) st1) (\<lambda>st2. ret (outs, st2))))"

definition dispatch_authorised :: "queue_env \<Rightarrow> qworld \<Rightarrow> qdoc \<Rightarrow> string \<Rightarrow> string \<Rightarrow> owner \<Rightarrow> claim \<Rightarrow> bool" where
  "dispatch_authorised env s st scope item ow c \<longleftrightarrow> c_owner c = ow
     \<and> claimed_owners s (scope, item) = Some ow \<and> pid ow = getpid env
     \<and> identity ow \<noteq> [] \<and> identity ow \<noteq> ''unknown''
     \<and> c_transaction c \<notin> set (dict_keys (q_pending st))"

definition begin_dispatch :: "queue_env \<Rightarrow> string \<Rightarrow> string \<Rightarrow> owner \<Rightarrow> unit qprog" where
  "begin_dispatch env scope item ow =
     q_locked env (\<lambda>st.
       case claim_at st scope item of
         None \<Rightarrow> raise QueueError
       | Some c \<Rightarrow>
           bindE (gets (\<lambda>s. dispatch_authorised env s st scope item ow c)) (\<lambda>ok.
           bindE (guardE ok QueueError) (\<lambda>_.
           bindE (liftE (journal_ticket env scope item c)) (\<lambda>t.
           bindE (guardE (tk_activation_ready t) QueueError) (\<lambda>_.
           bindE (gets (\<lambda>s. is_adopted env s t)) (\<lambda>ad.
           bindE (guardE ad QueueError) (\<lambda>_.
           bindE (slots_transition env t Activated) (\<lambda>_. ret ((), st)))))))))"

subsection \<open>Giving a claim back\<close>

definition forget_owner :: "string \<Rightarrow> string \<Rightarrow> owner \<Rightarrow> unit qprog" where
  "forget_owner scope item ow =
     modify (\<lambda>s. if claimed_owners s (scope, item) = Some ow
                 then s\<lparr>claimed_owners := (claimed_owners s)((scope, item) := None)\<rparr> else s)"

definition requeue :: "queue_env \<Rightarrow> string \<Rightarrow> string \<Rightarrow> owner \<Rightarrow> unit qprog" where
  "requeue env scope item ow =
     bindE (q_locked env (\<lambda>st.
       case claim_at st scope item of
         None \<Rightarrow> ret (False, st)
       | Some c \<Rightarrow>
           if c_owner c \<noteq> ow then ret (False, st)
           else bindE (journal_release env st scope item c True False) (\<lambda>st1. ret (True, st1)))) (\<lambda>done.
     if done then forget_owner scope item ow else ret ())"

text \<open>The acting owner: the given one, or the one this process retained for the claim.\<close>

definition retained_owner :: "queue_env \<Rightarrow> string \<Rightarrow> string \<Rightarrow> owner option \<Rightarrow> owner option qprog" where
  "retained_owner env scope item given =
     (case given of Some ow \<Rightarrow> ret (Some ow)
      | None \<Rightarrow> gets (\<lambda>s. case claimed_owners s (scope, item) of None \<Rightarrow> None
                         | Some ow \<Rightarrow> if pid ow = getpid env then Some ow else None))"

definition heartbeat :: "queue_env \<Rightarrow> string \<Rightarrow> string \<Rightarrow> owner option \<Rightarrow> bool qprog" where
  "heartbeat env scope item given =
     bindE (retained_owner env scope item given) (\<lambda>owo.
     case owo of None \<Rightarrow> ret False
     | Some ow \<Rightarrow>
         q_locked env (\<lambda>st.
           case claim_at st scope item of
             None \<Rightarrow> ret (False, st)
           | Some c \<Rightarrow>
               if c_owner c \<noteq> ow then ret (False, st)
               else bindE (read_clock env) (\<lambda>now. ret (True, set_claim scope item (c\<lparr>c_heartbeat := now\<rparr>) st))))"

definition release_claim :: "queue_env \<Rightarrow> string \<Rightarrow> string \<Rightarrow> owner option \<Rightarrow> bool qprog" where
  "release_claim env scope item given =
     bindE (retained_owner env scope item given) (\<lambda>owo.
     case owo of None \<Rightarrow> ret False
     | Some ow \<Rightarrow>
         bindE (q_locked env (\<lambda>st.
           case claim_at st scope item of
             None \<Rightarrow> ret (False, st)
           | Some c \<Rightarrow>
               if c_owner c \<noteq> ow then ret (False, st)
               else bindE (journal_release env st scope item c False False) (\<lambda>st1. ret (True, st1)))) (\<lambda>done.
         if done then bindE (forget_owner scope item ow) (\<lambda>_. ret True) else ret False))"

definition claim_with_workspace :: "queue_env \<Rightarrow> string \<Rightarrow> string \<Rightarrow> bool qprog \<Rightarrow> owner option \<Rightarrow> bool qprog" where
  "claim_with_workspace env scope item acquire_workspace given =
     bindE (case given of Some ow \<Rightarrow> ret ow | None \<Rightarrow> me env) (\<lambda>ow.
     bindE (try_claim env scope item (Some ow)) (\<lambda>claimed.
     if \<not> claimed then ret False
     else
       bindE (catchE acquire_workspace (\<lambda>e. bindE (requeue env scope item ow) (\<lambda>_. raise e))) (\<lambda>acquired.
       if acquired then ret True
       else bindE (requeue env scope item ow) (\<lambda>_. ret False))))"

text \<open>The polling loop of \<open>claim\<close>: \<open>monotonic k\<close> is the clock reading after attempt \<open>k\<close>; \<open>None\<close> is a
  loop that has used up its fuel.\<close>

fun claim_poll :: "nat \<Rightarrow> queue_env \<Rightarrow> string \<Rightarrow> string \<Rightarrow> owner \<Rightarrow> rat \<Rightarrow> nat \<Rightarrow> bool option qprog" where
  "claim_poll 0 env scope item ow deadline k = ret None"
| "claim_poll (Suc fuel) env scope item ow deadline k =
     bindE (try_claim env scope item (Some ow)) (\<lambda>ok.
     if ok then ret (Some True)
     else if monotonic env k \<ge> deadline then ret (Some False)
     else claim_poll fuel env scope item ow deadline (Suc k))"

subsection \<open>Inspection\<close>

definition pending_by_item :: "qdoc \<Rightarrow> pending_record dict" where
  "pending_by_item st = fold (\<lambda>(tx, rec) d. dict_set (entry_id (p_entry rec)) rec d) (q_pending st) []"

definition waiting_row :: "pending_record dict \<Rightarrow> string \<Rightarrow> nat \<Rightarrow> qentry \<Rightarrow> queue_row" where
  "waiting_row pend n pos w =
     \<lparr> row_scope = n, row_state = ''queued'', row_position = pos, row_id = entry_id w, row_seq = Some (seq w),
       row_user = user w, row_harness = harness w, row_session_id = session_id w,
       row_config_digest = config_digest w, row_enqueued_at = Some (enqueued_at w), row_worker = None,
       row_heartbeat = None, row_quarantined = (dict_get pend (entry_id w) \<noteq> None),
       row_pending = map_option p_operation (dict_get pend (entry_id w)) \<rparr>"

definition claim_row :: "pending_record dict \<Rightarrow> string \<Rightarrow> string \<Rightarrow> claim \<Rightarrow> queue_row" where
  "claim_row pend n i c =
     \<lparr> row_scope = n, row_state = ''running'', row_position = 0, row_id = i, row_seq = None,
       row_user = c_user c, row_harness = c_harness c, row_session_id = c_session_id c,
       row_config_digest = c_config_digest c, row_enqueued_at = None, row_worker = Some (c_owner c),
       row_heartbeat = Some (c_heartbeat c), row_quarantined = (c_quarantined c \<or> dict_get pend i \<noteq> None),
       row_pending = map_option p_operation (dict_get pend i) \<rparr>"

definition pending_row :: "string \<Rightarrow> pending_record \<Rightarrow> queue_row" where
  "pending_row i rec =
     \<lparr> row_scope = p_scope rec, row_state = ''quarantined'', row_position = 0, row_id = entry_id (p_entry rec),
       row_seq = Some (seq (p_entry rec)), row_user = user (p_entry rec), row_harness = harness (p_entry rec),
       row_session_id = session_id (p_entry rec), row_config_digest = config_digest (p_entry rec),
       row_enqueued_at = Some (enqueued_at (p_entry rec)), row_worker = None, row_heartbeat = None,
       row_quarantined = True, row_pending = Some (p_operation rec) \<rparr>"

definition q_entries :: "qdoc \<Rightarrow> string option \<Rightarrow> queue_row list" where
  "q_entries st scope =
     (let pend = pending_by_item st;
          out = concat (map (\<lambda>(n, sc).
            if scope \<noteq> None \<and> scope \<noteq> Some n then []
            else map (\<lambda>(pos, w). waiting_row pend n pos w) (enumerate 1 (waiting sc))
                 @ map (\<lambda>(i, c). claim_row pend n i c) (claims sc))
            (sort_key fst (q_scopes st)));
          listed = map row_id out in
      out @ map (\<lambda>(i, rec). pending_row i rec)
              (filter (\<lambda>(i, rec). i \<notin> set listed \<and> (scope = None \<or> scope = Some (p_scope rec))) pend))"

definition inspect :: "queue_env \<Rightarrow> string option \<Rightarrow> (qdoc \<times> queue_row list) qprog" where
  "inspect env scope = bindE (q_read env) (\<lambda>st. ret (st, q_entries st scope))"

end
