(* ===== verification/Queue_Invariant.thy ===== *)
theory Queue_Invariant
  imports Queue_Store
begin

text \<open>
  The invariant that ties the queue document to the capacity slots, and the proof that every
  operation of the queue keeps it, on every branch and for every storage outcome.

  \<open>abs_q\<close> is the abstract queue of a document: its sequence counter, the scopes it has, the waiting
  list, the claims and the pending transactions, all as functions. \<open>queue_inv\<close> is the invariant of
  an abstract queue together with the abstract slots of the capacity store.
\<close>

record aqueue =
  aq_seq :: int
  aq_scopes :: "string set"
  aq_waits :: "string \<Rightarrow> qentry list"
  aq_claims :: "string \<Rightarrow> string \<Rightarrow> claim option"
  aq_pend :: "string \<Rightarrow> pending_record option"

definition abs_q :: "qdoc \<Rightarrow> aqueue" where
  "abs_q d = \<lparr> aq_seq = q_seq d, aq_scopes = {n. scope_of d n \<noteq> None}, aq_waits = waits d,
     aq_claims = claim_at d, aq_pend = dict_get (q_pending d) \<rparr>"

definition wf_doc :: "qdoc \<Rightarrow> bool" where
  "wf_doc d \<longleftrightarrow> dict_ok (q_scopes d) \<and> dict_ok (q_pending d)
     \<and> (\<forall>n sc. scope_of d n = Some sc \<longrightarrow> dict_ok (claims sc))"

named_theorems abs_simps \<open>effect of a document operation on the abstract queue\<close>
named_theorems wf_rules \<open>document operations keep dictionaries free of duplicate keys\<close>

subsection \<open>Document operations on the abstract queue\<close>

lemma abs_sel [simp]:
  "aq_seq (abs_q d) = q_seq d" "aq_waits (abs_q d) = waits d" "aq_claims (abs_q d) = claim_at d"
  "aq_pend (abs_q d) = dict_get (q_pending d)" "n \<in> aq_scopes (abs_q d) \<longleftrightarrow> scope_of d n \<noteq> None"
  by (simp_all add: abs_q_def)

lemma scope_of_on_scope:
  "scope_of (on_scope n f d) k = (if k = n then map_option f (scope_of d n) else scope_of d k)"
  by (auto simp: on_scope_def scope_of_def dict_simps split: option.splits if_splits)

lemma on_scope_rest [simp]:
  "q_seq (on_scope n f d) = q_seq d" "q_pending (on_scope n f d) = q_pending d"
  by (simp_all add: on_scope_def split: option.splits if_splits)

lemma updates_rest [simp]:
  "q_pending (set_claim n i c d) = q_pending d" "q_pending (drop_claim n i d) = q_pending d"
  "q_pending (pop_waiting n d) = q_pending d" "q_pending (requeue_entry n e d) = q_pending d"
  "q_pending (ensure_scope n d) = q_pending d"
  "q_seq (set_claim n i c d) = q_seq d" "q_seq (drop_claim n i d) = q_seq d"
  "q_seq (pop_waiting n d) = q_seq d" "q_seq (requeue_entry n e d) = q_seq d" "q_seq (ensure_scope n d) = q_seq d"
  by (simp_all add: set_claim_def drop_claim_def pop_waiting_def requeue_entry_def ensure_scope_def)

lemma aq_eqI:
  assumes "aq_seq a = aq_seq b" "aq_scopes a = aq_scopes b" "\<And>n. aq_waits a n = aq_waits b n"
    "\<And>n i. aq_claims a n i = aq_claims b n i" "\<And>x. aq_pend a x = aq_pend b x"
  shows "a = (b :: aqueue)"
  using assms by (cases a; cases b) (auto simp: fun_eq_iff)

lemma abs_set_pending [abs_simps]:
  "abs_q (set_pending x rec d) = (abs_q d)\<lparr>aq_pend := (dict_get (q_pending d))(x \<mapsto> rec)\<rparr>"
  by (rule aq_eqI) (auto simp: set_pending_def waits_def claim_at_def scope_of_def dict_simps)

lemma abs_del_pending [abs_simps]:
  "abs_q (del_pending x d) = (abs_q d)\<lparr>aq_pend := (dict_get (q_pending d))(x := None)\<rparr>"
  by (rule aq_eqI) (auto simp: del_pending_def waits_def claim_at_def scope_of_def dict_simps)

lemma abs_drop_claim [abs_simps]:
  "abs_q (drop_claim n i d) = (abs_q d)\<lparr>aq_claims := (claim_at d)(n := (claim_at d n)(i := None))\<rparr>"
  by (rule aq_eqI) (auto simp: drop_claim_def waits_def claim_at_def scope_of_on_scope dict_simps split: option.splits if_splits)

lemma abs_set_claim [abs_simps]:
  "scope_of d n \<noteq> None \<Longrightarrow>
   abs_q (set_claim n i c d) = (abs_q d)\<lparr>aq_claims := (claim_at d)(n := (claim_at d n)(i \<mapsto> c))\<rparr>"
  by (rule aq_eqI) (auto simp: set_claim_def waits_def claim_at_def scope_of_on_scope dict_simps split: option.splits if_splits)

lemma abs_pop_waiting [abs_simps]:
  "abs_q (pop_waiting n d) = (abs_q d)\<lparr>aq_waits := (waits d)(n := tl (waits d n))\<rparr>"
  by (rule aq_eqI) (auto simp: pop_waiting_def waits_def claim_at_def scope_of_on_scope split: option.splits if_splits)

lemma abs_requeue_entry [abs_simps]:
  "scope_of d n \<noteq> None \<Longrightarrow>
   abs_q (requeue_entry n e d) = (abs_q d)\<lparr>aq_waits := (waits d)(n := sort_key seq (waits d n @ [e]))\<rparr>"
  by (rule aq_eqI) (auto simp: requeue_entry_def waits_def claim_at_def scope_of_on_scope split: option.splits if_splits)

lemma abs_ensure_scope [abs_simps]:
  "abs_q (ensure_scope n d) = (abs_q d)\<lparr>aq_scopes := insert n (aq_scopes (abs_q d))\<rparr>"
  by (rule aq_eqI) (auto simp: ensure_scope_def waits_def claim_at_def scope_of_def dict_simps split: option.splits if_splits)

lemma abs_set_waiting [abs_simps]:
  "abs_q (on_scope n (\<lambda>sc. sc\<lparr>waiting := f (waiting sc)\<rparr>) d) =
     (if scope_of d n = None then abs_q d else (abs_q d)\<lparr>aq_waits := (waits d)(n := f (waits d n))\<rparr>)"
  by (rule aq_eqI) (auto simp: waits_def claim_at_def scope_of_on_scope split: option.splits if_splits)

lemma abs_append_waiting [abs_simps]:
  "abs_q (append_waiting n e d) = (abs_q d)\<lparr>aq_scopes := insert n (aq_scopes (abs_q d)),
     aq_waits := (waits d)(n := waits d n @ [e])\<rparr>"
proof -
  have "scope_of (ensure_scope n d) n \<noteq> None" by (simp add: ensure_scope_def scope_of_def dict_simps)
  moreover have "waits (ensure_scope n d) = waits d"
    using arg_cong [OF abs_ensure_scope [of n d], of aq_waits] by simp
  ultimately show ?thesis
    by (auto simp: append_waiting_def abs_set_waiting [where f = "\<lambda>ws. ws @ [e]"] abs_ensure_scope)
qed

lemma wf_on_scope [wf_rules]:
  "wf_doc d \<Longrightarrow> (\<And>sc. dict_ok (claims sc) \<Longrightarrow> dict_ok (claims (f sc))) \<Longrightarrow> wf_doc (on_scope n f d)"
  by (auto simp: wf_doc_def scope_of_on_scope split: if_splits)
    (auto simp: on_scope_def split: option.splits)

lemma wf_updates [wf_rules]:
  assumes "wf_doc d"
  shows "wf_doc (set_pending x rec d)" "wf_doc (del_pending x d)" "wf_doc (drop_claim n i d)"
    "wf_doc (set_claim n i c d)" "wf_doc (pop_waiting n d)" "wf_doc (requeue_entry n e d)"
    "wf_doc (ensure_scope n d)" "wf_doc (d\<lparr>q_seq := q\<rparr>)"
  using assms
  by (auto simp: drop_claim_def set_claim_def pop_waiting_def requeue_entry_def intro!: wf_on_scope)
    (auto simp: wf_doc_def set_pending_def del_pending_def ensure_scope_def scope_of_def dict_simps split: if_splits)

lemma wf_append_waiting [wf_rules]: "wf_doc d \<Longrightarrow> wf_doc (append_waiting n e d)"
  unfolding append_waiting_def by (intro wf_rules) auto

subsection \<open>Canonical documents\<close>

lemma map_of_sort_key: "distinct (map fst xs) \<Longrightarrow> map_of (sort_key f xs) = map_of xs"
  by (rule map_of_inject_set [THEN iffD2]) (simp_all add: distinct_map inj_on_def)

lemma dict_ok_sort_key: "dict_ok xs \<Longrightarrow> dict_ok (sort_key f xs)"
  by (simp add: dict_ok_def distinct_map)

lemma scope_of_canon:
  assumes "wf_doc d"
  shows "scope_of (canon d) n = map_option (\<lambda>sc. sc\<lparr>claims := sort_key fst (claims sc)\<rparr>) (scope_of d n)"
proof -
  let ?f = "\<lambda>sc. sc\<lparr>claims := sort_key fst (claims sc)\<rparr>"
  have keys: "map fst (map (\<lambda>(n, sc). (n, ?f sc)) (q_scopes d)) = map fst (q_scopes d)" by auto
  with assms have "distinct (map fst (map (\<lambda>(n, sc). (n, ?f sc)) (q_scopes d)))"
    by (simp only: wf_doc_def dict_ok_def)
  then show ?thesis
    by (simp add: scope_of_def canon_def map_of_sort_key map_of_map)
qed

lemma wf_canon [wf_rules]: "wf_doc d \<Longrightarrow> wf_doc (canon d)"
proof -
  assume wf: "wf_doc d"
  from wf have "dict_ok (map (\<lambda>(n, sc). (n, sc\<lparr>claims := sort_key fst (claims sc)\<rparr>)) (q_scopes d))"
    by (simp add: wf_doc_def dict_ok_def split_def comp_def)
  then have "dict_ok (q_scopes (canon d))"
    unfolding canon_def by (simp add: dict_ok_sort_key)
  moreover have "dict_ok (q_pending (canon d))"
    using wf by (simp add: canon_def wf_doc_def dict_ok_sort_key)
  moreover have "scope_of (canon d) n = Some sc \<Longrightarrow> dict_ok (claims sc)" for n sc
    using wf by (auto simp: scope_of_canon wf_doc_def dict_ok_sort_key)
  ultimately show ?thesis by (simp add: wf_doc_def)
qed

lemma abs_canon [abs_simps]: "wf_doc d \<Longrightarrow> abs_q (canon d) = abs_q d"
proof (rule aq_eqI)
  fix n i x assume wf: "wf_doc d"
  show "aq_waits (abs_q (canon d)) n = aq_waits (abs_q d) n"
    using wf by (auto simp: waits_def scope_of_canon split: option.splits)
  show "aq_claims (abs_q (canon d)) n i = aq_claims (abs_q d) n i"
  proof (cases "scope_of d n")
    case (Some sc)
    then have "distinct (map fst (claims sc))" using wf by (auto simp: wf_doc_def dict_ok_def)
    then show ?thesis using wf Some by (simp add: claim_at_def scope_of_canon map_of_sort_key)
  qed (use wf in \<open>simp add: claim_at_def scope_of_canon\<close>)
  show "aq_pend (abs_q (canon d)) x = aq_pend (abs_q d) x"
    using wf by (simp add: canon_def map_of_sort_key wf_doc_def dict_ok_def)
qed (auto simp: scope_of_canon, simp add: canon_def)

lemma canon_eq_abs: "wf_doc d \<Longrightarrow> wf_doc d' \<Longrightarrow> canon d' = canon d \<Longrightarrow> abs_q d' = abs_q d"
  by (metis abs_canon)

subsection \<open>The invariant\<close>

text \<open>An entry of the queue: its scope, whether it waits, and what was admitted.\<close>

definition items :: "aqueue \<Rightarrow> (string \<times> bool \<times> qentry) set" where
  "items a = {(n, True, e) | n e. e \<in> set (aq_waits a n)} \<union> {(n, False, c_entry c) | n i c. aq_claims a n i = Some c}"

definition claim_ok :: "queue_env \<Rightarrow> string \<Rightarrow> string \<Rightarrow> claim \<Rightarrow> bool" where
  "claim_ok env n i c \<longleftrightarrow> i = entry_id (c_entry c) \<and> claim_matches_entry c
     \<and> (\<exists>t. ticket_create env (queue_root env) n (c_entry c) (c_owner c) (c_transaction c) = Inr t)"

definition entries_inv :: "aqueue \<Rightarrow> bool" where
  "entries_inv a \<longleftrightarrow> 0 \<le> aq_seq a \<and> (\<forall>n. sorted_wrt (<) (map seq (aq_waits a n)))
     \<and> (\<forall>(n, w, e) \<in> items a. n \<in> aq_scopes a \<and> valid_waiting e \<and> 1 \<le> seq e \<and> seq e \<le> aq_seq a)
     \<and> (\<forall>x \<in> items a. \<forall>y \<in> items a. entry_id (snd (snd x)) = entry_id (snd (snd y)) \<or> seq (snd (snd x)) = seq (snd (snd y)) \<longrightarrow> x = y)"

definition journal_inv :: "queue_env \<Rightarrow> aqueue \<Rightarrow> bool" where
  "journal_inv env a \<longleftrightarrow>
     (\<forall>n i c. aq_claims a n i = Some c \<longrightarrow> claim_ok env n i c)
     \<and> (\<forall>x rec. aq_pend a x = Some rec \<longrightarrow> journal_decode env x rec = Inr (p_ticket rec) \<and> p_scope rec \<in> aq_scopes a)
     \<and> (\<forall>n i c n' i' c'. aq_claims a n i = Some c \<longrightarrow> aq_claims a n' i' = Some c'
          \<longrightarrow> c_transaction c = c_transaction c' \<longrightarrow> n = n' \<and> i = i')
     \<and> (\<forall>n i c rec. aq_claims a n i = Some c \<longrightarrow> aq_pend a (c_transaction c) = Some rec
          \<longrightarrow> p_scope rec = n \<and> p_entry rec = c_entry c \<and> tk_owner (p_ticket rec) = c_owner c)"

text \<open>The slots of this queue: the markers that name its root.\<close>

definition own_marker :: "queue_env \<Rightarrow> slots \<Rightarrow> string \<Rightarrow> string \<Rightarrow> marker \<Rightarrow> bool" where
  "own_marker env v k h m \<longleftrightarrow> (\<exists>sl. v k h = Some sl \<and> slot_queue sl = Some m) \<and> mk_queue_root m = queue_root env"

definition paired :: "queue_env \<Rightarrow> slots \<Rightarrow> string \<Rightarrow> string \<Rightarrow> claim \<Rightarrow> bool" where
  "paired env v n i c \<longleftrightarrow> (\<exists>sl t. v (c_harness c) i = Some sl \<and> journal_ticket env n i c = Inr t \<and> same_slot sl t
     \<and> (slot_phase sl = Selected \<or> slot_phase sl = Activated))"

definition covered :: "aqueue \<Rightarrow> string \<Rightarrow> string \<Rightarrow> marker \<Rightarrow> bool" where
  "covered a k h m \<longleftrightarrow>
     (\<exists>rec. aq_pend a (mk_transaction m) = Some rec \<and> tk_key (p_ticket rec) = k \<and> tk_holder (p_ticket rec) = h)
     \<or> (\<exists>n c. aq_claims a n h = Some c \<and> c_transaction c = mk_transaction m \<and> c_harness c = k)"

definition slots_inv :: "queue_env \<Rightarrow> aqueue \<Rightarrow> slots \<Rightarrow> bool" where
  "slots_inv env a v \<longleftrightarrow>
     (\<forall>n i c. aq_claims a n i = Some c \<longrightarrow> aq_pend a (c_transaction c) = None \<longrightarrow> paired env v n i c)
     \<and> (\<forall>k h m. own_marker env v k h m \<longrightarrow> covered a k h m)"

text \<open>Every transaction in use was drawn from the first \<open>k\<close> random identifiers.\<close>

definition in_use :: "queue_env \<Rightarrow> aqueue \<Rightarrow> slots \<Rightarrow> string set" where
  "in_use env a v = {c_transaction c | n i c. aq_claims a n i = Some c} \<union> dom (aq_pend a)
     \<union> {mk_transaction m | k h m. own_marker env v k h m}"

definition queue_inv :: "queue_env \<Rightarrow> nat \<Rightarrow> aqueue \<Rightarrow> slots \<Rightarrow> bool" where
  "queue_inv env k a v \<longleftrightarrow> entries_inv a \<and> journal_inv env a \<and> slots_inv env a v
     \<and> in_use env a v \<subseteq> uuid4 env ` {..<k}"

subsection \<open>Changes of the queue that keep the invariant\<close>

lemma itemsE:
  assumes "x \<in> items a"
  obtains n e where "x = (n, True, e)" "e \<in> set (aq_waits a n)"
  | n i c where "x = (n, False, c_entry c)" "aq_claims a n i = Some c"
  using assms by (auto simp: items_def)

lemma items_iff:
  "(n, w, e) \<in> items a \<longleftrightarrow> (if w then e \<in> set (aq_waits a n) else \<exists>i c. aq_claims a n i = Some c \<and> c_entry c = e)"
  by (auto simp: items_def)

lemma items_waits: "e \<in> set (aq_waits a n) \<Longrightarrow> (n, True, e) \<in> items a"
  by (auto simp: items_def)

lemma items_claims: "aq_claims a n i = Some c \<Longrightarrow> (n, False, c_entry c) \<in> items a"
  by (auto simp: items_def)

lemma items_pend [simp]: "items (a\<lparr>aq_pend := p\<rparr>) = items a"
  by (simp add: items_def)

lemma entries_unique:
  assumes "entries_inv a" "(n, w, e) \<in> items a" "(n', w', e') \<in> items a" "entry_id e = entry_id e' \<or> seq e = seq e'"
  shows "n = n' \<and> w = w' \<and> e = e'"
proof -
  from assms(1) have "\<forall>x \<in> items a. \<forall>y \<in> items a. entry_id (snd (snd x)) = entry_id (snd (snd y))
      \<or> seq (snd (snd x)) = seq (snd (snd y)) \<longrightarrow> x = y"
    by (simp add: entries_inv_def)
  from this [rule_format, OF assms(2,3)] assms(4) show ?thesis by simp
qed

lemma entries_itemD:
  assumes "entries_inv a" "(n, w, e) \<in> items a"
  shows "n \<in> aq_scopes a" "valid_waiting e" "1 \<le> seq e" "seq e \<le> aq_seq a"
  using assms by (auto simp: entries_inv_def)

lemma entries_invI:
  assumes "0 \<le> aq_seq a" and "\<And>n. sorted_wrt (<) (map seq (aq_waits a n))"
    and "\<And>n w e. (n, w, e) \<in> items a \<Longrightarrow> n \<in> aq_scopes a \<and> valid_waiting e \<and> 1 \<le> seq e \<and> seq e \<le> aq_seq a"
    and "\<And>x y. x \<in> items a \<Longrightarrow> y \<in> items a \<Longrightarrow> entry_id (snd (snd x)) = entry_id (snd (snd y))
        \<or> seq (snd (snd x)) = seq (snd (snd y)) \<Longrightarrow> x = y"
  shows "entries_inv a"
  using assms unfolding entries_inv_def by blast

lemma entries_sorted: "entries_inv a \<Longrightarrow> sorted_wrt (<) (map seq (aq_waits a n))"
  by (simp add: entries_inv_def)

text \<open>Moving entries inside their scopes keeps every entry admitted once.\<close>

lemma entries_transfer:
  assumes inv: "entries_inv a" and seq: "aq_seq a' = aq_seq a" and sc: "aq_scopes a \<subseteq> aq_scopes a'"
    and sorted: "\<And>n. sorted_wrt (<) (map seq (aq_waits a' n))"
    and g: "\<And>n w e. (n, w, e) \<in> items a' \<Longrightarrow> (n, g n w e, e) \<in> items a"
    and inj: "\<And>n w w' e. (n, w, e) \<in> items a' \<Longrightarrow> (n, w', e) \<in> items a' \<Longrightarrow> g n w e = g n w' e \<Longrightarrow> w = w'"
  shows "entries_inv a'"
proof -
  have "x = y" if xy: "x \<in> items a'" "y \<in> items a'"
    and same: "entry_id (snd (snd x)) = entry_id (snd (snd y)) \<or> seq (snd (snd x)) = seq (snd (snd y))" for x y
  proof -
    obtain n w e where x: "x = (n, w, e)" by (cases x) auto
    obtain n' w' e' where y: "y = (n', w', e')" by (cases y) auto
    from entries_unique [OF inv g g, of n w e n' w' e'] xy same inj [of n w e w'] show "x = y"
      by (auto simp: x y)
  qed
  moreover have "n \<in> aq_scopes a' \<and> valid_waiting e \<and> 1 \<le> seq e \<and> seq e \<le> aq_seq a'" if "(n, w, e) \<in> items a'" for n w e
    using entries_itemD [OF inv g [OF that]] sc seq by auto
  ultimately show ?thesis
    using inv sorted seq by (auto simp: entries_inv_def)
qed

lemma inv_parts:
  assumes "queue_inv env k a v"
  shows "entries_inv a" "journal_inv env a" "slots_inv env a v" "in_use env a v \<subseteq> uuid4 env ` {..<k}"
  using assms by (simp_all add: queue_inv_def)

lemma queue_inv_mono: "queue_inv env k a v \<Longrightarrow> k \<le> k' \<Longrightarrow> queue_inv env k' a v"
  unfolding queue_inv_def by (meson image_mono lessThan_subset_iff subset_trans)

lemma journal_claimD:
  assumes "journal_inv env a" "aq_claims a n i = Some c"
  shows "claim_ok env n i c"
    and "aq_claims a n' i' = Some c' \<Longrightarrow> c_transaction c = c_transaction c' \<Longrightarrow> n = n' \<and> i = i'"
    and "aq_pend a (c_transaction c) = Some rec \<Longrightarrow>
           p_scope rec = n \<and> p_entry rec = c_entry c \<and> tk_owner (p_ticket rec) = c_owner c"
  using assms unfolding journal_inv_def by blast+

lemma journal_pendD:
  assumes "journal_inv env a" "aq_pend a x = Some rec"
  shows "journal_decode env x rec = Inr (p_ticket rec)" "p_scope rec \<in> aq_scopes a"
  using assms unfolding journal_inv_def by blast+

lemma in_use_iff:
  "x \<in> in_use env a v \<longleftrightarrow> (\<exists>n i c. aq_claims a n i = Some c \<and> c_transaction c = x) \<or> aq_pend a x \<noteq> None
     \<or> (\<exists>k h m. own_marker env v k h m \<and> mk_transaction m = x)"
  unfolding in_use_def dom_def by blast

lemma covered_claim:
  "aq_claims a n h = Some c \<Longrightarrow> c_transaction c = mk_transaction m \<Longrightarrow> c_harness c = kk \<Longrightarrow> covered a kk h m"
  by (auto simp: covered_def)

lemma coveredE:
  assumes "covered a kk h m"
  obtains rec where "aq_pend a (mk_transaction m) = Some rec" "tk_key (p_ticket rec) = kk" "tk_holder (p_ticket rec) = h"
  | n c where "aq_claims a n h = Some c" "c_transaction c = mk_transaction m" "c_harness c = kk"
  using assms by (auto simp: covered_def)

text \<open>What covered a slot still covers it when each pending record and claim is kept or replaced by a like one.\<close>

lemma covered_transfer:
  assumes "covered a kk h m"
    and "\<And>rec. aq_pend a (mk_transaction m) = Some rec \<Longrightarrow> \<exists>r. aq_pend a' (mk_transaction m) = Some r \<and> p_ticket r = p_ticket rec"
    and "\<And>n c. aq_claims a n h = Some c \<Longrightarrow> c_transaction c = mk_transaction m \<Longrightarrow> c_harness c = kk \<Longrightarrow>
        (\<exists>c'. aq_claims a' n h = Some c' \<and> c_transaction c' = c_transaction c \<and> c_harness c' = c_harness c)
        \<or> covered a' kk h m"
  shows "covered a' kk h m"
  using assms(1)
proof (cases rule: coveredE)
  case (1 rec)
  with assms(2) [OF 1(1)] show ?thesis by (auto simp: covered_def)
next
  case (2 n c)
  with assms(3) [OF 2] show ?thesis by (auto intro: covered_claim)
qed

lemma journal_invI:
  assumes "\<And>n i c. aq_claims a n i = Some c \<Longrightarrow> claim_ok env n i c"
    and "\<And>x rec. aq_pend a x = Some rec \<Longrightarrow> journal_decode env x rec = Inr (p_ticket rec)"
    and "\<And>x rec. aq_pend a x = Some rec \<Longrightarrow> p_scope rec \<in> aq_scopes a"
    and "\<And>n i c n' i' c'. aq_claims a n i = Some c \<Longrightarrow> aq_claims a n' i' = Some c'
          \<Longrightarrow> c_transaction c = c_transaction c' \<Longrightarrow> n = n' \<and> i = i'"
    and "\<And>n i c rec. aq_claims a n i = Some c \<Longrightarrow> aq_pend a (c_transaction c) = Some rec
          \<Longrightarrow> p_scope rec = n \<and> p_entry rec = c_entry c \<and> tk_owner (p_ticket rec) = c_owner c"
  shows "journal_inv env a"
  using assms unfolding journal_inv_def by blast

subsection \<open>Tickets\<close>

lemma ticket_createD:
  assumes "ticket_create env qr n e ow x = Inr t"
  shows "tk_key t = harness e" "tk_holder t = entry_id e" "tk_owner t = ow" "tk_transaction t = x"
    "tk_queue_root t = qr" "qr \<noteq> []" "x \<noteq> []" "tk_activation_ready t = binding_ready e"
  using assms by (auto simp: ticket_create_def split: sum.splits if_splits)

lemma journal_decodeD:
  assumes "journal_decode env x rec = Inr t"
  shows "t = p_ticket rec" "ticket_create env (queue_root env) (p_scope rec) (p_entry rec) (tk_owner t) x = Inr t"
    "p_capacity_root rec = cap_root env"
  using assms by (auto simp: journal_decode_def split: sum.splits if_splits)

lemma journal_decodeI:
  "ticket_create env (queue_root env) n e ow x = Inr t \<Longrightarrow>
   journal_decode env x (journal_record env oper n e t) = Inr t"
  using ticket_createD(3) [of env "queue_root env" n e ow x t]
  by (simp add: journal_decode_def journal_record_def)

lemma journal_decode_phase [simp]: "journal_decode env x (rec\<lparr>p_phase := p\<rparr>) = journal_decode env x rec"
  by (simp add: journal_decode_def split: sum.split)

lemma journal_record_simps [simp]:
  "p_scope (journal_record env oper n e t) = n" "p_entry (journal_record env oper n e t) = e"
  "p_ticket (journal_record env oper n e t) = t" "p_operation (journal_record env oper n e t) = oper"
  by (simp_all add: journal_record_def)

lemma claim_record_simps [simp]:
  "c_entry (claim_record e ow x ep now) = e" "c_owner (claim_record e ow x ep now) = ow"
  "c_transaction (claim_record e ow x ep now) = x" "c_harness (claim_record e ow x ep now) = harness e"
  "claim_matches_entry (claim_record e ow x ep now)"
  by (simp_all add: claim_record_def claim_matches_entry_def)

lemma journal_ticketD:
  assumes "journal_ticket env n i c = Inr t"
  shows "claim_matches_entry c" "ticket_create env (queue_root env) n (c_entry c) (c_owner c) (c_transaction c) = Inr t"
    "tk_key t = c_harness c"
  using assms by (auto simp: journal_ticket_def claim_matches_entry_def dest: ticket_createD(1) split: if_splits)

lemma claim_okE:
  assumes "claim_ok env n i c"
  obtains t where "journal_ticket env n i c = Inr t" "tk_key t = c_harness c" "tk_holder t = i"
    "tk_owner t = c_owner c" "tk_transaction t = c_transaction c" "tk_queue_root t = queue_root env"
  using assms unfolding claim_ok_def
  by (metis (no_types, lifting) claim_matches_entry_def journal_ticket_def ticket_createD(1-5))

lemma same_slotD:
  assumes "same_slot sl t"
  obtains m where "slot_queue sl = Some m" "mk_transaction m = tk_transaction t" "mk_queue_root m = tk_queue_root t"
    "slot_owner sl = tk_owner t"
proof -
  from assms obtain m where m: "slot_queue sl = Some m" "m\<lparr>mk_phase := Pending\<rparr> = ticket_marker t Pending"
      "slot_owner sl = tk_owner t"
    by (auto simp: same_slot_def split: option.splits)
  from m(2) have "mk_transaction m = tk_transaction t \<and> mk_queue_root m = tk_queue_root t"
    by (cases m) (simp add: ticket_marker_def)
  with m that show ?thesis by blast
qed

lemma same_slot_set_phase [simp]: "same_slot (set_phase p sl) t = same_slot sl t"
  by (cases "slot_queue sl") (simp_all add: same_slot_def set_phase_def valid_marker_def)

lemma slot_phase_set_phase [simp]: "slot_queue sl \<noteq> None \<Longrightarrow> slot_phase (set_phase p sl) = p"
  by (auto simp: slot_phase_def set_phase_def)

subsection \<open>Each change of the abstract queue\<close>

lemma set_pending_inv:
  assumes inv: "queue_inv env k a v" and dec: "journal_decode env x rec = Inr (p_ticket rec)"
    and sc: "p_scope rec \<in> aq_scopes a" and x: "x \<in> uuid4 env ` {..<k}"
    and claims: "\<And>n i c. aq_claims a n i = Some c \<Longrightarrow> c_transaction c = x \<Longrightarrow>
        p_scope rec = n \<and> p_entry rec = c_entry c \<and> tk_owner (p_ticket rec) = c_owner c"
    and old: "\<And>r. aq_pend a x = Some r \<Longrightarrow> p_ticket r = p_ticket rec"
  shows "queue_inv env k (a\<lparr>aq_pend := (aq_pend a)(x \<mapsto> rec)\<rparr>) v"
proof -
  note p = inv_parts [OF inv]
  have "covered (a\<lparr>aq_pend := (aq_pend a)(x \<mapsto> rec)\<rparr>) kk h m" if "covered a kk h m" for kk h m
    using that old unfolding covered_def by auto
  then have "slots_inv env (a\<lparr>aq_pend := (aq_pend a)(x \<mapsto> rec)\<rparr>) v"
    using p(3) by (auto simp: slots_inv_def split: if_splits)
  moreover have "journal_inv env (a\<lparr>aq_pend := (aq_pend a)(x \<mapsto> rec)\<rparr>)"
    using p(2) dec sc claims unfolding journal_inv_def by (auto split: if_splits)
  moreover have "entries_inv (a\<lparr>aq_pend := (aq_pend a)(x \<mapsto> rec)\<rparr>)"
    using p(1) by (simp add: entries_inv_def)
  moreover have "in_use env (a\<lparr>aq_pend := (aq_pend a)(x \<mapsto> rec)\<rparr>) v \<subseteq> uuid4 env ` {..<k}"
    using p(4) x by (auto simp: in_use_def)
  ultimately show ?thesis by (simp add: queue_inv_def)
qed

lemma del_pending_inv:
  assumes inv: "queue_inv env k a v"
    and claims: "\<And>n i c. aq_claims a n i = Some c \<Longrightarrow> c_transaction c = x \<Longrightarrow> paired env v n i c"
    and slots: "\<And>kk h m. own_marker env v kk h m \<Longrightarrow> mk_transaction m = x \<Longrightarrow>
        \<exists>n c. aq_claims a n h = Some c \<and> c_transaction c = x \<and> c_harness c = kk"
  shows "queue_inv env k (a\<lparr>aq_pend := (aq_pend a)(x := None)\<rparr>) v"
proof -
  note p = inv_parts [OF inv]
  have "covered (a\<lparr>aq_pend := (aq_pend a)(x := None)\<rparr>) kk h m" if "own_marker env v kk h m" for kk h m
    using p(3) that slots [OF that] unfolding slots_inv_def covered_def by (cases "mk_transaction m = x") auto
  then have "slots_inv env (a\<lparr>aq_pend := (aq_pend a)(x := None)\<rparr>) v"
    using p(3) claims by (auto simp: slots_inv_def split: if_splits)
  moreover have "journal_inv env (a\<lparr>aq_pend := (aq_pend a)(x := None)\<rparr>)"
    using p(2) unfolding journal_inv_def by (auto split: if_splits)
  moreover have "entries_inv (a\<lparr>aq_pend := (aq_pend a)(x := None)\<rparr>)"
    using p(1) by (simp add: entries_inv_def)
  moreover have "in_use env (a\<lparr>aq_pend := (aq_pend a)(x := None)\<rparr>) v \<subseteq> uuid4 env ` {..<k}"
    using p(4) by (auto simp: in_use_def split: if_splits)
  ultimately show ?thesis by (simp add: queue_inv_def)
qed

lemma inv_other_fields:
  assumes "queue_inv env k a v" and "entries_inv a'"
    and "aq_pend a' = aq_pend a" and "aq_scopes a \<subseteq> aq_scopes a'"
    and "\<And>n i c. aq_claims a' n i = Some c \<Longrightarrow> aq_claims a n i = Some c"
    and "\<And>n i c. aq_claims a n i = Some c \<Longrightarrow> aq_claims a' n i \<noteq> Some c \<Longrightarrow> aq_pend a (c_transaction c) \<noteq> None"
  shows "queue_inv env k a' v"
proof -
  note p = inv_parts [OF assms(1)]
  have j: "journal_inv env a'"
  proof (rule journal_invI)
    fix n i c rec assume c: "aq_claims a' n i = Some c" and rec: "aq_pend a' (c_transaction c) = Some rec"
    from journal_claimD(3) [OF p(2) assms(5) [OF c] rec [unfolded assms(3)]]
    show "p_scope rec = n \<and> p_entry rec = c_entry c \<and> tk_owner (p_ticket rec) = c_owner c" .
  qed (use journal_claimD(1,2) [OF p(2)] journal_pendD [OF p(2)] assms(3-5) in \<open>auto dest!: assms(5)\<close>)
  have lost: "covered a' kk h m" if c: "aq_claims a n h = Some c" "c_transaction c = mk_transaction m" "c_harness c = kk"
        "aq_claims a' n h \<noteq> Some c" for kk h m n c
  proof -
    from c obtain rec where rec: "aq_pend a (c_transaction c) = Some rec" using assms(6) by blast
    have "claim_ok env n h c" by (rule journal_claimD(1) [OF p(2) c(1)])
    moreover have "ticket_create env (queue_root env) n (c_entry c) (c_owner c) (c_transaction c) = Inr (p_ticket rec)"
      using journal_decodeD(2) [OF journal_pendD(1) [OF p(2) rec]] journal_claimD(3) [OF p(2) c(1) rec] by simp
    ultimately have "tk_key (p_ticket rec) = kk \<and> tk_holder (p_ticket rec) = h"
      using c(3) ticket_createD(1,2) by (auto simp: claim_ok_def claim_matches_entry_def)
    then show ?thesis using rec c(2) assms(3) by (auto simp: covered_def)
  qed
  have "covered a' kk h m" if "covered a kk h m" for kk h m
  proof (rule covered_transfer [OF that])
    fix n c assume c: "aq_claims a n h = Some c" "c_transaction c = mk_transaction m" "c_harness c = kk"
    show "(\<exists>c'. aq_claims a' n h = Some c' \<and> c_transaction c' = c_transaction c \<and> c_harness c' = c_harness c)
        \<or> covered a' kk h m"
    proof (cases "aq_claims a' n h = Some c")
      case False
      from lost [OF c False] show ?thesis by (rule disjI2)
    qed blast
  qed (simp add: assms(3))
  then have "slots_inv env a' v"
    using p(3) assms(3,5) unfolding slots_inv_def by auto
  moreover have "in_use env a' v \<subseteq> in_use env a v"
    unfolding in_use_def assms(3) using assms(5) by blast
  ultimately show ?thesis using assms(2) j p(4) by (auto simp: queue_inv_def)
qed

lemma drop_claim_inv:
  assumes inv: "queue_inv env k a v" and c: "aq_claims a n i = Some c" and pend: "aq_pend a (c_transaction c) \<noteq> None"
  shows "queue_inv env k (a\<lparr>aq_claims := (aq_claims a)(n := (aq_claims a n)(i := None))\<rparr>) v" (is "queue_inv env k ?a v")
proof (rule inv_other_fields [OF inv])
  have "items ?a \<subseteq> items a" by (auto simp: items_def split: if_splits)
  then show "entries_inv ?a"
    using entries_transfer [OF inv_parts(1) [OF inv], of ?a "\<lambda>n w e. w"] entries_sorted [OF inv_parts(1) [OF inv]]
    by auto
qed (use c pend in \<open>auto split: if_splits\<close>)

lemma sorted_wrt_requeue:
  assumes "sorted_wrt (<) (map seq ws)" and "seq e \<notin> seq ` set ws"
  shows "sorted_wrt (<) (map seq (sort_key seq (ws @ [e])))"
proof -
  have "distinct (map seq (ws @ [e]))" using assms by (auto simp: strict_sorted_iff)
  then have "distinct (map seq (sort_key seq (ws @ [e])))" by (auto simp: distinct_map)
  then show ?thesis by (simp only: strict_sorted_iff sorted_sort_key simp_thms)
qed

lemma requeue_inv:
  assumes inv: "queue_inv env k a v" and c: "aq_claims a n i = Some c" and pend: "aq_pend a (c_transaction c) \<noteq> None"
  shows "queue_inv env k (a\<lparr>aq_claims := (aq_claims a)(n := (aq_claims a n)(i := None)),
      aq_waits := (aq_waits a)(n := sort_key seq (aq_waits a n @ [c_entry c]))\<rparr>) v" (is "queue_inv env k ?a v")
proof (rule inv_other_fields [OF inv])
  note e = inv_parts(1) [OF inv] and j = inv_parts(2) [OF inv]
  have i: "i = entry_id (c_entry c)" using journal_claimD(1) [OF j c] by (simp add: claim_ok_def)
  have gone: "(n, False, c_entry c) \<notin> items ?a"
    using i by (auto simp: items_def split: if_splits dest: journal_claimD(1) [OF j] simp: claim_ok_def)
  have here: "(n, False, c_entry c) \<in> items a" by (rule items_claims [OF c])
  show "entries_inv ?a"
  proof (rule entries_transfer [OF e, where g = "\<lambda>n' w e. if n' = n \<and> e = c_entry c then False else w"])
    fix m
    have "seq (c_entry c) \<notin> seq ` set (aq_waits a n)"
      using entries_unique [OF e here items_waits] by fastforce
    then show "sorted_wrt (<) (map seq (aq_waits ?a m))"
      using entries_sorted [OF e] sorted_wrt_requeue by auto
  next
    fix m w x assume "(m, w, x) \<in> items ?a"
    with here show "(m, if m = n \<and> x = c_entry c then False else w, x) \<in> items a"
      by (auto simp: items_def split: if_splits)
  next
    fix m w w' x
    assume "(m, w, x) \<in> items ?a" "(m, w', x) \<in> items ?a"
      "(if m = n \<and> x = c_entry c then False else w) = (if m = n \<and> x = c_entry c then False else w')"
    with gone show "w = w'" by (cases w; cases w') (auto split: if_splits)
  qed simp_all
qed (use c pend in \<open>auto split: if_splits\<close>)

lemma claim_publish_inv:
  assumes inv: "queue_inv env k a v" and w: "aq_waits a n = e # ws" and pend: "aq_pend a x = Some rec"
    and rec: "p_scope rec = n" "p_entry rec = e" "tk_owner (p_ticket rec) = c_owner c"
    and c: "c_entry c = e" "c_transaction c = x" "claim_matches_entry c"
    and fresh: "\<And>n i c'. aq_claims a n i = Some c' \<Longrightarrow> c_transaction c' \<noteq> x"
  shows "queue_inv env k (a\<lparr>aq_waits := (aq_waits a)(n := ws),
      aq_claims := (aq_claims a)(n := (aq_claims a n)(entry_id e \<mapsto> c))\<rparr>) v" (is "queue_inv env k ?a v")
proof -
  note p = inv_parts [OF inv]
  have here: "(n, True, e) \<in> items a" using w by (simp add: items_waits)
  have strict: "e \<notin> set ws" using entries_sorted [OF p(1), of n] w by auto
  have ok: "claim_ok env n (entry_id e) c"
    using journal_decodeD(2) [OF journal_pendD(1) [OF p(2) pend]] rec c by (auto simp: claim_ok_def)
  have "entries_inv ?a"
  proof (rule entries_transfer [OF p(1), where g = "\<lambda>n' w e'. if n' = n \<and> e' = e then True else w"])
    fix m show "sorted_wrt (<) (map seq (aq_waits ?a m))"
      using entries_sorted [OF p(1), of m] w by (auto split: if_splits)
  next
    fix m b y assume "(m, b, y) \<in> items ?a"
    with here w c(1) show "(m, if m = n \<and> y = e then True else b, y) \<in> items a"
      by (auto simp: items_def split: if_splits)
  next
    fix m b b' y
    assume *: "(m, b, y) \<in> items ?a" "(m, b', y) \<in> items ?a"
      "(if m = n \<and> y = e then True else b) = (if m = n \<and> y = e then True else b')"
    have "(n, True, e) \<notin> items ?a" using strict by (auto simp: items_def)
    with * show "b = b'" by (cases b; cases b') (auto split: if_splits)
  qed simp_all
  moreover have "journal_inv env ?a"
    by (rule journal_invI)
      (use journal_claimD [OF p(2)] journal_pendD [OF p(2)] ok fresh c(1,2) rec pend in \<open>auto split: if_splits\<close>)
  moreover have "slots_inv env ?a v"
  proof -
    have free: "aq_claims a n (entry_id e) = None"
    proof (rule ccontr)
      assume "aq_claims a n (entry_id e) \<noteq> None"
      then obtain c' where c': "aq_claims a n (entry_id e) = Some c'" by blast
      then have "entry_id (c_entry c') = entry_id e"
        using journal_claimD(1) [OF p(2)] by (auto simp: claim_ok_def)
      with entries_unique [OF p(1) items_claims [OF c'] here] show False by auto
    qed
    have "covered ?a kk h m" if "covered a kk h m" for kk h m
      by (rule covered_transfer [OF that]) (use free in auto)
    then show ?thesis using p(3) c(2) pend by (auto simp: slots_inv_def split: if_splits)
  qed
  moreover have "in_use env ?a v \<subseteq> in_use env a v"
  proof
    fix y assume "y \<in> in_use env ?a v"
    then consider "y = x" | m j c' where "aq_claims a m j = Some c'" "c_transaction c' = y" | "aq_pend a y \<noteq> None"
      | kk h m where "own_marker env v kk h m" "mk_transaction m = y"
      using c(2) unfolding in_use_iff by (auto split: if_splits)
    then show "y \<in> in_use env a v"
      by cases (use pend in \<open>auto simp: in_use_def\<close>)
  qed
  ultimately show ?thesis using p(4) by (auto simp: queue_inv_def)
qed

text \<open>A claim rewritten without touching its owner, binding, entry or transaction.\<close>

definition same_claim :: "claim \<Rightarrow> claim \<Rightarrow> bool" where
  "same_claim c c' \<longleftrightarrow> c_entry c' = c_entry c \<and> c_owner c' = c_owner c \<and> c_transaction c' = c_transaction c
     \<and> c_user c' = c_user c \<and> c_harness c' = c_harness c \<and> c_session_id c' = c_session_id c
     \<and> c_config_digest c' = c_config_digest c"

lemma same_claimD:
  assumes "same_claim c c'"
  shows "c_entry c' = c_entry c" "c_owner c' = c_owner c" "c_transaction c' = c_transaction c"
    "c_harness c' = c_harness c" "claim_matches_entry c' = claim_matches_entry c"
    "journal_ticket env n i c' = journal_ticket env n i c"
  using assms by (simp_all add: same_claim_def claim_matches_entry_def journal_ticket_def)

lemma set_claim_inv:
  assumes inv: "queue_inv env k a v" and c: "aq_claims a n i = Some c" and same: "same_claim c c'"
  shows "queue_inv env k (a\<lparr>aq_claims := (aq_claims a)(n := (aq_claims a n)(i \<mapsto> c'))\<rparr>) v" (is "queue_inv env k ?a v")
proof -
  note p = inv_parts [OF inv] and s = same_claimD [OF same]
  have old: "\<exists>c0. aq_claims a m j = Some c0 \<and> same_claim c0 c1" if "aq_claims ?a m j = Some c1" for m j c1
    using that c same by (auto simp: same_claim_def split: if_splits)
  have new: "\<exists>c1. aq_claims ?a m j = Some c1 \<and> same_claim c0 c1" if "aq_claims a m j = Some c0" for m j c0
    using that c same by (auto simp: same_claim_def)
  have "items ?a \<subseteq> items a"
  proof
    fix x assume "x \<in> items ?a" then show "x \<in> items a"
    proof (cases rule: itemsE)
      case (2 m j c1)
      from old [OF 2(2)] obtain c2 where c2: "aq_claims a m j = Some c2" "same_claim c2 c1" by blast
      from items_claims [OF c2(1)] same_claimD(1) [OF c2(2)] 2(1) show ?thesis by simp
    qed (simp add: items_waits)
  qed
  moreover have "items a \<subseteq> items ?a"
  proof
    fix x assume "x \<in> items a" then show "x \<in> items ?a"
    proof (cases rule: itemsE)
      case (2 m j c1)
      from new [OF 2(2)] obtain c2 where c2: "aq_claims ?a m j = Some c2" "same_claim c1 c2" by blast
      from items_claims [OF c2(1)] same_claimD(1) [OF c2(2)] 2(1) show ?thesis by simp
    qed (simp add: items_iff)
  qed
  ultimately have "items ?a = items a" by blast
  then have "entries_inv ?a" using p(1) by (simp add: entries_inv_def)
  moreover have "journal_inv env ?a"
  proof (rule journal_invI)
    fix m j c1 assume "aq_claims ?a m j = Some c1"
    from old [OF this] obtain c0 where c0: "aq_claims a m j = Some c0" "same_claim c0 c1" by blast
    show "claim_ok env m j c1"
      using journal_claimD(1) [OF p(2) c0(1)] same_claimD [OF c0(2)] by (simp add: claim_ok_def)
    show "p_scope rec = m \<and> p_entry rec = c_entry c1 \<and> tk_owner (p_ticket rec) = c_owner c1"
      if "aq_pend ?a (c_transaction c1) = Some rec" for rec
      using journal_claimD(3) [OF p(2) c0(1)] that same_claimD [OF c0(2)] by simp
    show "m = m' \<and> j = j'" if "aq_claims ?a m' j' = Some c2" "c_transaction c1 = c_transaction c2" for m' j' c2
    proof -
      from old [OF that(1)] obtain c3 where c3: "aq_claims a m' j' = Some c3" "same_claim c3 c2" by blast
      show ?thesis
        using journal_claimD(2) [OF p(2) c0(1) c3(1)] that(2) same_claimD(3) [OF c0(2)] same_claimD(3) [OF c3(2)] by simp
    qed
  qed (use journal_pendD [OF p(2)] in auto)
  moreover have "slots_inv env ?a v"
  proof -
    have "covered ?a kk h m" if "covered a kk h m" for kk h m
      by (rule covered_transfer [OF that]) (use c s in auto)
    moreover have "paired env v m j c1" if "aq_claims ?a m j = Some c1" "aq_pend ?a (c_transaction c1) = None" for m j c1
    proof -
      from old [OF that(1)] obtain c0 where c0: "aq_claims a m j = Some c0" "same_claim c0 c1" by blast
      with that(2) p(3) have "paired env v m j c0" by (simp add: slots_inv_def same_claimD(3))
      then show ?thesis using same_claimD [OF c0(2)] by (simp add: paired_def)
    qed
    ultimately show ?thesis using p(3) by (auto simp: slots_inv_def)
  qed
  moreover have "in_use env ?a v \<subseteq> in_use env a v"
  proof
    fix y assume "y \<in> in_use env ?a v"
    then consider m j c1 where "aq_claims ?a m j = Some c1" "c_transaction c1 = y" | "aq_pend a y \<noteq> None"
      | kk h m where "own_marker env v kk h m" "mk_transaction m = y"
      unfolding in_use_iff by auto
    then show "y \<in> in_use env a v"
    proof cases
      case (1 m j c1)
      with old [OF 1(1)] show ?thesis using same_claimD(3) by (auto simp: in_use_def)
    qed (auto simp: in_use_def)
  qed
  ultimately show ?thesis using p(4) by (auto simp: queue_inv_def)
qed

lemma add_scope_inv:
  "queue_inv env k a v \<Longrightarrow> queue_inv env k (a\<lparr>aq_scopes := insert n (aq_scopes a)\<rparr>) v"
proof (rule inv_other_fields)
  assume "queue_inv env k a v"
  then have "entries_inv a" by (simp add: queue_inv_def)
  then show "entries_inv (a\<lparr>aq_scopes := insert n (aq_scopes a)\<rparr>)"
    by (rule entries_transfer [where g = "\<lambda>n w e. w"]) (auto simp: items_def entries_sorted \<open>entries_inv a\<close>)
qed auto

text \<open>Entries that leave the waiting list.\<close>

lemma fewer_waits_inv:
  assumes inv: "queue_inv env k a v" and ws: "\<exists>f. ws = filter f (aq_waits a n)"
  shows "queue_inv env k (a\<lparr>aq_waits := (aq_waits a)(n := ws)\<rparr>) v" (is "queue_inv env k ?a v")
proof (rule inv_other_fields [OF inv])
  note e = inv_parts(1) [OF inv]
  show "entries_inv ?a"
  proof (rule entries_transfer [OF e, where g = "\<lambda>n w e. w"])
    fix m show "sorted_wrt (<) (map seq (aq_waits ?a m))"
      using entries_sorted [OF e] ws by (auto simp: sorted_wrt_map intro: sorted_wrt_filter)
  next
    fix m w x assume "(m, w, x) \<in> items ?a" then show "(m, w, x) \<in> items a"
      using ws by (auto simp: items_iff split: if_splits)
  qed simp_all
qed auto

text \<open>A new entry at the end of its scope, with the next sequence number.\<close>

lemma append_inv:
  assumes inv: "queue_inv env k a v" and e: "valid_waiting e" "seq e = aq_seq a + 1"
    and fresh: "\<And>n w x. (n, w, x) \<in> items a \<Longrightarrow> entry_id x \<noteq> entry_id e"
  shows "queue_inv env k (a\<lparr>aq_seq := aq_seq a + 1, aq_scopes := insert n (aq_scopes a),
      aq_waits := (aq_waits a)(n := aq_waits a n @ [e])\<rparr>) v" (is "queue_inv env k ?a v")
proof (rule inv_other_fields [OF inv])
  note ent = inv_parts(1) [OF inv]
  have items: "items ?a = insert (n, True, e) (items a)"
    by (auto simp: items_def split: if_splits)
  have below: "seq x \<le> aq_seq a" if "(m, w, x) \<in> items a" for m w x
    using entries_itemD(4) [OF ent that] .
  have "sorted_wrt (<) (map seq (aq_waits ?a m))" for m
    using entries_sorted [OF ent, of m] below [OF items_waits] e(2) by (fastforce simp: sorted_wrt_append)
  moreover have "x = y" if "x \<in> items ?a" "y \<in> items ?a"
    "entry_id (snd (snd x)) = entry_id (snd (snd y)) \<or> seq (snd (snd x)) = seq (snd (snd y))" for x y
  proof (cases "x = (n, True, e) \<or> y = (n, True, e)")
    case True
    with that show ?thesis using fresh below e(2) by (cases x; cases y) (fastforce simp: items)
  next
    case False
    with that items have "x \<in> items a" "y \<in> items a" by auto
    with ent that(3) show ?thesis unfolding entries_inv_def by blast
  qed
  moreover have low: "0 \<le> aq_seq a" using ent by (simp add: entries_inv_def)
  moreover have "m \<in> aq_scopes ?a \<and> valid_waiting x \<and> 1 \<le> seq x \<and> seq x \<le> aq_seq ?a" if "(m, w, x) \<in> items ?a" for m w x
  proof (cases "(m, w, x) = (n, True, e)")
    case False
    with that have "(m, w, x) \<in> items a" unfolding items by blast
    from entries_itemD [OF ent this] show ?thesis by auto
  qed (use e low in auto)
  ultimately show "entries_inv ?a" by (intro entries_invI) auto
qed auto

subsection \<open>Changes of the slots that keep the invariant\<close>

lemma own_markerI:
  "v k h = Some sl \<Longrightarrow> slot_queue sl = Some m \<Longrightarrow> mk_queue_root m = queue_root env \<Longrightarrow> own_marker env v k h m"
  by (auto simp: own_marker_def)

text \<open>Every slot of the new view is one of the old view up to its phase, or carries no marker of this
  queue, or a transaction whose journal record names its place.\<close>

lemma view_inv:
  assumes inv: "queue_inv env k a v"
    and own: "\<And>kk h m. own_marker env v' kk h m \<Longrightarrow>
        (\<exists>m0. own_marker env v kk h m0 \<and> mk_transaction m0 = mk_transaction m)
        \<or> (\<exists>rec. aq_pend a (mk_transaction m) = Some rec \<and> tk_key (p_ticket rec) = kk \<and> tk_holder (p_ticket rec) = h)"
    and pair: "\<And>n i c. aq_claims a n i = Some c \<Longrightarrow> aq_pend a (c_transaction c) = None \<Longrightarrow> paired env v n i c
        \<Longrightarrow> paired env v' n i c"
  shows "queue_inv env k a v'"
proof -
  note p = inv_parts [OF inv]
  have cov: "covered a kk h m" if "own_marker env v' kk h m" for kk h m
    using own [OF that]
  proof
    assume "\<exists>m0. own_marker env v kk h m0 \<and> mk_transaction m0 = mk_transaction m"
    then obtain m0 where m0: "own_marker env v kk h m0" "mk_transaction m0 = mk_transaction m" by blast
    from p(3) m0(1) have "covered a kk h m0" by (simp add: slots_inv_def)
    with m0(2) show ?thesis by (simp add: covered_def)
  qed (simp add: covered_def)
  then have "slots_inv env a v'" using p(3) pair by (auto simp: slots_inv_def)
  moreover have "in_use env a v' \<subseteq> in_use env a v"
  proof
    fix x assume "x \<in> in_use env a v'"
    then consider "x \<in> in_use env a v" | kk h m where "own_marker env v' kk h m" "mk_transaction m = x"
      unfolding in_use_iff by blast
    then show "x \<in> in_use env a v"
    proof cases
      case (2 kk h m)
      from cov [OF 2(1)] 2(2) show ?thesis unfolding in_use_iff covered_def by auto
    qed
  qed
  ultimately show ?thesis using p by (auto simp: queue_inv_def)
qed

text \<open>The slot of a journaled transaction may change as long as it stays that transaction's.\<close>

lemma pending_slot_inv:
  assumes inv: "queue_inv env k a v" and pend: "aq_pend a (tk_transaction t) = Some rec" "p_ticket rec = t"
    and old: "\<And>sl. tk_slot v t = Some sl \<Longrightarrow> same_slot sl t"
    and new: "\<And>sl m. so = Some sl \<Longrightarrow> slot_queue sl = Some m \<Longrightarrow> mk_transaction m = tk_transaction t"
  shows "queue_inv env k a (set_tk_slot v t so)"
proof (rule view_inv [OF inv])
  fix kk h m assume *: "own_marker env (set_tk_slot v t so) kk h m"
  show "(\<exists>m0. own_marker env v kk h m0 \<and> mk_transaction m0 = mk_transaction m)
      \<or> (\<exists>rec. aq_pend a (mk_transaction m) = Some rec \<and> tk_key (p_ticket rec) = kk \<and> tk_holder (p_ticket rec) = h)"
  proof (cases "kk = tk_key t \<and> h = tk_holder t")
    case True
    with * obtain sl where sl: "so = Some sl" "slot_queue sl = Some m" by (auto simp: own_marker_def upd_slot_apply)
    from new [OF sl] have "mk_transaction m = tk_transaction t" .
    then show ?thesis using True pend by auto
  qed (use * in \<open>auto simp: own_marker_def upd_slot_apply\<close>)
next
  fix n i c assume c: "aq_claims a n i = Some c" "aq_pend a (c_transaction c) = None" and pair: "paired env v n i c"
  then obtain sl t0 where sl: "v (c_harness c) i = Some sl" "journal_ticket env n i c = Inr t0" "same_slot sl t0"
      "slot_phase sl = Selected \<or> slot_phase sl = Activated" by (auto simp: paired_def)
  have "tk_transaction t0 = c_transaction c" using ticket_createD(4) [OF journal_ticketD(2) [OF sl(2)]] .
  with sl(3) c(2) pend old have "\<not> (c_harness c = tk_key t \<and> i = tk_holder t)"
    by (metis option.distinct(1) option.inject same_slotD sl(1))
  then have "set_tk_slot v t so (c_harness c) i = Some sl" using sl(1) by (auto simp: upd_slot_apply)
  with sl show "paired env (set_tk_slot v t so) n i c" by (auto simp: paired_def)
qed

lemma activate_inv:
  assumes inv: "queue_inv env k a v" and sl: "v kk h = Some sl"
  shows "queue_inv env k a (upd_slot v kk h (Some (set_phase Activated sl)))"
proof (rule view_inv [OF inv])
  fix k' h' m assume "own_marker env (upd_slot v kk h (Some (set_phase Activated sl))) k' h' m"
  then show "(\<exists>m0. own_marker env v k' h' m0 \<and> mk_transaction m0 = mk_transaction m)
      \<or> (\<exists>rec. aq_pend a (mk_transaction m) = Some rec \<and> tk_key (p_ticket rec) = k' \<and> tk_holder (p_ticket rec) = h')"
    using sl by (auto simp: own_marker_def upd_slot_apply set_phase_def split: if_splits)
next
  fix n i c assume "paired env v n i c"
  then show "paired env (upd_slot v kk h (Some (set_phase Activated sl))) n i c"
    using sl by (fastforce simp: paired_def upd_slot_apply split: if_splits dest: same_slot_queue)
qed

text \<open>Slots without a queue marker come and go.\<close>

lemma ordinary_slot_inv:
  assumes inv: "queue_inv env k a v" and old: "\<And>sl. v kk h = Some sl \<Longrightarrow> slot_queue sl = None"
    and new: "\<And>sl. so = Some sl \<Longrightarrow> slot_queue sl = None"
  shows "queue_inv env k a (upd_slot v kk h so)"
proof (rule view_inv [OF inv])
  fix k' h' m assume "own_marker env (upd_slot v kk h so) k' h' m"
  then show "(\<exists>m0. own_marker env v k' h' m0 \<and> mk_transaction m0 = mk_transaction m)
      \<or> (\<exists>rec. aq_pend a (mk_transaction m) = Some rec \<and> tk_key (p_ticket rec) = k' \<and> tk_holder (p_ticket rec) = h')"
    using new by (auto simp: own_marker_def upd_slot_apply split: if_splits)
next
  fix n i c assume "paired env v n i c"
  then show "paired env (upd_slot v kk h so) n i c"
    using old by (force simp: paired_def upd_slot_apply split: if_splits dest: same_slot_queue)
qed

lemma same_slot_transaction: "same_slot sl t \<Longrightarrow> slot_queue sl = Some m \<Longrightarrow> mk_transaction m = tk_transaction t"
  by (metis option.inject same_slotD)

lemma set_phase_transaction:
  "same_slot sl t \<Longrightarrow> slot_queue (set_phase p sl) = Some m \<Longrightarrow> mk_transaction m = tk_transaction t"
  by (rule same_slot_transaction [of "set_phase p sl"]) simp_all

lemma pending_slot_transaction: "slot_queue (pending_slot t now) = Some m \<Longrightarrow> mk_transaction m = tk_transaction t"
  by (auto simp: pending_slot_def ticket_marker_def)

lemma journaled_rels_inv:
  assumes inv: "queue_inv env k a v" and pend: "aq_pend a (tk_transaction t) = Some rec" "p_ticket rec = t"
  shows "reserve_rel t limit v v' \<Longrightarrow> queue_inv env k a v'"
    and "transition_rel t p v v' \<Longrightarrow> queue_inv env k a v'"
    and "fence_rel t pre v v' \<Longrightarrow> queue_inv env k a v'"
    and "release_rel t v v' \<Longrightarrow> queue_inv env k a v'"
  using inv
  by (auto simp: slot_rels dest: pending_slot_transaction set_phase_transaction intro!: pending_slot_inv [OF inv pend])

subsection \<open>What holds of a world\<close>

definition durable :: "qworld \<Rightarrow> qdoc option" where
  "durable s = (case queue_file s of Present d \<Rightarrow> Some d | Absent \<Rightarrow> Some q_empty | Unreadable \<Rightarrow> None)"

text \<open>\<open>holds_at env a v s\<close>: the durable queue is \<open>a\<close>, the slots are \<open>v\<close>, and they satisfy the invariant.\<close>

definition holds_at :: "queue_env \<Rightarrow> aqueue \<Rightarrow> slots \<Rightarrow> qworld \<Rightarrow> bool" where
  "holds_at env a v s \<longleftrightarrow> (\<exists>d. durable s = Some d \<and> wf_doc d \<and> abs_q d = a) \<and> slot_view env s = v
     \<and> queue_inv env (next_id s) a v"

definition holds :: "queue_env \<Rightarrow> qworld \<Rightarrow> bool" where
  "holds env s \<longleftrightarrow> (\<exists>a v. holds_at env a v s)"

text \<open>A document that may be published now.\<close>

definition ready :: "queue_env \<Rightarrow> qdoc \<Rightarrow> slots \<Rightarrow> qworld \<Rightarrow> bool" where
  "ready env d v s \<longleftrightarrow> holds env s \<and> wf_doc d \<and> slot_view env s = v \<and> queue_inv env (next_id s) (abs_q d) v"

lemma holds_at_holds: "holds_at env a v s \<Longrightarrow> holds env s"
  by (auto simp: holds_def)

lemma holds_at_ready: "holds_at env (abs_q d) v s \<Longrightarrow> wf_doc d \<Longrightarrow> ready env d v s"
  by (auto simp: ready_def holds_def holds_at_def)

lemma ready_holds: "ready env d v s \<Longrightarrow> holds env s"
  by (simp add: ready_def)

lemma slot_view_frame [simp]:
  "slot_view env (s\<lparr>outcomes := x\<rparr>) = slot_view env s" "slot_view env (s\<lparr>clock_reads := c\<rparr>) = slot_view env s"
  "slot_view env (s\<lparr>next_id := n\<rparr>) = slot_view env s" "slot_view env (s\<lparr>adopted := ad\<rparr>) = slot_view env s"
  "slot_view env (s\<lparr>claimed_owners := co\<rparr>) = slot_view env s"
  by (simp_all add: slot_view_def fun_eq_iff)

lemma slot_view_queue_file [simp]: "slot_view env (s\<lparr>queue_file := f\<rparr>) = slot_view env s"
  by (simp add: slot_view_def fun_eq_iff)

lemma durable_frame [simp]:
  "durable (s\<lparr>outcomes := x\<rparr>) = durable s" "durable (s\<lparr>clock_reads := c\<rparr>) = durable s"
  "durable (s\<lparr>next_id := n\<rparr>) = durable s" "durable (s\<lparr>adopted := ad\<rparr>) = durable s"
  "durable (s\<lparr>claimed_owners := co\<rparr>) = durable s" "durable (s\<lparr>queue_file := Present d\<rparr>) = Some d"
  by (simp_all add: durable_def)

lemma holds_frame [simp]:
  "holds_at env a v (s\<lparr>outcomes := x\<rparr>) = holds_at env a v s" "holds_at env a v (s\<lparr>clock_reads := c\<rparr>) = holds_at env a v s"
  "holds_at env a v (s\<lparr>adopted := ad\<rparr>) = holds_at env a v s" "holds_at env a v (s\<lparr>claimed_owners := co\<rparr>) = holds_at env a v s"
  "holds env (s\<lparr>outcomes := x\<rparr>) = holds env s" "holds env (s\<lparr>clock_reads := c\<rparr>) = holds env s"
  "holds env (s\<lparr>adopted := ad\<rparr>) = holds env s" "holds env (s\<lparr>claimed_owners := co\<rparr>) = holds env s"
  by (simp_all add: holds_at_def holds_def)

lemma ready_frame [simp]:
  "ready env d v (s\<lparr>outcomes := x\<rparr>) = ready env d v s" "ready env d v (s\<lparr>clock_reads := c\<rparr>) = ready env d v s"
  "ready env d v (s\<lparr>adopted := ad\<rparr>) = ready env d v s"
  by (simp_all add: ready_def)

lemma hoare_publish:
  "hoare (ready env d v) (publish d) (\<lambda>_. holds_at env (abs_q d) v) (\<lambda>_. holds env)"
proof -
  have "holds_at env (abs_q d) v (s\<lparr>queue_file := Present (canon d)\<rparr>)" if "ready env d v s" for s
    using that wf_canon [of d] abs_canon [of d] by (auto simp: ready_def holds_at_def)
  then show ?thesis
    unfolding publish_def
    by (intro hoare_conseq [OF hoare_publish_with [where P = "ready env d v" and Q = "holds_at env (abs_q d) v"]])
      (auto dest: ready_holds holds_at_holds)
qed

subsection \<open>Slot operations in a world that satisfies the invariant\<close>

definition keeps_ids :: "('w, 'a) store_prog \<Rightarrow> bool" where
  "keeps_ids p \<longleftrightarrow> (\<forall>n. keeps (\<lambda>s. next_id s = n) p)"

lemma keeps_idsD: "keeps_ids p \<Longrightarrow> next_id (snd (p s)) = next_id s"
  unfolding keeps_ids_def keeps_iff by simp

lemma keeps_ids_bind: "keeps_ids m \<Longrightarrow> (\<And>x. keeps_ids (f x)) \<Longrightarrow> keeps_ids (bindE m f)"
  unfolding keeps_ids_def by (auto intro: keeps_bind)

lemma keeps_ids_basic:
  "keeps_ids (ret x)" "keeps_ids (raise e)" "keeps_ids (gets f)" "keeps_ids (liftE r)" "keeps_ids (guardE b e)"
  "keeps_ids (exclusive_lock e)" "keeps_ids (read_clock env)"
  "(\<And>s. next_id (change s) = next_id s) \<Longrightarrow> keeps_ids (publish_with change e)"
  by (auto simp: keeps_ids_def keeps_iff guardE_def exclusive_lock_def next_outcome_def bindE_def read_clock_def
      publish_with_def split: list.split io_outcome.split)

lemma keeps_ids_if: "keeps_ids m \<Longrightarrow> keeps_ids n \<Longrightarrow> keeps_ids (if b then m else n)"
  by simp

lemma keeps_ids_option: "keeps_ids m \<Longrightarrow> (\<And>y. keeps_ids (f y)) \<Longrightarrow> keeps_ids (case x of None \<Rightarrow> m | Some y \<Rightarrow> f y)"
  by (cases x) simp_all

lemma keeps_ids_load: "keeps_ids (cap_load env key fm)"
proof -
  have "keeps_ids (preserve_backup env key d)" for d
    unfolding preserve_backup_def
    by (intro keeps_ids_bind keeps_ids_option keeps_ids_basic) auto
  then have "keeps_ids (cap_accept env key fm d)" for d
    unfolding cap_accept_def by (intro keeps_ids_bind keeps_ids_if keeps_ids_basic)
  then have "keeps_ids (case f of Unreadable \<Rightarrow> raise CapacityError
      | Absent \<Rightarrow> ret \<lparr> cap_version = 2, cap_key = key, cap_slots = [] \<rparr> | Present d \<Rightarrow> cap_accept env key fm d)" for f
    by (cases f) (auto intro: keeps_ids_basic)
  then show ?thesis
    unfolding cap_load_def by (intro keeps_ids_bind keeps_ids_basic)
qed

lemma keeps_ids_write: "keeps_ids (write_cap env key d e)"
  unfolding write_cap_def by (intro keeps_ids_basic) simp

lemmas keeps_ids_rules = keeps_ids_bind keeps_ids_if keeps_ids_option keeps_ids_load keeps_ids_write keeps_ids_basic(1-7)

lemma keeps_ids_slots:
  "keeps_ids (slots_reserve env t limit)" "keeps_ids (slots_transition env t p)" "keeps_ids (slots_phase env t)"
  "keeps_ids (slots_fence_release env t pre)" "keeps_ids (slots_release env t)"
  unfolding slots_reserve_def slots_transition_def slots_phase_def slots_fence_release_def slots_release_def
  by (intro keeps_ids_rules)+

lemma durable_rest: "rest t = rest s \<Longrightarrow> durable t = durable s"
  by (cases s; cases t) (simp add: rest_def durable_def)

text \<open>An operation on slots whose transition keeps the invariant of the durable queue.\<close>

lemma slot_operation_holds:
  assumes spec: "slot_spec env p R" and ids: "keeps_ids p"
    and inv: "\<And>k r v'. queue_inv env k a v \<Longrightarrow> R r v v' \<Longrightarrow> queue_inv env k a v'"
  shows "hoare (holds_at env a v) p (\<lambda>_ s. \<exists>r v'. R r v v' \<and> holds_at env a v' s)
    (\<lambda>e s. holds env s \<and> (e \<noteq> CapacityError \<longrightarrow> holds_at env a v s))"
proof (rule hoareI)
  fix s assume h: "holds_at env a v s"
  then have s: "seen env v (rest s) s" by (simp add: seen_def holds_at_def)
  note triple = spec [unfolded slot_spec_def, rule_format, of v "rest s"]
  have keep: "holds_at env a v' t" if "seen env v' (rest s) t" "t = snd (p s)" "v' = v \<or> R (rest s) v v'" for v' t
  proof -
    have "queue_inv env (next_id t) a v'"
      using h that inv [of "next_id s" "rest s" v'] keeps_idsD [OF ids, of s]
      by (auto simp: holds_at_def)
    then show ?thesis using h that(1) durable_rest [of t s] by (auto simp: holds_at_def seen_def)
  qed
  show "\<exists>r v'. R r v v' \<and> holds_at env a v' t" if "p s = (Inr x, t)" for x t
  proof -
    from hoareD [OF triple s that] obtain v' where v': "R (rest s) v v'" "seen env v' (rest s) t" by blast
    have "t = snd (p s)" using that by simp
    from keep [OF v'(2) this] v'(1) show ?thesis by blast
  qed
  show "holds env t \<and> (e \<noteq> CapacityError \<longrightarrow> holds_at env a v t)" if "p s = (Inl e, t)" for e t
  proof -
    from hoareD_error [OF triple s that] consider "seen env v (rest s) t"
      | v' where "e = CapacityError" "R (rest s) v v'" "seen env v' (rest s) t" by blast
    moreover have "t = snd (p s)" using that by simp
    ultimately show ?thesis
      by cases (blast dest: keep holds_at_holds)+
  qed
qed

lemma hoare_ex:
  assumes "\<And>x. hoare (P x) m Q E"
  shows "hoare (\<lambda>s. \<exists>x. P x s) m Q E"
  by (rule hoareI) (blast dest: hoareD [OF assms] hoareD_error [OF assms])+

lemma hoare_pure: "(b \<Longrightarrow> hoare P m Q E) \<Longrightarrow> hoare (\<lambda>s. b \<and> P s) m Q E"
  by (cases b) (auto simp: hoare_def)

text \<open>Reading the phase changes nothing at all.\<close>

lemma slots_phase_state: "snd (slots_phase env t s) = s"
  by (auto simp: slots_phase_def bindE_def cap_load_def cap_accept_def guardE_def
      split: stored.split option.split)

lemma slots_phase_triple:
  "hoare P (slots_phase env t)
     (\<lambda>p s. P s \<and> (case p of None \<Rightarrow> tk_slot (slot_view env s) t = None
        | Some p \<Rightarrow> \<exists>sl. tk_slot (slot_view env s) t = Some sl \<and> same_slot sl t \<and> slot_phase sl = p))
     (\<lambda>_. P)"
proof (rule hoareI)
  have spec: "hoare (seen env v r) (slots_phase env t)
     (\<lambda>p s. seen env v r s \<and> (case p of None \<Rightarrow> tk_slot v t = None
        | Some p \<Rightarrow> \<exists>sl. tk_slot v t = Some sl \<and> same_slot sl t \<and> slot_phase sl = p)) (\<lambda>_. seen env v r)" for v r
    unfolding slots_phase_def
    by (rule hoare_bind [OF hoare_cap_load], rule hoare_slot_case)
      (auto intro!: hoare_ret hoare_guard_bind)
  fix s assume P: "P s"
  show "P u \<and> (case x of None \<Rightarrow> tk_slot (slot_view env u) t = None
        | Some p \<Rightarrow> \<exists>sl. tk_slot (slot_view env u) t = Some sl \<and> same_slot sl t \<and> slot_phase sl = p)"
    if "slots_phase env t s = (Inr x, u)" for x u
  proof -
    have us: "u = s" using slots_phase_state [of env t s] that by simp
    show ?thesis
      unfolding us using hoareD [OF spec [of "slot_view env s" "rest s"] _ that] P by (simp add: seen_def)
  qed
  show "P u" if "slots_phase env t s = (Inl e, u)" for e u
    using slots_phase_state [of env t s] that P by simp
qed

lemma slot_rel_holds:
  assumes "slot_spec env p (\<lambda>_. R)" and "keeps_ids p"
    and "\<And>k v'. queue_inv env k a v \<Longrightarrow> R v v' \<Longrightarrow> queue_inv env k a v'"
  shows "hoare (holds_at env a v) p (\<lambda>_ s. \<exists>v'. R v v' \<and> holds_at env a v' s)
    (\<lambda>e s. holds env s \<and> (e \<noteq> CapacityError \<longrightarrow> holds_at env a v s))"
  by (rule hoare_conseq [OF slot_operation_holds [OF assms(1,2)]]) (use assms(3) in auto)

text \<open>The four operations on the slot of a journaled transaction.\<close>

lemma reserve_holds:
  assumes "aq_pend a (tk_transaction t) = Some rec" "p_ticket rec = t"
  shows "hoare (holds_at env a v) (slots_reserve env t limit) (\<lambda>_ s. \<exists>v'. reserve_rel t limit v v' \<and> holds_at env a v' s)
    (\<lambda>e s. holds env s \<and> (e \<noteq> CapacityError \<longrightarrow> holds_at env a v s))"
  by (rule slot_rel_holds [OF slots_reserve_spec keeps_ids_slots(1) journaled_rels_inv(1) [OF _ assms]])

lemma transition_holds:
  assumes "aq_pend a (tk_transaction t) = Some rec" "p_ticket rec = t"
  shows "hoare (holds_at env a v) (slots_transition env t p) (\<lambda>_ s. \<exists>v'. transition_rel t p v v' \<and> holds_at env a v' s)
    (\<lambda>e s. holds env s \<and> (e \<noteq> CapacityError \<longrightarrow> holds_at env a v s))"
  by (rule slot_rel_holds [OF slots_transition_spec keeps_ids_slots(2) journaled_rels_inv(2) [OF _ assms]])

lemma fence_holds:
  assumes "aq_pend a (tk_transaction t) = Some rec" "p_ticket rec = t"
  shows "hoare (holds_at env a v) (slots_fence_release env t pre) (\<lambda>_ s. \<exists>v'. fence_rel t pre v v' \<and> holds_at env a v' s)
    (\<lambda>e s. holds env s \<and> (e \<noteq> CapacityError \<longrightarrow> holds_at env a v s))"
  by (rule slot_rel_holds [OF slots_fence_release_spec keeps_ids_slots(4) journaled_rels_inv(3) [OF _ assms]])

lemma release_holds:
  assumes "aq_pend a (tk_transaction t) = Some rec" "p_ticket rec = t"
  shows "hoare (holds_at env a v) (slots_release env t) (\<lambda>_ s. \<exists>v'. release_rel t v v' \<and> holds_at env a v' s)
    (\<lambda>e s. holds env s \<and> (e \<noteq> CapacityError \<longrightarrow> holds_at env a v s))"
  by (rule slot_rel_holds [OF slots_release_spec keeps_ids_slots(5) journaled_rels_inv(4) [OF _ assms]])


end
