(* ===== verification/Queue_Safety.thy ===== *)
theory Queue_Safety
  imports Queue_Invariant
begin

text \<open>
  Every operation of the queue keeps the invariant of \<open>Queue_Invariant\<close>, whichever of its storage
  accesses fail, and so does every interleaving of operations by any processes.
\<close>

subsection \<open>Fresh transactions\<close>

lemma ready_mono: "ready env d v s \<Longrightarrow> next_id s \<le> n \<Longrightarrow> ready env d v (s\<lparr>next_id := n\<rparr>)"
  by (auto simp: ready_def holds_def holds_at_def intro: queue_inv_mono)

lemma holds_at_mono: "holds_at env a v s \<Longrightarrow> next_id s \<le> n \<Longrightarrow> holds_at env a v (s\<lparr>next_id := n\<rparr>)"
  by (auto simp: holds_at_def intro: queue_inv_mono)

lemma holds_mono: "holds env s \<Longrightarrow> next_id s \<le> n \<Longrightarrow> holds env (s\<lparr>next_id := n\<rparr>)"
  by (auto simp: holds_def intro: holds_at_mono)

definition drawn :: "queue_env \<Rightarrow> string \<Rightarrow> qworld \<Rightarrow> bool" where
  "drawn env x s \<longleftrightarrow> x \<in> uuid4 env ` {..<next_id s}"

lemma fresh_transaction:
  assumes inj: "inj (uuid4 env)"
  shows "hoare (ready env d v) (fresh_uuid env)
    (\<lambda>x s. x \<notin> in_use env (abs_q d) v \<and> (ready env d v s \<and> drawn env x s)) E"
proof (rule hoareI)
  fix s x t assume r: "ready env d v s" and "fresh_uuid env s = (Inr x, t)"
  then have t: "t = s\<lparr>next_id := Suc (next_id s)\<rparr>" "x = uuid4 env (next_id s)"
    by (auto simp: fresh_uuid_def fresh_id_def bindE_def)
  from r have "in_use env (abs_q d) v \<subseteq> uuid4 env ` {..<next_id s}" by (simp add: ready_def queue_inv_def)
  with inj have "x \<notin> in_use env (abs_q d) v" by (auto simp: t inj_def dest!: subsetD)
  moreover have "ready env d v t" unfolding t by (rule ready_mono [OF r]) simp
  ultimately show "x \<notin> in_use env (abs_q d) v \<and> (ready env d v t \<and> drawn env x t)"
    by (auto simp: t drawn_def)
qed (auto simp: fresh_uuid_def fresh_id_def bindE_def)

lemma fresh_uuid_holds_at: "hoare (holds_at env a v) (fresh_uuid env) (\<lambda>_. holds_at env a v) E"
  by (rule hoareI) (auto simp: fresh_uuid_def fresh_id_def bindE_def intro: holds_at_mono)

lemma ready_updI:
  assumes "ready env d v s" and "wf_doc d'" and "queue_inv env (next_id s) (abs_q d') v"
  shows "ready env d' v s"
  using assms by (simp add: ready_def)

lemma holds_at_readyI:
  assumes "holds_at env a v s" and "wf_doc d'" and "queue_inv env (next_id s) a v \<Longrightarrow> queue_inv env (next_id s) (abs_q d') v"
  shows "ready env d' v s"
  using assms by (auto simp: ready_def holds_def holds_at_def)

subsection \<open>Claim\<close>

lemma try_reserve_holds:
  assumes "aq_pend a (tk_transaction t) = Some rec" "p_ticket rec = t"
  shows "hoare (holds_at env a v) (try_reserve env t)
    (\<lambda>b s. if b then \<exists>limit v'. reserve_rel t limit v v' \<and> holds_at env a v' s else holds_at env a v s) (\<lambda>_. holds env)"
proof -
  let ?Q = "\<lambda>b s. if b then \<exists>limit v'. reserve_rel t limit v v' \<and> holds_at env a v' s else holds_at env a v s"
  let ?R = "\<lambda>e s. holds env s \<and> (e \<noteq> CapacityError \<longrightarrow> holds_at env a v s) \<or> holds_at env a v s"
  have res: "hoare (holds_at env a v) (bindE (slots_reserve env t limit) (\<lambda>_. ret True)) ?Q ?R" for limit
    by (rule hoare_bind [where R = "\<lambda>_ s. \<exists>v'. reserve_rel t limit v v' \<and> holds_at env a v' s"],
        rule hoare_conseq [OF reserve_holds [OF assms]]) (auto intro!: hoare_ret)
  have "hoare (holds_at env a v) (bindE (liftE (ceiling_for env (tk_key t))) (\<lambda>limit.
      bindE (slots_reserve env t limit) (\<lambda>_. ret True))) ?Q ?R"
    by (rule hoare_bind [OF hoare_liftE [where Q = "\<lambda>_. holds_at env a v"] res]) auto
  then show ?thesis
    unfolding try_reserve_def
    by (rule hoare_catch) (auto intro!: hoare_if hoare_ret hoare_raise dest: holds_at_holds)
qed

lemma abs_published_claim:
  assumes "scope_of d n \<noteq> None" and "waits d n = e # ws"
  shows "abs_q (set_pending x rec (set_claim n (entry_id e) c (pop_waiting n d)))
    = (abs_q d)\<lparr>aq_pend := (dict_get (q_pending d))(x \<mapsto> rec), aq_waits := (waits d)(n := ws),
        aq_claims := (claim_at d)(n := (claim_at d n)(entry_id e \<mapsto> c))\<rparr>"
proof -
  have pop: "abs_q (pop_waiting n d) = (abs_q d)\<lparr>aq_waits := (waits d)(n := ws)\<rparr>"
    using assms by (simp add: abs_pop_waiting)
  then have "scope_of (pop_waiting n d) n \<noteq> None" "claim_at (pop_waiting n d) = claim_at d"
    using arg_cong [OF pop, of aq_scopes] arg_cong [OF pop, of aq_claims] assms(1)
    by (auto simp: set_eq_iff abs_q_def)
  with pop show ?thesis
    by (simp add: abs_set_pending abs_set_claim)
qed

lemma in_useI:
  "aq_claims a n i = Some c \<Longrightarrow> c_transaction c \<in> in_use env a v"
  "aq_pend a x = Some rec \<Longrightarrow> x \<in> in_use env a v"
  "own_marker env v k h m \<Longrightarrow> mk_transaction m \<in> in_use env a v"
  unfolding in_use_iff by blast+

lemma abs_scope [simp]: "scope_of (set_pending x rec d) n = scope_of d n" "scope_of (del_pending x d) n = scope_of d n"
  "waits (set_pending x rec d) = waits d" "claim_at (set_pending x rec d) = claim_at d"
  "waits (del_pending x d) = waits d" "claim_at (del_pending x d) = claim_at d"
  by (simp_all add: scope_of_def waits_def claim_at_def set_pending_def del_pending_def fun_eq_iff)

lemma pending_set_del [simp]:
  "q_pending (set_pending x rec d) = dict_set x rec (q_pending d)" "q_pending (del_pending x d) = dict_del x (q_pending d)"
  by (simp_all add: set_pending_def del_pending_def)

lemma fresh_docD:
  assumes "x \<notin> in_use env (abs_q d) v"
  shows "claim_at d n i = Some c \<Longrightarrow> c_transaction c \<noteq> x" "dict_get (q_pending d) x = None"
    "own_marker env v k h m \<Longrightarrow> mk_transaction m \<noteq> x"
  using assms by (auto simp: in_use_iff)

text \<open>The three documents a claim publishes.\<close>

lemma claim_intent_ready:
  assumes r: "ready env d v s" and dr: "drawn env x s" and sc: "scope_of d n \<noteq> None"
    and fresh: "x \<notin> in_use env (abs_q d) v" and tk: "ticket_create env (queue_root env) n e ow x = Inr t"
  shows "ready env (set_pending x (journal_record env Op_claim n e t) d) v s"
proof (rule ready_updI [OF r])
  show "wf_doc (set_pending x (journal_record env Op_claim n e t) d)"
    using r by (simp add: ready_def wf_rules)
  have "queue_inv env (next_id s) ((abs_q d)\<lparr>aq_pend := (aq_pend (abs_q d))(x \<mapsto> journal_record env Op_claim n e t)\<rparr>) v"
    by (rule set_pending_inv)
      (use r dr sc fresh_docD [OF fresh] journal_decodeI [OF tk] in \<open>auto simp: ready_def drawn_def\<close>)
  then show "queue_inv env (next_id s) (abs_q (set_pending x (journal_record env Op_claim n e t) d)) v"
    by (simp add: abs_set_pending)
qed

lemma claim_refused_ready:
  assumes h: "holds_at env (abs_q (set_pending x rec d)) v s" and wf: "wf_doc d" and fresh: "x \<notin> in_use env (abs_q d) v"
  shows "ready env (del_pending x (set_pending x rec d)) v s"
proof (rule holds_at_readyI [OF h])
  assume "queue_inv env (next_id s) (abs_q (set_pending x rec d)) v"
  then have "queue_inv env (next_id s) ((abs_q (set_pending x rec d))
      \<lparr>aq_pend := (aq_pend (abs_q (set_pending x rec d)))(x := None)\<rparr>) v"
    by (rule del_pending_inv) (use fresh_docD [OF fresh] in auto)
  then show "queue_inv env (next_id s) (abs_q (del_pending x (set_pending x rec d))) v"
    by (simp add: abs_del_pending)
qed (use wf in \<open>simp add: wf_rules\<close>)

lemma claim_published_ready:
  assumes h: "holds_at env (abs_q (set_pending x rec d)) v s" and wf: "wf_doc d" and sc: "scope_of d n \<noteq> None"
    and head: "waits d n = e # ws" and rec: "p_scope rec = n" "p_entry rec = e" "tk_owner (p_ticket rec) = ow"
    and fresh: "\<And>n i c. claim_at d n i = Some c \<Longrightarrow> c_transaction c \<noteq> x"
  shows "ready env (set_pending x (rec\<lparr>p_phase := Published\<rparr>)
      (set_claim n (entry_id e) (claim_record e ow x ep now) (pop_waiting n (set_pending x rec d)))) v s"
proof (rule holds_at_readyI [OF h])
  let ?a = "abs_q (set_pending x rec d)" and ?rec = "rec\<lparr>p_phase := Published\<rparr>"
  assume inv: "queue_inv env (next_id s) ?a v"
  have pend: "aq_pend ?a x = Some rec" by (simp add: dict_simps)
  have dec: "journal_decode env x rec = Inr (p_ticket rec)" "p_scope rec \<in> aq_scopes ?a"
    using journal_pendD [OF inv_parts(2) [OF inv] pend] by simp_all
  have inv1: "queue_inv env (next_id s) (?a\<lparr>aq_pend := (aq_pend ?a)(x \<mapsto> ?rec)\<rparr>) v"
    by (rule set_pending_inv [OF inv])
      (use dec pend fresh inv_parts(4) [OF inv] in_useI(2) [OF pend] in \<open>auto simp: dict_simps\<close>)
  have "queue_inv env (next_id s) (?a\<lparr>aq_pend := (aq_pend ?a)(x \<mapsto> ?rec), aq_waits := (waits d)(n := ws),
      aq_claims := (claim_at d)(n := (claim_at d n)(entry_id e \<mapsto> claim_record e ow x ep now))\<rparr>) v"
    using claim_publish_inv [OF inv1, of n e ws x ?rec "claim_record e ow x ep now"] head rec fresh
    by (auto simp: dict_simps)
  then show "queue_inv env (next_id s) (abs_q (set_pending x ?rec (set_claim n (entry_id e) (claim_record e ow x ep now)
      (pop_waiting n (set_pending x rec d))))) v"
    using sc head by (subst abs_published_claim) (simp_all add: abs_set_pending update_conv')
qed (use wf in \<open>simp add: wf_rules\<close>)

lemma claim_committed_ready:
  assumes h: "holds_at env (abs_q d) v s" and wf: "wf_doc d"
    and pend: "dict_get (q_pending d) x = Some rec" "p_ticket rec = t"
    and c: "claim_at d n (tk_holder t) = Some c" "c_transaction c = x" "journal_ticket env n (tk_holder t) c = Inr t"
    and sl: "tk_slot v t = Some sl" "same_slot sl t" "slot_phase sl = Selected"
  shows "ready env (del_pending x d) v s"
proof (rule holds_at_readyI [OF h])
  assume inv: "queue_inv env (next_id s) (abs_q d) v"
  note p = inv_parts [OF inv]
  have key: "c_harness c = tk_key t" using journal_ticketD(3) [OF c(3)] by simp
  have pair: "paired env v n (tk_holder t) c" using sl c(3) key by (auto simp: paired_def)
  have "queue_inv env (next_id s) ((abs_q d)\<lparr>aq_pend := (aq_pend (abs_q d))(x := None)\<rparr>) v"
  proof (rule del_pending_inv [OF inv])
    fix m i c' assume c': "aq_claims (abs_q d) m i = Some c'" "c_transaction c' = x"
    from journal_claimD(2) [OF p(2) c'(1), of n "tk_holder t" c] c c' have "m = n" "i = tk_holder t" by auto
    with c'(1) c(1) pair show "paired env v m i c'" by simp
  next
    fix kk h m assume m: "own_marker env v kk h m" "mk_transaction m = x"
    with p(3) have "covered (abs_q d) kk h m" by (simp add: slots_inv_def)
    then show "\<exists>n c. aq_claims (abs_q d) n h = Some c \<and> c_transaction c = x \<and> c_harness c = kk"
      by (cases rule: coveredE) (use m(2) pend c(1,2) key in auto)
  qed
  then show "queue_inv env (next_id s) (abs_q (del_pending x d)) v" by (simp add: abs_del_pending)
qed (use wf in \<open>simp add: wf_rules\<close>)

text \<open>A published document, ready to go on.\<close>

lemma publish_ready: "hoare (ready env d v) (publish d) (\<lambda>_. ready env d v) (\<lambda>_. holds env)"
proof (rule hoareI)
  fix s x t assume r: "ready env d v s" and p: "publish d s = (Inr x, t)"
  from hoareD [OF hoare_publish r p] have "holds_at env (abs_q d) v t" .
  from holds_at_ready [OF this] r show "ready env d v t" by (simp add: ready_def)
next
  fix s e t assume r: "ready env d v s" and p: "publish d s = (Inl e, t)"
  from hoareD_error [OF hoare_publish r p] show "holds env t" .
qed

definition some_ready :: "queue_env \<Rightarrow> qdoc \<Rightarrow> qworld \<Rightarrow> bool" where
  "some_ready env d s \<longleftrightarrow> (\<exists>v. ready env d v s)"

lemma publish_step:
  assumes "\<And>s. P s \<Longrightarrow> ready env d v s" and "hoare (holds_at env (abs_q d) v) m Q (\<lambda>_. holds env)"
  shows "hoare P (bindE (publish d) (\<lambda>_. m)) Q (\<lambda>_. holds env)"
  by (rule hoare_bind [OF hoare_pre [OF hoare_publish assms(1)] assms(2)])

lemma publish_last:
  assumes "\<And>s. P s \<Longrightarrow> ready env d v s" and "\<And>s. ready env d v s \<Longrightarrow> Q x s"
  shows "hoare P (bindE (publish d) (\<lambda>_. ret x)) Q (\<lambda>_. holds env)"
  by (rule hoare_bind [OF hoare_pre [OF publish_ready assms(1)]]) (auto intro: hoare_ret assms(2))

lemma transition_relD:
  assumes "transition_rel t p v v'"
  shows "\<exists>sl. tk_slot v' t = Some sl \<and> same_slot sl t \<and> slot_phase sl = p"
proof -
  from assms obtain sl where sl: "tk_slot v t = Some sl" "same_slot sl t"
      "slot_phase sl = p \<and> v' = v \<or> v' = set_tk_slot v t (Some (set_phase p sl))"
    by (auto simp: transition_rel_def)
  moreover have "slot_phase (set_phase p sl) = p" using same_slot_queue [OF sl(2)] by auto
  ultimately show ?thesis by (auto simp: upd_slot_apply)
qed

lemma journal_claim_ready:
  assumes inj: "inj (uuid4 env)" and sc: "scope_of d n \<noteq> None" and head: "waits d n = e # ws"
  shows "hoare (ready env d v) (journal_claim env d n e ow) (\<lambda>(x, d') s. some_ready env d' s) (\<lambda>_. holds env)"
proof (cases "wf_doc d")
  case False
  then show ?thesis by (auto simp: hoare_def ready_def)
next
  case wf: True
  let ?rec = "\<lambda>t. journal_record env Op_claim n e t" and ?Q = "\<lambda>(x, d') s. some_ready env d' s"
  let ?d1 = "\<lambda>x t. set_pending x (?rec t) d"
  let ?d2 = "\<lambda>x t ep now. set_pending x ((?rec t)\<lparr>p_phase := Published\<rparr>)
      (set_claim n (entry_id e) (claim_record e ow x ep now) (pop_waiting n (?d1 x t)))"
  have commit: "hoare (\<lambda>s. \<exists>v'. transition_rel t Selected v v' \<and> holds_at env (abs_q (?d2 x t ep now)) v' s)
      (bindE (publish (del_pending x (?d2 x t ep now))) (\<lambda>_. ret (Some t, del_pending x (?d2 x t ep now))))
      ?Q (\<lambda>_. holds env)"
    if tk: "ticket_create env (queue_root env) n e ow x = Inr t" for v x t ep now
  proof (rule hoare_ex, rule publish_last)
    fix v' s assume *: "transition_rel t Selected v v' \<and> holds_at env (abs_q (?d2 x t ep now)) v' s"
    then obtain sl where sl: "tk_slot v' t = Some sl" "same_slot sl t" "slot_phase sl = Selected"
      using transition_relD by blast
    have cl: "claim_at (?d2 x t ep now) n (tk_holder t) = Some (claim_record e ow x ep now)"
      using arg_cong [OF abs_published_claim, of "?d1 x t" n e ws aq_claims x] sc head ticket_createD(2) [OF tk] by simp
    show "ready env (del_pending x (?d2 x t ep now)) v' s"
      by (rule claim_committed_ready [where rec = "(?rec t)\<lparr>p_phase := Published\<rparr>", OF conjunct2 [OF *] _ _ _ cl _ _ sl])
        (use tk wf in \<open>simp_all add: dict_simps wf_rules journal_ticket_def\<close>)
  qed (auto simp: some_ready_def)
  have "hoare (ready env d v) (journal_claim env d n e ow) ?Q (\<lambda>_. holds env)"
    unfolding journal_claim_def Let_def
  proof (rule hoare_bind [OF fresh_transaction [OF inj]], rule hoare_pure)
    fix x assume fresh: "x \<notin> in_use env (abs_q d) v"
    show "hoare (\<lambda>s. ready env d v s \<and> drawn env x s) (bindE
      (liftE (case ticket_create env (queue_root env) n e ow x of Inl _ \<Rightarrow> Inl JournalError | Inr t \<Rightarrow> Inr t)) (\<lambda>t.
       bindE (publish (?d1 x t)) (\<lambda>_. bindE (try_reserve env t) (\<lambda>reserved.
         if \<not> reserved then bindE (publish (del_pending x (?d1 x t))) (\<lambda>_. ret (None, del_pending x (?d1 x t)))
         else bindE (liftE (case scope_of (?d1 x t) n of None \<Rightarrow> Inl KeyError | Some sc \<Rightarrow> Inr sc)) (\<lambda>_.
           bindE (read_clock env) (\<lambda>now. bindE (fresh_uuid env) (\<lambda>ep.
           bindE (publish (?d2 x t ep now)) (\<lambda>_. bindE (slots_transition env t Selected) (\<lambda>_.
           bindE (publish (del_pending x (?d2 x t ep now))) (\<lambda>_. ret (Some t, del_pending x (?d2 x t ep now)))))))))))) ?Q (\<lambda>_. holds env)"
    proof (cases "ticket_create env (queue_root env) n e ow x")
      case (Inl err)
      then show ?thesis by (auto intro: hoare_raise ready_holds)
    next
      case tk: (Inr t)
      have pend: "aq_pend (abs_q (?d1 x t)) (tk_transaction t) = Some (?rec t)"
        "aq_pend (abs_q (?d2 x t ep now)) (tk_transaction t) = Some ((?rec t)\<lparr>p_phase := Published\<rparr>)" for ep now
        using ticket_createD(4) [OF tk] by (simp_all add: dict_simps)
      have reserved0: "hoare (holds_at env (abs_q (?d1 x t)) v')
         (bindE (read_clock env) (\<lambda>now. bindE (fresh_uuid env) (\<lambda>ep.
           bindE (publish (?d2 x t ep now)) (\<lambda>_. bindE (slots_transition env t Selected) (\<lambda>_.
           bindE (publish (del_pending x (?d2 x t ep now))) (\<lambda>_. ret (Some t, del_pending x (?d2 x t ep now)))))))) ?Q (\<lambda>_. holds env)" for v'
      proof (rule hoare_bind [OF hoare_read_clock], simp, rule hoare_bind [OF fresh_uuid_holds_at], rule publish_step)
        fix s now ep assume "holds_at env (abs_q (?d1 x t)) v' s"
        then show "ready env (?d2 x t ep now) v' s"
          by (rule claim_published_ready [OF _ wf sc head])
            (use ticket_createD(3) [OF tk] fresh_docD [OF fresh] in simp_all)
      next
        fix now ep
        show "hoare (holds_at env (abs_q (?d2 x t ep now)) v') (bindE (slots_transition env t Selected) (\<lambda>_.
            bindE (publish (del_pending x (?d2 x t ep now))) (\<lambda>_. ret (Some t, del_pending x (?d2 x t ep now))))) ?Q (\<lambda>_. holds env)"
          by (rule hoare_bind [OF _ commit [OF tk]], rule hoare_conseq [OF transition_holds [OF pend(2)]]) auto
      qed
      have reserved: "hoare (holds_at env (abs_q (?d1 x t)) v')
         (bindE (liftE (case scope_of (?d1 x t) n of None \<Rightarrow> Inl KeyError | Some sc \<Rightarrow> Inr sc)) (\<lambda>_. bindE (read_clock env) (\<lambda>now. bindE (fresh_uuid env) (\<lambda>ep.
           bindE (publish (?d2 x t ep now)) (\<lambda>_. bindE (slots_transition env t Selected) (\<lambda>_.
           bindE (publish (del_pending x (?d2 x t ep now))) (\<lambda>_. ret (Some t, del_pending x (?d2 x t ep now))))))))) ?Q (\<lambda>_. holds env)" for v'
        using reserved0 sc by auto
      have "hoare (holds_at env (abs_q (?d1 x t)) v) (bindE (try_reserve env t) (\<lambda>reserved.
         if \<not> reserved then bindE (publish (del_pending x (?d1 x t))) (\<lambda>_. ret (None, del_pending x (?d1 x t)))
         else bindE (liftE (case scope_of (?d1 x t) n of None \<Rightarrow> Inl KeyError | Some sc \<Rightarrow> Inr sc)) (\<lambda>_. bindE (read_clock env) (\<lambda>now. bindE (fresh_uuid env) (\<lambda>ep.
           bindE (publish (?d2 x t ep now)) (\<lambda>_. bindE (slots_transition env t Selected) (\<lambda>_.
           bindE (publish (del_pending x (?d2 x t ep now))) (\<lambda>_. ret (Some t, del_pending x (?d2 x t ep now)))))))))) ?Q (\<lambda>_. holds env)"
      proof (rule hoare_bind [OF try_reserve_holds [OF pend(1)]], simp, rule hoare_if)
        fix b assume "\<not> b"
        then show "hoare (\<lambda>s. if b then \<exists>limit v'. reserve_rel t limit v v' \<and> holds_at env (abs_q (?d1 x t)) v' s
            else holds_at env (abs_q (?d1 x t)) v s)
          (bindE (publish (del_pending x (?d1 x t))) (\<lambda>_. ret (None, del_pending x (?d1 x t)))) ?Q (\<lambda>_. holds env)"
          by (intro publish_last [where v = v])
            (auto intro: claim_refused_ready [OF _ wf fresh] simp: some_ready_def)
      next
        fix b assume "\<not> \<not> b"
        then show "hoare (\<lambda>s. if b then \<exists>limit v'. reserve_rel t limit v v' \<and> holds_at env (abs_q (?d1 x t)) v' s
            else holds_at env (abs_q (?d1 x t)) v s) (bindE (liftE (case scope_of (?d1 x t) n of None \<Rightarrow> Inl KeyError | Some sc \<Rightarrow> Inr sc)) (\<lambda>_. bindE (read_clock env) (\<lambda>now. bindE (fresh_uuid env) (\<lambda>ep.
           bindE (publish (?d2 x t ep now)) (\<lambda>_. bindE (slots_transition env t Selected) (\<lambda>_.
           bindE (publish (del_pending x (?d2 x t ep now))) (\<lambda>_. ret (Some t, del_pending x (?d2 x t ep now))))))))) ?Q (\<lambda>_. holds env)"
          using reserved by (simp, intro hoare_ex hoare_pure)
      qed
      from publish_step [where P = "\<lambda>s. ready env d v s \<and> drawn env x s", OF _ this]
        claim_intent_ready [OF _ _ sc fresh tk] tk sc
      show ?thesis by auto
    qed
  qed
  then show ?thesis .
qed

subsection \<open>Release\<close>

lemma claim_ticket:
  assumes "queue_inv env k (abs_q d) v" and "claim_at d n i = Some c"
  obtains t where "journal_ticket env n i c = Inr t" "tk_key t = c_harness c" "tk_holder t = i" "tk_owner t = c_owner c"
    "tk_transaction t = c_transaction c" "c_transaction c \<in> uuid4 env ` {..<k}"
    "\<And>rec. dict_get (q_pending d) (c_transaction c) = Some rec \<Longrightarrow>
        p_ticket rec = t \<and> p_scope rec = n \<and> p_entry rec = c_entry c"
proof -
  note p = inv_parts [OF assms(1)]
  have c: "aq_claims (abs_q d) n i = Some c" using assms(2) by simp
  from claim_okE [OF journal_claimD(1) [OF p(2) c]] obtain t where t: "journal_ticket env n i c = Inr t" "tk_key t = c_harness c"
      "tk_holder t = i" "tk_owner t = c_owner c" "tk_transaction t = c_transaction c" by blast
  have "p_ticket rec = t \<and> p_scope rec = n \<and> p_entry rec = c_entry c" if "dict_get (q_pending d) (c_transaction c) = Some rec" for rec
    using journal_claimD(3) [OF p(2) c, of rec] journal_decodeD(2) [OF journal_pendD(1) [OF p(2), of _ rec]] that
      journal_ticketD(2) [OF t(1)] by auto
  with t that p(4) in_useI(1) [OF c] show ?thesis by blast
qed

lemma release_intent_ready:
  assumes r: "ready env d v s" and c: "claim_at d n i = Some c" and t: "journal_ticket env n i c = Inr t"
  shows "ready env (set_pending (tk_transaction t) (journal_record env oper n (c_entry c) t) d) v s"
proof (rule ready_updI [OF r])
  have inv: "queue_inv env (next_id s) (abs_q d) v" and wf: "wf_doc d" using r by (simp_all add: ready_def)
  from claim_ticket [OF inv c] t have tx: "tk_transaction t = c_transaction c" "c_transaction c \<in> uuid4 env ` {..<next_id s}"
    "tk_owner t = c_owner c"
    and old: "\<And>rec. dict_get (q_pending d) (c_transaction c) = Some rec \<Longrightarrow> p_ticket rec = t" by auto
  have sc: "n \<in> aq_scopes (abs_q d)"
    using entries_itemD(1) [OF inv_parts(1) [OF inv] items_claims, of n i c] c by simp
  have same: "n = n' \<and> c_entry c = c_entry c' \<and> c_owner c = c_owner c'"
    if "claim_at d n' i' = Some c'" "c_transaction c' = c_transaction c" for n' i' c'
    using journal_claimD(2) [OF inv_parts(2) [OF inv], of n' i' c' n i c] that c by auto
  have "queue_inv env (next_id s) ((abs_q d)\<lparr>aq_pend := (aq_pend (abs_q d))(tk_transaction t \<mapsto> journal_record env oper n (c_entry c) t)\<rparr>) v"
    by (rule set_pending_inv [OF inv])
      (use tx sc old same journal_decodeI [OF journal_ticketD(2) [OF t]] in auto)
  then show "queue_inv env (next_id s) (abs_q (set_pending (tk_transaction t) (journal_record env oper n (c_entry c) t) d)) v"
    by (simp add: abs_set_pending)
  show "wf_doc (set_pending (tk_transaction t) (journal_record env oper n (c_entry c) t) d)" using wf by (simp add: wf_rules)
qed

text \<open>Removing a claim whose transaction is journaled, with or without putting its entry back.\<close>

lemma claim_removed_ready:
  assumes h: "holds_at env (abs_q d) v s" and wf: "wf_doc d" and c: "claim_at d n i = Some c"
    and pend: "dict_get (q_pending d) (c_transaction c) = Some rec" and e: "e = c_entry c"
  shows "ready env (set_pending (c_transaction c) (rec\<lparr>p_phase := Published\<rparr>)
      (if rq then requeue_entry n e (drop_claim n i d) else drop_claim n i d)) v s"
proof (rule holds_at_readyI [OF h])
  assume inv: "queue_inv env (next_id s) (abs_q d) v"
  let ?rec = "rec\<lparr>p_phase := Published\<rparr>"
  let ?d = "if rq then requeue_entry n e (drop_claim n i d) else drop_claim n i d"
  have sc: "n \<in> aq_scopes (abs_q d)"
    using entries_itemD(1) [OF inv_parts(1) [OF inv] items_claims, of n i c] c by simp
  have drop: "abs_q (drop_claim n i d) = (abs_q d)\<lparr>aq_claims := (claim_at d)(n := (claim_at d n)(i := None))\<rparr>"
    by (rule abs_drop_claim)
  have "scope_of (drop_claim n i d) n \<noteq> None" "waits (drop_claim n i d) = waits d"
    using sc arg_cong [OF drop, of aq_scopes] arg_cong [OF drop, of aq_waits] by (auto simp: abs_q_def)
  then have a: "abs_q ?d = (if rq then (abs_q d)\<lparr>aq_claims := (claim_at d)(n := (claim_at d n)(i := None)),
        aq_waits := (waits d)(n := sort_key seq (waits d n @ [c_entry c]))\<rparr>
      else (abs_q d)\<lparr>aq_claims := (claim_at d)(n := (claim_at d n)(i := None))\<rparr>)"
    using drop by (simp add: abs_requeue_entry e)
  have inv1: "queue_inv env (next_id s) (abs_q ?d) v"
    unfolding a using requeue_inv [OF inv, of n i c] drop_claim_inv [OF inv, of n i c] c pend by simp
  have gone: "c_transaction c' \<noteq> c_transaction c" if "claim_at ?d n' i' = Some c'" for n' i' c'
  proof
    assume tx: "c_transaction c' = c_transaction c"
    have "aq_claims (abs_q ?d) n' i' = Some c'" using that by simp
    then have "claim_at d n' i' = Some c'" "(n', i') \<noteq> (n, i)" unfolding a by (auto split: if_splits)
    with journal_claimD(2) [OF inv_parts(2) [OF inv], of n' i' c' n i c] c tx show False by simp
  qed
  have pd: "aq_pend (abs_q ?d) (c_transaction c) = Some rec" using pend by simp
  have "queue_inv env (next_id s) ((abs_q ?d)\<lparr>aq_pend := (aq_pend (abs_q ?d))(c_transaction c \<mapsto> ?rec)\<rparr>) v"
    by (rule set_pending_inv [OF inv1])
      (use journal_pendD [OF inv_parts(2) [OF inv1] pd] pd gone inv_parts(4) [OF inv1] in_useI(2) [OF pd] in auto)
  then show "queue_inv env (next_id s) (abs_q (set_pending (c_transaction c) ?rec ?d)) v"
    by (simp add: abs_set_pending)
qed (use wf in \<open>simp add: wf_rules\<close>)

text \<open>Dropping the record of a transaction that has no claim and no slot any more.\<close>

lemma transaction_done_ready:
  assumes h: "holds_at env (abs_q d) v s" and wf: "wf_doc d"
    and pend: "dict_get (q_pending d) (tk_transaction t) = Some rec" "p_ticket rec = t"
    and gone: "\<And>n i c. claim_at d n i = Some c \<Longrightarrow> c_transaction c \<noteq> tk_transaction t" and sl: "tk_slot v t = None"
  shows "ready env (del_pending (tk_transaction t) d) v s"
proof (rule holds_at_readyI [OF h])
  assume inv: "queue_inv env (next_id s) (abs_q d) v"
  have "queue_inv env (next_id s) ((abs_q d)\<lparr>aq_pend := (aq_pend (abs_q d))(tk_transaction t := None)\<rparr>) v"
  proof (rule del_pending_inv [OF inv])
    fix kk h m assume m: "own_marker env v kk h m" "mk_transaction m = tk_transaction t"
    with inv_parts(3) [OF inv] have "covered (abs_q d) kk h m" by (simp add: slots_inv_def)
    then show "\<exists>n c. aq_claims (abs_q d) n h = Some c \<and> c_transaction c = tk_transaction t \<and> c_harness c = kk"
      by (cases rule: coveredE) (use m pend sl in \<open>auto simp: own_marker_def\<close>)
  qed (use gone in auto)
  then show "queue_inv env (next_id s) (abs_q (del_pending (tk_transaction t) d)) v" by (simp add: abs_del_pending)
qed (use wf in \<open>simp add: wf_rules\<close>)

lemma claim_at_updates [simp]:
  "claim_at (drop_claim n i d) = (claim_at d)(n := (claim_at d n)(i := None))"
  "claim_at (requeue_entry n e d) = claim_at d" "claim_at (ensure_scope n d) = claim_at d"
  "(scope_of (drop_claim n i d) m = None) = (scope_of d m = None)"
  "(scope_of (requeue_entry n e d) m = None) = (scope_of d m = None)"
  using arg_cong [OF abs_drop_claim, of aq_claims n i d] arg_cong [OF abs_ensure_scope, of aq_claims n d]
  by (simp_all add: fun_eq_iff claim_at_def requeue_entry_def drop_claim_def scope_of_on_scope split: option.split)

definition others_kept :: "string \<Rightarrow> string \<Rightarrow> qdoc \<Rightarrow> qdoc \<Rightarrow> bool" where
  "others_kept n i d d' \<longleftrightarrow> (\<forall>j. j \<noteq> i \<longrightarrow> claim_at d' n j = claim_at d n j)
     \<and> (\<forall>m. (scope_of d' m = None) = (scope_of d m = None))"

lemma journal_release_ready:
  assumes c: "claim_at d n i = Some c"
  shows "hoare (ready env d v) (journal_release env d n i c rq pre)
    (\<lambda>d' s. some_ready env d' s \<and> others_kept n i d d') (\<lambda>_. holds env)"
proof (cases "wf_doc d \<and> (\<exists>k. queue_inv env k (abs_q d) v)")
  case False
  then show ?thesis by (auto simp: hoare_def ready_def)
next
  case True
  then have wf: "wf_doc d" by simp
  from True claim_ticket [OF _ c, of env _ v] obtain t where
    t: "journal_ticket env n i c = Inr t" "tk_transaction t = c_transaction c" by metis
  let ?x = "tk_transaction t" and ?Q = "\<lambda>d' s. some_ready env d' s \<and> others_kept n i d d'"
  let ?rec = "journal_record env (if rq then Op_requeue else Op_release) n (c_entry c) t"
  let ?d1 = "set_pending ?x ?rec d"
  let ?d4 = "set_pending ?x (?rec\<lparr>p_phase := Published\<rparr>)
      (if rq then requeue_entry n (c_entry c) (drop_claim n i ?d1) else drop_claim n i ?d1)"
  have pend: "aq_pend (abs_q ?d1) ?x = Some ?rec" "aq_pend (abs_q ?d4) ?x = Some (?rec\<lparr>p_phase := Published\<rparr>)"
    by (simp_all add: dict_simps)
  have last: "hoare (\<lambda>s. \<exists>v''. release_rel t v' v'' \<and> holds_at env (abs_q ?d4) v'' s)
      (bindE (publish (del_pending ?x ?d4)) (\<lambda>_. ret (del_pending ?x ?d4))) ?Q (\<lambda>_. holds env)" for v'
  proof (rule hoare_ex, rule publish_last)
    fix v'' s assume *: "release_rel t v' v'' \<and> holds_at env (abs_q ?d4) v'' s"
    then have inv: "queue_inv env (next_id s) (abs_q ?d4) v''" by (simp add: holds_at_def)
    show "ready env (del_pending ?x ?d4) v'' s"
    proof (rule transaction_done_ready [where rec = "?rec\<lparr>p_phase := Published\<rparr>", OF conjunct2 [OF *]])
      fix n' i' c' assume c': "claim_at ?d4 n' i' = Some c'"
      show "c_transaction c' \<noteq> ?x"
      proof
        assume "c_transaction c' = ?x"
        with c' pend(2) journal_claimD(1,3) [OF inv_parts(2) [OF inv], of n' i' c']
        have "n' = n" "c_entry c' = c_entry c" "i' = entry_id (c_entry c')" by (auto simp: claim_ok_def)
        moreover have "i = entry_id (c_entry c)"
          using True journal_claimD(1) [OF inv_parts(2), of env _ "abs_q d" v n i c] c by (auto simp: claim_ok_def)
        ultimately show False using c' by (simp split: if_splits)
      qed
    qed (use * wf in \<open>auto simp: release_rel_def upd_slot_apply dict_simps wf_rules\<close>)
  qed (auto simp: some_ready_def others_kept_def)
  have "hoare (holds_at env (abs_q ?d1) v') (bindE (publish ?d4) (\<lambda>_. bindE (slots_release env t) (\<lambda>_.
      bindE (publish (del_pending ?x ?d4)) (\<lambda>_. ret (del_pending ?x ?d4))))) ?Q (\<lambda>_. holds env)" for v'
  proof (rule publish_step)
    fix s assume h: "holds_at env (abs_q ?d1) v' s"
    show "ready env ?d4 v' s"
      unfolding t(2)
      by (rule claim_removed_ready [OF h [unfolded t(2)], where rec = ?rec]) (use wf c in \<open>simp_all add: dict_simps wf_rules\<close>)
  next
    show "hoare (holds_at env (abs_q ?d4) v') (bindE (slots_release env t) (\<lambda>_.
      bindE (publish (del_pending ?x ?d4)) (\<lambda>_. ret (del_pending ?x ?d4)))) ?Q (\<lambda>_. holds env)"
      by (rule hoare_bind [OF _ last], rule hoare_conseq [OF release_holds [OF pend(2)]]) auto
  qed
  then have fence: "hoare (\<lambda>s. \<exists>v'. fence_rel t pre v v' \<and> holds_at env (abs_q ?d1) v' s)
      (bindE (publish ?d4) (\<lambda>_. bindE (slots_release env t) (\<lambda>_.
      bindE (publish (del_pending ?x ?d4)) (\<lambda>_. ret (del_pending ?x ?d4))))) ?Q (\<lambda>_. holds env)"
    by (intro hoare_ex hoare_pure)
  have "hoare (holds_at env (abs_q ?d1) v) (bindE (slots_fence_release env t pre) (\<lambda>_.
      bindE (publish ?d4) (\<lambda>_. bindE (slots_release env t) (\<lambda>_.
      bindE (publish (del_pending ?x ?d4)) (\<lambda>_. ret (del_pending ?x ?d4)))))) ?Q (\<lambda>_. holds env)"
    by (rule hoare_bind [OF _ fence], rule hoare_conseq [OF fence_holds [OF pend(1)]]) auto
  then have "hoare (ready env d v) (bindE (publish ?d1) (\<lambda>_. bindE (slots_fence_release env t pre) (\<lambda>_.
      bindE (publish ?d4) (\<lambda>_. bindE (slots_release env t) (\<lambda>_.
      bindE (publish (del_pending ?x ?d4)) (\<lambda>_. ret (del_pending ?x ?d4))))))) ?Q (\<lambda>_. holds env)"
    by (rule publish_step [rotated]) (rule release_intent_ready [OF _ c t(1)])
  then show ?thesis
    unfolding journal_release_def t(1) liftE_sum bindE_ret Let_def
    by (rule hoare_bind [where R = "\<lambda>_. ready env d v", rotated]) (auto simp: unadopt_def intro!: hoare_modify)
qed

subsection \<open>Recovery\<close>

text \<open>Whatever recovery does with one record, the other records stay.\<close>

definition records_kept :: "string \<Rightarrow> qdoc \<Rightarrow> qdoc \<Rightarrow> bool" where
  "records_kept x d d' \<longleftrightarrow> (\<forall>y. y \<noteq> x \<longrightarrow> dict_get (q_pending d') y = dict_get (q_pending d) y)"

definition current :: "queue_env \<Rightarrow> qdoc \<Rightarrow> qworld \<Rightarrow> bool" where
  "current env d s \<longleftrightarrow> wf_doc d \<and> (\<exists>v. holds_at env (abs_q d) v s)"

lemma publish_current:
  assumes "\<And>s. P s \<Longrightarrow> ready env d v s"
  shows "hoare P (publish d) (\<lambda>_. current env d) (\<lambda>_. holds env)"
proof (rule hoareI)
  fix s x t assume "P s" and p: "publish d s = (Inr x, t)"
  with assms have r: "ready env d v s" by blast
  from hoareD [OF hoare_publish r p] r show "current env d t" by (auto simp: current_def ready_def)
next
  fix s e t assume "P s" and p: "publish d s = (Inl e, t)"
  with assms have r: "ready env d v s" by blast
  from hoareD_error [OF hoare_publish r p] show "holds env t" .
qed

lemma abandoned_ready:
  assumes h: "holds_at env (abs_q d) v s" and wf: "wf_doc d" and pend: "dict_get (q_pending d) x = Some rec"
    and none: "\<And>n i c. claim_at d n i = Some c \<Longrightarrow> c_transaction c \<noteq> x"
  shows "ready env (set_pending x (rec\<lparr>p_phase := Published\<rparr>) d) v s"
proof (rule holds_at_readyI [OF h])
  assume inv: "queue_inv env (next_id s) (abs_q d) v"
  have pd: "aq_pend (abs_q d) x = Some rec" using pend by simp
  have "queue_inv env (next_id s) ((abs_q d)\<lparr>aq_pend := (aq_pend (abs_q d))(x \<mapsto> rec\<lparr>p_phase := Published\<rparr>)\<rparr>) v"
    by (rule set_pending_inv [OF inv])
      (use journal_pendD [OF inv_parts(2) [OF inv] pd] pd none inv_parts(4) [OF inv] in_useI(2) [OF pd] in auto)
  then show "queue_inv env (next_id s) (abs_q (set_pending x (rec\<lparr>p_phase := Published\<rparr>) d)) v"
    by (simp add: abs_set_pending)
qed (use wf in \<open>simp add: wf_rules\<close>)

lemma recover_finish:
  assumes wf: "wf_doc d" and pend: "dict_get (q_pending d) x = Some rec" "p_ticket rec = t" "tk_transaction t = x"
    and none: "\<And>n i c. claim_at d n i = Some c \<Longrightarrow> c_transaction c \<noteq> x"
  shows "hoare (holds_at env (abs_q d) v) (bindE (slots_release env t) (\<lambda>_.
      bindE (publish (del_pending x d)) (\<lambda>_. ret (y, del_pending x d))))
    (\<lambda>(_, d') s. current env d' s \<and> records_kept x d d') (\<lambda>_. holds env)"
proof (rule hoare_bind)
  show "hoare (holds_at env (abs_q d) v) (slots_release env t)
      (\<lambda>_ s. \<exists>v'. release_rel t v v' \<and> holds_at env (abs_q d) v' s) (\<lambda>_. holds env)"
    by (rule hoare_conseq [OF release_holds [of _ _ rec]]) (use pend in auto)
  show "hoare (\<lambda>s. \<exists>v'. release_rel t v v' \<and> holds_at env (abs_q d) v' s)
      (bindE (publish (del_pending x d)) (\<lambda>_. ret (y, del_pending x d)))
      (\<lambda>(_, d') s. current env d' s \<and> records_kept x d d') (\<lambda>_. holds env)" for u
  proof (rule hoare_ex, rule hoare_bind [OF publish_current])
    fix v' s assume *: "release_rel t v v' \<and> holds_at env (abs_q d) v' s"
    then have "tk_slot v' t = None" by (auto simp: release_rel_def upd_slot_apply)
    from transaction_done_ready [OF conjunct2 [OF *] wf _ pend(2) _ this] pend none
    show "ready env (del_pending x d) v' s" by simp
  qed (auto intro!: hoare_ret simp: records_kept_def dict_simps)
qed

lemma records_kept_trans: "records_kept x d d' \<Longrightarrow> records_kept x d' d'' \<Longrightarrow> records_kept x d d''"
  by (simp add: records_kept_def)

text \<open>The last steps of recovery: publish the document without the claim, free the slot, drop the record.\<close>

lemma recover_publish:
  assumes wf: "wf_doc d'" and kept: "records_kept x d d'"
    and ready: "\<And>v s. holds_at env (abs_q d) v s \<Longrightarrow> ready env d' v s"
    and pend: "dict_get (q_pending d') x = Some rec" "p_ticket rec = t" "tk_transaction t = x"
    and none: "\<And>n i c. claim_at d' n i = Some c \<Longrightarrow> c_transaction c \<noteq> x"
  shows "hoare (holds_at env (abs_q d) v) (bindE (publish d') (\<lambda>_. bindE (slots_release env t) (\<lambda>_.
      bindE (publish (del_pending x d')) (\<lambda>_. ret (y, del_pending x d')))))
    (\<lambda>(_, d'') s. current env d'' s \<and> records_kept x d d'') (\<lambda>_. holds env)"
proof (rule publish_step [OF ready])
  show "hoare (holds_at env (abs_q d') v) (bindE (slots_release env t) (\<lambda>_.
      bindE (publish (del_pending x d')) (\<lambda>_. ret (y, del_pending x d'))))
    (\<lambda>(_, d'') s. current env d'' s \<and> records_kept x d d'') (\<lambda>_. holds env)"
    by (rule hoare_conseq [OF recover_finish [OF wf pend none]]) (auto intro: records_kept_trans [OF kept])
qed

lemma journaled_claim_unique:
  assumes inv: "queue_inv env k (abs_q d) v" and pend: "dict_get (q_pending d) x = Some rec"
    and c: "claim_at d n i = Some c" "c_transaction c = x"
  shows "n = p_scope rec" "i = tk_holder (p_ticket rec)" "c_entry c = p_entry rec"
proof -
  note j = inv_parts(2) [OF inv]
  have p: "p_scope rec = n \<and> p_entry rec = c_entry c"
    using journal_claimD(3) [OF j, of n i c rec] c pend by simp
  moreover have "i = entry_id (c_entry c)" using journal_claimD(1) [OF j, of n i c] c by (simp add: claim_ok_def)
  moreover have "tk_holder (p_ticket rec) = entry_id (p_entry rec)"
    using journal_decodeD(2) [OF journal_pendD(1) [OF j, of x rec]] pend by (auto dest: ticket_createD(2))
  ultimately show "n = p_scope rec" "i = tk_holder (p_ticket rec)" "c_entry c = p_entry rec" by simp_all
qed

lemma recover_drop:
  assumes wf: "wf_doc d" and pend: "dict_get (q_pending d) x = Some rec" "p_ticket rec = t" "tk_transaction t = x"
    and inv: "queue_inv env k (abs_q d) v0" and co: "co = claim_at d (p_scope rec) (tk_holder t)"
  shows "hoare (holds_at env (abs_q d) v)
     (bindE (case co of
          None \<Rightarrow> ret d
        | Some c \<Rightarrow>
            bindE (liftE (journal_ticket env (p_scope rec) (tk_holder t) c)) (\<lambda>t'.
            bindE (guardE (t' = t) JournalError) (\<lambda>_.
            ret (if p_operation rec = Op_requeue
                 then requeue_entry (p_scope rec) (p_entry rec) (drop_claim (p_scope rec) (tk_holder t) d)
                 else drop_claim (p_scope rec) (tk_holder t) d)))) (\<lambda>d1.
      bindE (publish (set_pending x (rec\<lparr>p_phase := Published\<rparr>) d1)) (\<lambda>_.
      bindE (slots_release env t) (\<lambda>_.
      bindE (publish (del_pending x (set_pending x (rec\<lparr>p_phase := Published\<rparr>) d1))) (\<lambda>_.
      ret (y, del_pending x (set_pending x (rec\<lparr>p_phase := Published\<rparr>) d1)))))))
    (\<lambda>(_, d') s. current env d' s \<and> records_kept x d d') (\<lambda>_. holds env)"
proof (cases co)
  case None
  have none: "claim_at d n i = Some c \<Longrightarrow> c_transaction c \<noteq> x" for n i c
    using journaled_claim_unique [OF inv pend(1)] None co pend(2) by auto
  have "hoare (holds_at env (abs_q d) v)
     (bindE (publish (set_pending x (rec\<lparr>p_phase := Published\<rparr>) d)) (\<lambda>_. bindE (slots_release env t) (\<lambda>_.
      bindE (publish (del_pending x (set_pending x (rec\<lparr>p_phase := Published\<rparr>) d))) (\<lambda>_.
      ret (y, del_pending x (set_pending x (rec\<lparr>p_phase := Published\<rparr>) d))))))
    (\<lambda>(_, d') s. current env d' s \<and> records_kept x d d') (\<lambda>_. holds env)"
    by (rule recover_publish [where rec = "rec\<lparr>p_phase := Published\<rparr>", OF _ _ abandoned_ready [OF _ wf pend(1) none]])
      (use wf pend none in \<open>auto simp: records_kept_def dict_simps wf_rules\<close>)
  then show ?thesis by (simp add: None)
next
  case (Some c)
  let ?d1 = "if p_operation rec = Op_requeue
     then requeue_entry (p_scope rec) (p_entry rec) (drop_claim (p_scope rec) (tk_holder t) d)
     else drop_claim (p_scope rec) (tk_holder t) d"
  have c: "claim_at d (p_scope rec) (tk_holder t) = Some c" using Some co by simp
  have core: "hoare (holds_at env (abs_q d) v)
     (bindE (publish (set_pending x (rec\<lparr>p_phase := Published\<rparr>) ?d1)) (\<lambda>_. bindE (slots_release env t) (\<lambda>_.
      bindE (publish (del_pending x (set_pending x (rec\<lparr>p_phase := Published\<rparr>) ?d1))) (\<lambda>_.
      ret (y, del_pending x (set_pending x (rec\<lparr>p_phase := Published\<rparr>) ?d1))))))
    (\<lambda>(_, d') s. current env d' s \<and> records_kept x d d') (\<lambda>_. holds env)" if tx: "c_transaction c = x"
  proof (rule recover_publish [where rec = "rec\<lparr>p_phase := Published\<rparr>"])
    fix v s assume "holds_at env (abs_q d) v s"
    from claim_removed_ready [OF this wf c _ journaled_claim_unique(3) [OF inv pend(1) c tx, symmetric]] pend(1) tx
    show "ready env (set_pending x (rec\<lparr>p_phase := Published\<rparr>) ?d1) v s" by simp
  next
    fix n i c' assume "claim_at (set_pending x (rec\<lparr>p_phase := Published\<rparr>) ?d1) n i = Some c'"
    then have "claim_at d n i = Some c'" "(n, i) \<noteq> (p_scope rec, tk_holder t)" by (auto split: if_splits)
    with journaled_claim_unique(1,2) [OF inv pend(1), of n i c'] pend(2) show "c_transaction c' \<noteq> x" by auto
  qed (use wf pend in \<open>auto simp: records_kept_def dict_simps wf_rules\<close>)
  show ?thesis
  proof (cases "journal_ticket env (p_scope rec) (tk_holder t) c")
    case (Inl err)
    then show ?thesis by (auto simp: Some intro!: hoare_raise intro: holds_at_holds)
  next
    case (Inr t')
    then show ?thesis
    proof (cases "t' = t")
      case True
      have "c_transaction c = x"
        using ticket_createD(4) [OF journal_ticketD(2) [OF Inr]] True pend(3) by simp
      from core [OF this] Inr True show ?thesis
        by (simp only: Some option.case liftE_sum bindE_ret bindE_assoc guardE_def simp_thms if_True)
    next
      case False
      with Inr show ?thesis
        by (simp only: Some option.case liftE_sum bindE_ret bindE_raise bindE_assoc guardE_def simp_thms if_False)
          (rule hoare_raise, erule holds_at_holds)
    qed
  qed
qed

lemma recover_one_current:
  assumes pend: "dict_get (q_pending d) x = Some rec"
  shows "hoare (current env d) (recover_one env x rec d)
    (\<lambda>(_, d') s. current env d' s \<and> records_kept x d d') (\<lambda>_. holds env)"
proof -
  have "hoare (holds_at env (abs_q d) v) (recover_one env x rec d)
      (\<lambda>(_, d') s. current env d' s \<and> records_kept x d d') (\<lambda>_. holds env)" if wf: "wf_doc d" for v
  proof (cases "\<exists>k. queue_inv env k (abs_q d) v")
    case False
    then show ?thesis by (auto simp: hoare_def holds_at_def)
  next
    case True
    then obtain k where inv: "queue_inv env k (abs_q d) v" by blast
    define t where "t = p_ticket rec"
    have dec: "journal_decode env x rec = Inr t" "scope_of d (p_scope rec) \<noteq> None"
      using journal_pendD [OF inv_parts(2) [OF inv], of x rec] pend by (simp_all add: t_def)
    have tx: "tk_transaction t = x" using ticket_createD(4) [OF journal_decodeD(2) [OF dec(1)]] .
    have fence: "hoare (holds_at env (abs_q d) v) (slots_fence_release env t True)
        (\<lambda>_ s. \<exists>v'. fence_rel t True v v' \<and> holds_at env (abs_q d) v' s) (\<lambda>_. holds env)"
      by (rule hoare_conseq [OF fence_holds [of _ _ rec]]) (use pend tx in \<open>auto simp: t_def\<close>)
    have ph: "hoare (holds_at env (abs_q d) v) (slots_phase env t) (\<lambda>_. holds_at env (abs_q d) v) (\<lambda>_. holds env)"
      by (rule hoare_conseq [OF slots_phase_triple [where P = "holds_at env (abs_q d) v"]]) (auto intro: holds_at_holds)
    note drop = recover_drop [OF wf pend t_def [symmetric] tx inv refl]
    from dec(2) obtain sc where sc: "scope_of d (p_scope rec) = Some sc" by blast
    show ?thesis
      unfolding recover_one_def dec(1) liftE_sum bindE_ret sc option.case Let_def
      by (intro hoare_bind [OF ph] hoare_if hoare_ret
          hoare_guard_bind hoare_bind [OF fence] hoare_ex hoare_pure drop)
        (auto simp: current_def records_kept_def wf intro: holds_at_holds)
  qed
  then show ?thesis
    unfolding current_def [of env d, abs_def] by (intro hoare_pure hoare_ex)
qed

lemma recover_all_current:
  assumes "\<forall>(x, rec) \<in> set ps. dict_get (q_pending d) x = Some rec" and "distinct (map fst ps)"
  shows "hoare (current env d) (recover_all env ps d) (\<lambda>(_, d') s. current env d' s) (\<lambda>_. holds env)"
  using assms
proof (induction ps arbitrary: d)
  case Nil
  show ?case unfolding recover_all.simps by (rule hoare_ret) simp
next
  case (Cons p ps)
  obtain x rec where p: "p = (x, rec)" by (cases p)
  have rest: "hoare (\<lambda>s. current env d' s \<and> records_kept x d d')
      (bindE (recover_all env ps d') (\<lambda>(os, d2). ret (o1 # os, d2))) (\<lambda>(_, d') s. current env d' s) (\<lambda>_. holds env)" for o1 d'
  proof (cases "records_kept x d d'")
    case True
    have "hoare (current env d') (recover_all env ps d') (\<lambda>(_, d') s. current env d' s) (\<lambda>_. holds env)"
    proof (rule Cons.IH)
      show "\<forall>(y, r) \<in> set ps. dict_get (q_pending d') y = Some r"
        using Cons.prems True unfolding p records_kept_def by (force simp: image_iff)
    qed (use Cons.prems in simp)
    then have "hoare (current env d') (bindE (recover_all env ps d') (\<lambda>(os, d2). ret (o1 # os, d2)))
        (\<lambda>(_, d') s. current env d' s) (\<lambda>_. holds env)"
      by (rule hoare_bind) (auto intro: hoare_ret)
    then show ?thesis by (rule hoare_pre) simp
  qed (simp add: hoare_def)
  have "hoare (current env d) (recover_one env x rec d)
      (\<lambda>(_, d') s. current env d' s \<and> records_kept x d d') (\<lambda>_. holds env)"
    by (rule recover_one_current) (use Cons.prems in \<open>auto simp: p\<close>)
  then show ?case
    unfolding p recover_all.simps
    by (rule hoare_bind) (use rest in \<open>auto split: prod.split\<close>)
qed

subsection \<open>Expiry\<close>

lemma set_claim_ready:
  assumes r: "ready env d v s" and c: "claim_at d n i = Some c" and same: "same_claim c c'"
  shows "ready env (set_claim n i c' d) v s"
proof (rule ready_updI [OF r])
  have inv: "queue_inv env (next_id s) (abs_q d) v" and wf: "wf_doc d" using r by (simp_all add: ready_def)
  have "scope_of d n \<noteq> None" using c by (auto simp: claim_at_def split: option.splits)
  then show "queue_inv env (next_id s) (abs_q (set_claim n i c' d)) v"
    using set_claim_inv [OF inv _ same, of n i] c by (simp add: abs_set_claim)
  show "wf_doc (set_claim n i c' d)" using wf by (simp add: wf_rules)
qed

lemma same_claim_fields [simp]: "same_claim c (c\<lparr>c_quarantined := b\<rparr>)" "same_claim c (c\<lparr>c_heartbeat := t\<rparr>)"
  by (simp_all add: same_claim_def)

lemma others_kept_refl [simp]: "others_kept n i d d"
  by (simp add: others_kept_def)

lemma others_kept_set_claim [simp]: "others_kept n i d (set_claim n i c d)"
proof (cases "scope_of d n = None")
  case True
  then have "set_claim n i c d = d" by (simp add: set_claim_def on_scope_def)
  then show ?thesis by simp
next
  case False
  then have a: "abs_q (set_claim n i c d) = (abs_q d)\<lparr>aq_claims := (claim_at d)(n := (claim_at d n)(i \<mapsto> c))\<rparr>"
    by (simp add: abs_set_claim)
  show ?thesis
    using arg_cong [OF a, of aq_claims] by (simp add: others_kept_def set_claim_def scope_of_on_scope)
qed

lemma expire_one_ready:
  assumes c: "claim_at d n i = Some c"
  shows "hoare (ready env d v) (expire_one env n now i c d)
    (\<lambda>d' s. some_ready env d' s \<and> others_kept n i d d') (\<lambda>_. holds env)"
proof -
  let ?Q = "\<lambda>d' s. some_ready env d' s \<and> others_kept n i d d'"
  have quar: "hoare (ready env d v) (ret (quarantine_claim n i c d)) ?Q (\<lambda>_. holds env)"
    unfolding quarantine_claim_def some_ready_def
    by (rule hoare_ret) (blast intro: set_claim_ready [OF _ c same_claim_fields(1)] others_kept_set_claim)
  have stay: "hoare (ready env d v) (ret d) ?Q (\<lambda>_. holds env)"
    by (rule hoare_ret) (auto simp: some_ready_def)
  have ph: "hoare (ready env d v) (slots_phase env t) (\<lambda>_. ready env d v) (\<lambda>_. holds env)" for t
    by (rule hoare_conseq [OF slots_phase_triple [where P = "ready env d v"]]) (auto intro: ready_holds)
  have tk: "hoare (ready env d v) (liftE (journal_ticket env n i c)) (\<lambda>_. ready env d v) (\<lambda>_. holds env)"
    by (rule hoare_liftE) (auto intro: ready_holds)
  show ?thesis
    unfolding expire_one_def Let_def
    by (intro hoare_if quar stay hoare_bind [OF tk] hoare_bind [OF ph] hoare_guard_bind journal_release_ready [OF c])
      (auto intro: ready_holds)
qed

lemma expire_all_ready:
  assumes "\<forall>(i, c) \<in> set cs. claim_at d n i = Some c" and "distinct (map fst cs)"
  shows "hoare (some_ready env d) (expire_all env n now cs d)
    (\<lambda>d' s. some_ready env d' s \<and> (\<forall>m. (scope_of d' m = None) = (scope_of d m = None))) (\<lambda>_. holds env)"
  using assms
proof (induction cs arbitrary: d)
  case Nil
  show ?case unfolding expire_all.simps by (rule hoare_ret) simp
next
  case (Cons p cs)
  obtain i c where p: "p = (i, c)" by (cases p)
  let ?Q = "\<lambda>d d' s. some_ready env d' s \<and> (\<forall>m. (scope_of d' m = None) = (scope_of d m = None))"
  have "hoare (some_ready env d) (expire_one env n now i c d)
      (\<lambda>d' s. some_ready env d' s \<and> others_kept n i d d') (\<lambda>_. holds env)"
    unfolding some_ready_def [of env d, abs_def]
    by (rule hoare_ex) (rule expire_one_ready, use Cons.prems in \<open>auto simp: p\<close>)
  moreover have "hoare (\<lambda>s. some_ready env d' s \<and> others_kept n i d d') (expire_all env n now cs d') (?Q d) (\<lambda>_. holds env)" for d'
  proof (cases "others_kept n i d d'")
    case True
    have "hoare (some_ready env d') (expire_all env n now cs d') (?Q d') (\<lambda>_. holds env)"
    proof (rule Cons.IH)
      show "\<forall>(j, c) \<in> set cs. claim_at d' n j = Some c"
        using Cons.prems True unfolding p others_kept_def by (force simp: image_iff)
    qed (use Cons.prems in simp)
    then show ?thesis
      by (rule hoare_conseq) (use True in \<open>auto simp: others_kept_def\<close>)
  qed (simp add: hoare_def)
  ultimately show ?case
    unfolding p expire_all.simps by (rule hoare_bind)
qed

lemma journal_expire_ready:
  "hoare (some_ready env d) (journal_expire env d n now)
    (\<lambda>d' s. some_ready env d' s \<and> (\<forall>m. (scope_of d' m = None) = (scope_of d m = None))) (\<lambda>_. holds env)"
proof (cases "wf_doc d \<and> scope_of d n \<noteq> None")
  case True
  then obtain sc where sc: "scope_of d n = Some sc" by blast
  with True have "dict_ok (claims sc)" by (simp add: wf_doc_def)
  then show ?thesis
    unfolding journal_expire_def sc option.case
    by (intro expire_all_ready) (auto simp: claim_at_def sc dict_ok_def)
next
  case False
  then show ?thesis
    by (auto simp: journal_expire_def hoare_def some_ready_def ready_def split: option.split)
qed

subsection \<open>Reading: a document that satisfies the invariant is accepted\<close>

definition scope_ids :: "scope_state \<Rightarrow> string list" where
  "scope_ids sc = map entry_id (waiting sc) @ dict_keys (claims sc)"

lemma distinct_ids:
  assumes "distinct (map fst scs)" and "\<And>n sc. (n, sc) \<in> set scs \<Longrightarrow> distinct (scope_ids sc)"
    and "\<And>n sc n' sc' x. (n, sc) \<in> set scs \<Longrightarrow> (n', sc') \<in> set scs \<Longrightarrow> x \<in> set (scope_ids sc)
        \<Longrightarrow> x \<in> set (scope_ids sc') \<Longrightarrow> n = n'"
  shows "distinct (concat (map (\<lambda>(n, sc). scope_ids sc) scs))"
  using assms
proof (induction scs)
  case (Cons p scs)
  obtain n sc where p: "p = (n, sc)" by (cases p)
  have "distinct (concat (map (\<lambda>(n, sc). scope_ids sc) scs))"
  proof (rule Cons.IH)
    show "n1 = n2" if "(n1, s1) \<in> set scs" "(n2, s2) \<in> set scs" "x \<in> set (scope_ids s1)" "x \<in> set (scope_ids s2)" for n1 s1 n2 s2 x
      using Cons.prems(3) [of n1 s1 n2 s2 x] that by simp
  qed (use Cons.prems(1,2) in auto)
  moreover have "x \<notin> set (scope_ids sc)" if "(n', sc') \<in> set scs" "x \<in> set (scope_ids sc')" for n' sc' x
  proof
    assume "x \<in> set (scope_ids sc)"
    with Cons.prems(3) [of n sc n' sc' x] that have "n' = n" by (simp add: p)
    with that(1) Cons.prems(1) show False by (force simp: p)
  qed
  ultimately show ?case using Cons.prems(2) [of n sc] by (auto simp: p)
qed simp

lemma scope_items:
  assumes wf: "wf_doc d" and inv: "queue_inv env k (abs_q d) v" and sc: "(n, sc) \<in> set (q_scopes d)"
  shows "scope_of d n = Some sc"
    and "x \<in> set (scope_ids sc) \<Longrightarrow> \<exists>w e. (n, w, e) \<in> items (abs_q d) \<and> entry_id e = x"
    and "distinct (scope_ids sc)"
proof -
  note e = inv_parts(1) [OF inv] and j = inv_parts(2) [OF inv]
  show so: "scope_of d n = Some sc" using wf sc by (simp add: wf_doc_def dict_ok_def scope_of_def)
  then have ws: "waits d n = waiting sc" and cl: "claim_at d n = dict_get (claims sc)"
    by (simp_all add: waits_def claim_at_def fun_eq_iff)
  have ok: "dict_ok (claims sc)" using wf so by (simp add: wf_doc_def)
  have cid: "(n, False, c_entry c) \<in> items (abs_q d) \<and> entry_id (c_entry c) = i" if "(i, c) \<in> set (claims sc)" for i c
  proof -
    have *: "aq_claims (abs_q d) n i = Some c" using that ok by (simp add: cl dict_ok_def)
    show ?thesis using items_claims [OF *] journal_claimD(1) [OF j *] by (simp add: claim_ok_def)
  qed
  show "\<exists>w e. (n, w, e) \<in> items (abs_q d) \<and> entry_id e = x" if "x \<in> set (scope_ids sc)"
  proof -
    from that consider e where "e \<in> set (waiting sc)" "entry_id e = x" | c where "(x, c) \<in> set (claims sc)"
      by (auto simp: scope_ids_def)
    then show ?thesis
    proof cases
      case (1 e)
      with items_waits [of e "abs_q d" n] ws show ?thesis by auto
    next
      case (2 c)
      with cid [OF 2] show ?thesis by blast
    qed
  qed
  have "sorted_wrt (<) (map seq (waiting sc))" using entries_sorted [OF e, of n] by (simp add: ws)
  then have "distinct (waiting sc)" by (auto simp: strict_sorted_iff distinct_map)
  moreover have "inj_on entry_id (set (waiting sc))"
  proof (rule inj_onI)
    fix x y assume "x \<in> set (waiting sc)" "y \<in> set (waiting sc)" "entry_id x = entry_id y"
    with entries_unique [OF e items_waits items_waits, of x n y n] ws show "x = y" by simp
  qed
  moreover have False if "w \<in> set (waiting sc)" "(entry_id w, c) \<in> set (claims sc)" for w c
    using entries_unique [OF e items_waits [of w _ n] conjunct1 [OF cid [OF that(2)]]] cid [OF that(2)] that(1) ws by simp
  ultimately show "distinct (scope_ids sc)"
    using ok by (force simp: scope_ids_def distinct_map dict_ok_def)
qed

lemma q_validated_ok:
  assumes wf: "wf_doc d" and inv: "queue_inv env k (abs_q d) v"
  shows "q_validated env d = Inr d"
proof -
  note e = inv_parts(1) [OF inv] and j = inv_parts(2) [OF inv] and sci = scope_items [OF wf inv]
  have "distinct (doc_ids d)"
    unfolding doc_ids_def scope_ids_def [symmetric]
  proof (rule distinct_ids)
    fix n sc n' sc' x
    assume "(n, sc) \<in> set (q_scopes d)" "(n', sc') \<in> set (q_scopes d)" "x \<in> set (scope_ids sc)" "x \<in> set (scope_ids sc')"
    with sci(2) show "n = n'" using entries_unique [OF e] by metis
  qed (use wf sci(3) in \<open>auto simp: wf_doc_def dict_ok_def\<close>)
  moreover have ws: "waits d n = waiting sc" if "(n, sc) \<in> set (q_scopes d)" for n sc
    using sci(1) [OF that] by (simp add: waits_def)
  have waiting: "valid_waiting w \<and> 1 \<le> seq w \<and> seq w \<le> q_seq d" if "(n, sc) \<in> set (q_scopes d)" "w \<in> set (waiting sc)" for n sc w
    using entries_itemD [OF e items_waits, of w n] ws [OF that(1)] that(2) by simp
  moreover have "valid_sequences (q_seq d) (map seq (waiting sc))" if "(n, sc) \<in> set (q_scopes d)" for n sc
    using waiting [OF that] entries_sorted [OF e, of n] ws [OF that]
    by (auto simp: valid_sequences_def in_set_zip nth_tl sorted_wrt_iff_nth_less)
  moreover have "valid_pending env d x rec" if "(x, rec) \<in> set (q_pending d)" for x rec
    using journal_pendD [OF j, of x rec] that wf by (simp add: valid_pending_def wf_doc_def dict_ok_def)
  moreover have "valid_claim env d n i c" if "(n, sc) \<in> set (q_scopes d)" "(i, c) \<in> set (claims sc)" for n sc i c
  proof -
    have c: "aq_claims (abs_q d) n i = Some c"
      using sci(1) [OF that(1)] that(2) wf by (auto simp: claim_at_def wf_doc_def dict_ok_def)
    from claim_okE [OF journal_claimD(1) [OF j c]] obtain t where "journal_ticket env n i c = Inr t" "tk_key t = c_harness c"
      "tk_holder t = i" by blast
    with entries_itemD(3,4) [OF e items_claims [OF c]] show ?thesis by (simp add: valid_claim_def)
  qed
  moreover have "0 \<le> q_seq d" using e by (simp add: entries_inv_def)
  ultimately show ?thesis
    unfolding q_validated_def journal_validate_def by (force split: if_splits)
qed

lemma wf_empty: "wf_doc q_empty"
  by (simp add: wf_doc_def q_empty_def scope_of_def)

lemma q_read_current: "hoare (holds env) (q_read env) (\<lambda>d. current env d) (\<lambda>_. holds env)"
proof (rule hoareI)
  fix s d t assume h: "holds env s" and r: "q_read env s = (Inr d, t)"
  from h obtain d0 v where d0: "durable s = Some d0" "wf_doc d0" "slot_view env s = v" "queue_inv env (next_id s) (abs_q d0) v"
    by (auto simp: holds_def holds_at_def)
  with r q_validated_ok [OF d0(2,4)] show "current env d t"
    by (cases "queue_file s") (auto simp: q_read_def bindE_def durable_def current_def holds_at_def wf_empty)
next
  fix s e t assume h: "holds env s" and r: "q_read env s = (Inl e, t)"
  then show "holds env t" by (cases "queue_file s") (auto simp: q_read_def bindE_def)
qed

text \<open>The locked cycle: whatever the body does, the durable state satisfies the invariant afterwards.\<close>

lemma q_locked_keeps:
  assumes body: "\<And>d. hoare (current env d) (body d) (\<lambda>(_, d') s. some_ready env d' s) (\<lambda>_. holds env)"
  shows "keeps (holds env) (q_locked env body)"
proof -
  have last: "hoare (some_ready env d') (if canon d' = canon d then ret x else bindE (publish d') (\<lambda>_. ret x))
      (\<lambda>_. holds env) (\<lambda>_. holds env)" for d' d x
    unfolding some_ready_def [abs_def]
    by (intro hoare_ex hoare_if hoare_ret publish_last) (auto intro: ready_holds)
  have "hoare (current env d) (bindE (body d) (\<lambda>(x, d'). if canon d' = canon d then ret x else bindE (publish d') (\<lambda>_. ret x)))
      (\<lambda>_. holds env) (\<lambda>_. holds env)" for d
  proof (rule hoare_bind [OF body])
    fix p
    show "hoare (case p of (_, d') \<Rightarrow> \<lambda>s. some_ready env d' s)
        (case p of (x, d') \<Rightarrow> if canon d' = canon d then ret x else bindE (publish d') (\<lambda>_. ret x))
        (\<lambda>_. holds env) (\<lambda>_. holds env)"
      by (cases p) (simp only: prod.case last)
  qed
  then show ?thesis
    unfolding q_locked_def
    by (intro keepsI hoare_catch [where R = "\<lambda>_. holds env"] hoare_raise
        hoare_bind [OF hoare_lock [where P = "holds env"]] hoare_bind [OF q_read_current]) auto
qed

lemma current_some_ready: "current env d s \<Longrightarrow> some_ready env d s"
  by (auto simp: current_def some_ready_def intro: holds_at_ready)

lemma some_ready_holds: "some_ready env d s \<Longrightarrow> holds env s"
  by (auto simp: some_ready_def intro: ready_holds)

subsection \<open>Every operation\<close>

lemma current_inv:
  assumes "current env d s"
  shows "wf_doc d" "queue_inv env (next_id s) (abs_q d) (slot_view env s)" "holds env s"
  using assms by (auto simp: current_def holds_at_def holds_def)

lemma some_readyI:
  "current env d s \<Longrightarrow> wf_doc d' \<Longrightarrow> queue_inv env (next_id s) (abs_q d') (slot_view env s) \<Longrightarrow> some_ready env d' s"
  using current_inv(3) by (auto simp: some_ready_def ready_def)

lemma existing_bindings_items:
  assumes wf: "wf_doc d" and inv: "queue_inv env k (abs_q d) v" and none: "existing_bindings d i = []"
    and x: "(n, w, x) \<in> items (abs_q d)"
  shows "entry_id x \<noteq> i"
proof
  assume i: "entry_id x = i"
  from x obtain sc where sc: "scope_of d n = Some sc"
    using entries_itemD(1) [OF inv_parts(1) [OF inv] x] by auto
  then have mem: "(n, sc) \<in> set (q_scopes d)" by (simp add: scope_of_def map_of_SomeD)
  show False
    using x
  proof (cases rule: itemsE)
    case (1 m e)
    then have "x \<in> set (waiting sc)" using sc by (simp add: waits_def)
    with i have "(n, entry_binding x) \<in> set (existing_bindings d i)"
      by (auto simp: existing_bindings_def intro!: bexI [OF _ mem])
    then show False using none by simp
  next
    case (2 m j c)
    then have "dict_get (claims sc) j = Some c" "j = entry_id (c_entry c)"
      using sc journal_claimD(1) [OF inv_parts(2) [OF inv] 2(2)] by (auto simp: claim_at_def claim_ok_def)
    with i 2(1) have "(n, claim_binding c) \<in> set (existing_bindings d i)"
      by (auto simp: existing_bindings_def intro!: bexI [OF _ mem])
    then show False using none by simp
  qed
qed

lemma add_entry_body:
  assumes e: "\<And>q t. valid_waiting (e0\<lparr>seq := q, enqueued_at := t\<rparr>)"
  shows "hoare (current env d) (add_entry env n e0 d) (\<lambda>(_, d') s. some_ready env d' s) (\<lambda>_. holds env)"
proof -
  have new: "hoare (current env d) (bindE (read_clock env) (\<lambda>now. let sq = q_seq d + 1 in
      ret (entry_id e0, append_waiting n (e0\<lparr>seq := sq, enqueued_at := now\<rparr>) (d\<lparr>q_seq := sq\<rparr>))))
      (\<lambda>(_, d') s. some_ready env d' s) (\<lambda>_. holds env)" if none: "existing_bindings d (entry_id e0) = []"
    unfolding Let_def
  proof (rule hoare_bind [OF hoare_read_clock], simp add: current_def, rule hoare_ret, simp)
    fix now s assume c: "current env d s"
    let ?e = "e0\<lparr>seq := q_seq d + 1, enqueued_at := now\<rparr>"
    note i = current_inv [OF c]
    have "queue_inv env (next_id s) ((abs_q d)\<lparr>aq_seq := aq_seq (abs_q d) + 1, aq_scopes := insert n (aq_scopes (abs_q d)),
        aq_waits := (aq_waits (abs_q d))(n := aq_waits (abs_q d) n @ [?e])\<rparr>) (slot_view env s)"
      by (rule append_inv [OF i(2)]) (use e existing_bindings_items [OF i(1,2) none] in auto)
    moreover have "abs_q (d\<lparr>q_seq := q_seq d + 1\<rparr>) = (abs_q d)\<lparr>aq_seq := aq_seq (abs_q d) + 1\<rparr>"
      by (rule aq_eqI) (auto simp: waits_def claim_at_def scope_of_def)
    moreover have "waits (d\<lparr>q_seq := q_seq d + 1\<rparr>) = waits d" by (simp add: waits_def scope_of_def fun_eq_iff)
    ultimately have "queue_inv env (next_id s) (abs_q (append_waiting n ?e (d\<lparr>q_seq := q_seq d + 1\<rparr>))) (slot_view env s)"
      by (simp add: abs_append_waiting)
    then show "some_ready env (append_waiting n ?e (d\<lparr>q_seq := q_seq d + 1\<rparr>)) s"
      using c i(1) by (intro some_readyI) (simp_all add: wf_rules)
  qed
  show ?thesis
  proof (cases "existing_bindings d (entry_id e0)")
    case Nil
    then show ?thesis
      unfolding add_entry_def using new by (auto intro!: hoare_raise intro: current_inv)
  next
    case (Cons b bs)
    then show ?thesis
      by (cases b; cases bs) (auto simp: add_entry_def hoare_def intro: current_inv(3) current_some_ready)
  qed
qed

text \<open>What the queue relies on in its surroundings: \<open>uuid.uuid4().hex\<close> is never empty and never repeats.\<close>

definition uuids_ok :: "queue_env \<Rightarrow> bool" where
  "uuids_ok env \<longleftrightarrow> inj (uuid4 env) \<and> (\<forall>n. uuid4 env n \<noteq> [])"

lemma fresh_uuid_keeps: "keeps (holds env) (fresh_uuid env)"
  by (auto simp: keeps_iff fresh_uuid_def fresh_id_def bindE_def intro: holds_mono)

lemma me_keeps: "keeps (holds env) (me env)"
  unfolding me_def by (intro keeps_bind fresh_uuid_keeps) (simp add: keeps_iff)

lemma keeps_basic:
  "keeps I (ret x)" "keeps I (raise e)" "keeps I (gets f)" "keeps I (liftE r)" "keeps I (guardE b e)"
  by (auto simp: keeps_iff guardE_def)

lemma enqueue_keeps:
  assumes "uuids_ok env" and "harn \<noteq> None \<or> harness_of n \<noteq> []"
  shows "keeps (holds env) (enqueue env n item harn us sess digest)"
proof (cases "n \<noteq> [] \<and> (\<forall>x \<in> {item, harn, us, sess, digest}. x \<noteq> Some [])")
  case ok: True
  let ?e0 = "\<lambda>i. \<lparr> entry_id = i, seq = 0, user = (case us of Some u \<Rightarrow> u | None \<Rightarrow> current_user env),
      harness = (case harn of Some h \<Rightarrow> h | None \<Rightarrow> harness_of n), session_id = sess, config_digest = digest, enqueued_at = 0 \<rparr>"
  have body: "keeps (holds env) (bindE (case check_scope_binding n (?e0 i) of Inl _ \<Rightarrow> raise QueueError | Inr _ \<Rightarrow> ret ())
      (\<lambda>_. q_locked env (add_entry env n (?e0 i))))" if "i \<noteq> []" for i
  proof (rule keeps_bind)
    have "valid_waiting ((?e0 i)\<lparr>seq := q, enqueued_at := t\<rparr>)" for q t
      using ok that assms(2) by (auto simp: valid_waiting_def current_user_def split: option.split)
    then show "keeps (holds env) (q_locked env (add_entry env n (?e0 i)))"
      by (intro q_locked_keeps add_entry_body)
  qed (auto intro: keeps_basic split: sum.split)
  have "keeps (holds env) (bindE (case item of Some i \<Rightarrow> ret i | None \<Rightarrow> fresh_uuid env) (\<lambda>i.
      bindE (case check_scope_binding n (?e0 i) of Inl _ \<Rightarrow> raise QueueError | Inr _ \<Rightarrow> ret ())
      (\<lambda>_. q_locked env (add_entry env n (?e0 i)))))"
  proof (cases item)
    case None
    have uid: "hoare (holds env) (fresh_uuid env) (\<lambda>i s. i \<noteq> [] \<and> holds env s) (\<lambda>_. holds env)"
      using assms(1) by (auto simp: hoare_def fresh_uuid_def fresh_id_def bindE_def uuids_ok_def intro: holds_mono)
    show ?thesis
      unfolding keeps_def None option.case
      by (rule hoare_bind [OF uid], rule hoare_pure, erule body [unfolded keeps_def])
  next
    case (Some i)
    with ok body show ?thesis by auto
  qed
  with ok show ?thesis by (simp add: enqueue_def guardE_def Let_def)
next
  case False
  then show ?thesis by (simp only: enqueue_def guardE_def if_False bindE_raise keeps_basic)
qed

lemma scope_of_ensure: "scope_of (ensure_scope n d) n \<noteq> None"
  by (simp add: ensure_scope_def scope_of_def dict_simps)

lemma keeps_option:
  "keeps I m \<Longrightarrow> (\<And>y. keeps I (f y)) \<Longrightarrow> keeps I (case x of None \<Rightarrow> m | Some y \<Rightarrow> f y)"
  by (cases x) simp_all

lemma keeps_if: "keeps I m \<Longrightarrow> keeps I m' \<Longrightarrow> keeps I (if b then m else m')"
  by simp

lemma cancel_keeps: "keeps (holds env) (cancel env n i)"
  unfolding cancel_def Let_def
proof (intro q_locked_keeps hoare_ret, simp)
  fix d s assume c: "current env d s"
  let ?f = "filter (\<lambda>w. entry_id w \<noteq> i)"
  note inv = current_inv [OF c]
  have w: "waits (ensure_scope n d) = waits d"
    using arg_cong [OF abs_ensure_scope, of aq_waits n d] by simp
  have "queue_inv env (next_id s) ((abs_q d)\<lparr>aq_scopes := insert n (aq_scopes (abs_q d)),
      aq_waits := (waits d)(n := ?f (waits d n))\<rparr>) (slot_view env s)"
    using fewer_waits_inv [OF add_scope_inv [OF inv(2), of n], of "?f (waits d n)" n] by (auto simp: comp_def)
  moreover have "abs_q (on_scope n (\<lambda>sc. sc\<lparr>waiting := ?f (waits (ensure_scope n d) n)\<rparr>) (ensure_scope n d))
      = (abs_q d)\<lparr>aq_scopes := insert n (aq_scopes (abs_q d)), aq_waits := (waits d)(n := ?f (waits d n))\<rparr>"
    using abs_set_waiting [where f = "\<lambda>_. ?f (waits d n)", of n "ensure_scope n d"]
    by (simp add: w abs_ensure_scope scope_of_ensure)
  ultimately show "some_ready env (on_scope n (\<lambda>sc. sc\<lparr>waiting := ?f (waits (ensure_scope n d) n)\<rparr>) (ensure_scope n d)) s"
    using c inv(1) by (intro some_readyI) (auto intro!: wf_on_scope wf_updates)
qed

lemma ensure_scope_ready: "ready env d v s \<Longrightarrow> ready env (ensure_scope n d) v s"
  by (auto simp: ready_def abs_ensure_scope wf_rules intro: add_scope_inv)

lemma ensure_scope_some_ready: "some_ready env d s \<Longrightarrow> some_ready env (ensure_scope n d) s"
  by (auto simp: some_ready_def intro: ensure_scope_ready)

lemma recover_body: "hoare (current env d) (journal_recover env d) (\<lambda>(_, d') s. current env d' s) (\<lambda>_. holds env)"
proof (cases "wf_doc d")
  case True
  then show ?thesis
    unfolding journal_recover_def by (intro recover_all_current) (auto simp: wf_doc_def dict_ok_def)
qed (auto simp: hoare_def current_def)

lemma journal_claim_some_ready:
  assumes "inj (uuid4 env)" and "scope_of d n \<noteq> None" and "waits d n = e # ws"
  shows "hoare (some_ready env d) (journal_claim env d n e ow) (\<lambda>(_, d') s. some_ready env d' s) (\<lambda>_. holds env)"
  unfolding some_ready_def [of env d, abs_def] by (rule hoare_ex) (rule journal_claim_ready [OF assms])

lemma claim_body_ready:
  assumes inj: "inj (uuid4 env)"
  shows "hoare (current env d) (claim_body env n i ow d) (\<lambda>(_, d') s. some_ready env d' s) (\<lambda>_. holds env)"
proof -
  let ?R = "\<lambda>d1 d' s. some_ready env d' s \<and> (\<forall>m. (scope_of d' m = None) = (scope_of d1 m = None))"
  have head: "hoare (?R (ensure_scope n d1) d3) (case waits d3 n of [] \<Rightarrow> ret (None, d3)
      | w # ws \<Rightarrow> if entry_id w \<noteq> i then ret (None, d3) else journal_claim env d3 n w ow)
      (\<lambda>(_, d') s. some_ready env d' s) (\<lambda>_. holds env)" for d1 d3
  proof (cases "scope_of d3 n = None")
    case True
    then show ?thesis by (auto simp: hoare_def ensure_scope_def scope_of_def dict_simps split: if_splits)
  next
    case False
    then have "hoare (some_ready env d3) (case waits d3 n of [] \<Rightarrow> ret (None, d3)
      | w # ws \<Rightarrow> if entry_id w \<noteq> i then ret (None, d3) else journal_claim env d3 n w ow)
      (\<lambda>(_, d') s. some_ready env d' s) (\<lambda>_. holds env)"
      using journal_claim_some_ready [OF inj False] by (cases "waits d3 n") (simp_all only: list.case, auto intro!: hoare_if hoare_ret)
    then show ?thesis by (rule hoare_pre) simp
  qed
  have "hoare (current env d1) (bindE (read_clock env) (\<lambda>now. bindE (journal_expire env (ensure_scope n d1) n now) (\<lambda>d3.
      case waits d3 n of [] \<Rightarrow> ret (None, d3)
      | w # ws \<Rightarrow> if entry_id w \<noteq> i then ret (None, d3) else journal_claim env d3 n w ow)))
      (\<lambda>(_, d') s. some_ready env d' s) (\<lambda>_. holds env)" for d1
  proof (rule hoare_bind [OF hoare_read_clock], simp add: current_def, rule hoare_bind [OF _ head])
    fix now
    show "hoare (current env d1) (journal_expire env (ensure_scope n d1) n now) (?R (ensure_scope n d1)) (\<lambda>_. holds env)"
      by (rule hoare_pre [OF journal_expire_ready]) (rule ensure_scope_some_ready, erule current_some_ready)
  qed
  then show ?thesis
    unfolding claim_body_def Let_def
    by (intro hoare_bind [OF recover_body]) (auto split: prod.split)
qed

lemma try_claim_keeps:
  assumes "uuids_ok env"
  shows "keeps (holds env) (try_claim env n i given)"
proof -
  have "keeps (holds env) (q_locked env (claim_body env n i ow))" for ow
    using assms by (intro q_locked_keeps claim_body_ready) (simp add: uuids_ok_def)
  moreover have "keeps (holds env) (adopt env t)" "keeps (holds env) (modify (\<lambda>s. s\<lparr>claimed_owners := f s\<rparr>))" for t f
    by (simp_all add: keeps_iff adopt_def)
  ultimately show ?thesis
    unfolding try_claim_def
    by (intro keeps_bind keeps_option keeps_basic me_keeps)
qed

lemma expire_scopes_ready:
  "hoare (some_ready env d) (expire_scopes env ns d) (\<lambda>d' s. some_ready env d' s) (\<lambda>_. holds env)"
proof (induction ns arbitrary: d)
  case Nil
  show ?case unfolding expire_scopes.simps by (rule hoare_ret) simp
next
  case (Cons n ns)
  have ex: "hoare (some_ready env d) (journal_expire env d n now) (\<lambda>d' s. some_ready env d' s) (\<lambda>_. holds env)" for now
    by (rule hoare_conseq [OF journal_expire_ready]) auto
  show ?case
    unfolding expire_scopes.simps
    by (rule hoare_bind [OF hoare_read_clock], simp add: some_ready_def, rule hoare_bind [OF ex Cons.IH])
qed

lemma recover_pending_keeps: "keeps (holds env) (recover_pending env)"
proof -
  have "hoare (current env d1) (bindE (expire_scopes env (dict_keys (q_scopes d1)) d1) (\<lambda>d2. ret (outs, d2)))
      (\<lambda>(_, d') s. some_ready env d' s) (\<lambda>_. holds env)" for d1 outs
    by (rule hoare_bind [OF hoare_pre [OF expire_scopes_ready current_some_ready]]) (auto intro: hoare_ret)
  then show ?thesis
    unfolding recover_pending_def
    by (intro q_locked_keeps hoare_bind [OF recover_body]) (auto split: prod.split)
qed

lemma begin_dispatch_keeps: "keeps (holds env) (begin_dispatch env n i ow)"
proof -
  have act: "hoare (holds_at env a v) (slots_transition env t Activated) (\<lambda>_ s. \<exists>v'. holds_at env a v' s) (\<lambda>_. holds env)" for a v t
  proof (rule hoare_conseq [OF slot_rel_holds [OF slots_transition_spec keeps_ids_slots(2)]])
    fix k v' assume "queue_inv env k a v" "transition_rel t Activated v v'"
    then show "queue_inv env k a v'"
      by (auto simp: transition_rel_def intro: activate_inv)
  qed auto
  have "hoare (current env d) (slots_transition env t Activated) (\<lambda>_. current env d) (\<lambda>_. holds env)" for d t
    unfolding current_def [of env d, abs_def]
    by (intro hoare_pure hoare_ex hoare_conseq [OF act]) auto
  then have step: "hoare (current env d) (bindE (slots_transition env t Activated) (\<lambda>_. ret ((), d)))
      (\<lambda>(_, d') s. some_ready env d' s) (\<lambda>_. holds env)" for d t
    by (rule hoare_bind) (auto intro!: hoare_ret intro: current_some_ready)
  have "hoare (current env d) (bindE (liftE r) (\<lambda>t. bindE (guardE (tk_activation_ready t) QueueError) (\<lambda>_.
      bindE (gets (\<lambda>s. is_adopted env s t)) (\<lambda>ad. bindE (guardE ad QueueError) (\<lambda>_.
      bindE (slots_transition env t Activated) (\<lambda>_. ret ((), d)))))))
      (\<lambda>(_, d') s. some_ready env d' s) (\<lambda>_. holds env)" for d r
    by (intro hoare_bind [OF hoare_liftE [where Q = "\<lambda>_. current env d"]] hoare_gets_bind hoare_guard_bind step)
      (auto intro: current_inv)
  then show ?thesis
    unfolding begin_dispatch_def
    by (intro q_locked_keeps hoare_option hoare_gets_bind hoare_guard_bind hoare_raise) (auto intro: current_inv)
qed

lemma release_body:
  "hoare (current env d) (case claim_at d n i of None \<Rightarrow> ret (False, d)
     | Some c \<Rightarrow> if c_owner c \<noteq> ow then ret (False, d)
         else bindE (journal_release env d n i c rq pre) (\<lambda>d1. ret (True, d1)))
     (\<lambda>(_, d') s. some_ready env d' s) (\<lambda>_. holds env)"
proof -
  have "hoare (current env d) (journal_release env d n i c rq pre) (\<lambda>d' s. some_ready env d' s) (\<lambda>_. holds env)"
    if c: "claim_at d n i = Some c" for c
  proof (rule hoare_pre)
    show "hoare (\<lambda>s. \<exists>v. ready env d v s) (journal_release env d n i c rq pre) (\<lambda>d' s. some_ready env d' s) (\<lambda>_. holds env)"
      by (rule hoare_ex) (rule hoare_conseq [OF journal_release_ready [OF c]], auto)
  qed (use current_some_ready in \<open>auto simp: some_ready_def\<close>)
  then show ?thesis
    by (intro hoare_option hoare_if hoare_ret hoare_bind [where R = "\<lambda>d' s. some_ready env d' s"])
      (auto intro: current_some_ready)
qed

lemma forget_owner_keeps: "keeps (holds env) (forget_owner n i ow)"
  by (simp add: keeps_iff forget_owner_def)

lemma requeue_keeps: "keeps (holds env) (requeue env n i ow)"
  unfolding requeue_def
  by (intro keeps_bind q_locked_keeps release_body keeps_if forget_owner_keeps keeps_basic)

lemma release_claim_keeps: "keeps (holds env) (release_claim env n i given)"
  unfolding release_claim_def retained_owner_def
  by (intro keeps_bind q_locked_keeps release_body keeps_if keeps_option forget_owner_keeps keeps_basic)

lemma heartbeat_keeps: "keeps (holds env) (heartbeat env n i given)"
proof -
  have beat: "hoare (current env d) (bindE (read_clock env) (\<lambda>now. ret (True, set_claim n i (c\<lparr>c_heartbeat := now\<rparr>) d)))
      (\<lambda>(_, d') s. some_ready env d' s) (\<lambda>_. holds env)" if c: "claim_at d n i = Some c" for d c
  proof (rule hoare_bind [OF hoare_read_clock], simp add: current_def, rule hoare_ret, simp)
    fix now s assume "current env d s"
    then obtain v where "ready env d v s" using current_some_ready [of env d s] by (auto simp: some_ready_def)
    from set_claim_ready [OF this c same_claim_fields(2)] show "some_ready env (set_claim n i (c\<lparr>c_heartbeat := now\<rparr>) d) s"
      by (auto simp: some_ready_def)
  qed
  show ?thesis
    unfolding heartbeat_def retained_owner_def
    by (intro keeps_bind keeps_option keeps_basic q_locked_keeps hoare_option hoare_if hoare_ret beat)
      (auto intro: current_some_ready)
qed

lemma claim_with_workspace_keeps:
  assumes "uuids_ok env" and "keeps (holds env) acquire"
  shows "keeps (holds env) (claim_with_workspace env n i acquire given)"
proof -
  have "keeps (holds env) (catchE acquire (\<lambda>e. bindE (requeue env n i ow) (\<lambda>_. raise e)))" for ow
    using assms(2) keeps_bind [OF requeue_keeps keeps_basic(2), of env n i ow]
    unfolding keeps_def by (intro hoare_catch [where R = "\<lambda>_. holds env"])
  then show ?thesis
    unfolding claim_with_workspace_def
    by (intro keeps_bind keeps_option keeps_if keeps_basic me_keeps try_claim_keeps [OF assms(1)] requeue_keeps)
qed

lemma claim_poll_keeps:
  assumes "uuids_ok env"
  shows "keeps (holds env) (claim_poll fuel env n i ow deadline k)"
proof (induction fuel arbitrary: k)
  case 0
  show ?case unfolding claim_poll.simps by (rule keeps_basic)
next
  case (Suc fuel)
  show ?case
    unfolding claim_poll.simps
    by (intro keeps_bind try_claim_keeps [OF assms] keeps_if keeps_basic Suc.IH)
qed

subsection \<open>Ordinary capacity users\<close>

lemma capacity_operation_keeps:
  assumes spec: "slot_spec c p R" and ids: "\<And>k. keeps (\<lambda>s. k \<le> next_id s) p" and sha: "sha256 c = sha256 env"
    and inv: "\<And>k a r v v'. queue_inv env k a v \<Longrightarrow> R r v v' \<Longrightarrow> queue_inv env k a v'"
  shows "keeps (holds env) p"
  unfolding keeps_iff
proof (intro allI impI)
  fix s assume "holds env s"
  then obtain a v where h: "holds_at env a v s" by (auto simp: holds_def)
  have view: "slot_view c = (slot_view env :: qworld \<Rightarrow> slots)" using sha by (simp add: slot_view_def cap_path_def fun_eq_iff)
  have op: "slot_operation c p R" using spec by unfold_locales
  have "slot_view env (snd (p s)) = v \<or> R (rest s) v (slot_view env (snd (p s)))"
    using slot_operation.final [OF op, of s] h by (auto simp: view holds_at_def)
  moreover have h0: "queue_inv env (next_id s) a v" using h by (simp add: holds_at_def)
  ultimately have "queue_inv env (next_id s) a (slot_view env (snd (p s)))" using inv [OF h0] by metis
  moreover have "next_id s \<le> next_id (snd (p s))" using ids [of "next_id s"] by (simp add: keeps_iff)
  ultimately have "queue_inv env (next_id (snd (p s))) a (slot_view env (snd (p s)))" by (rule queue_inv_mono)
  moreover have "durable (snd (p s)) = durable s" using slot_operation.rest_same [OF op, of s] by (rule durable_rest)
  ultimately have "holds_at env a (slot_view env (snd (p s))) (snd (p s))"
    using h by (simp add: holds_at_def)
  then show "holds env (snd (p s))" by (rule holds_at_holds)
qed

lemma keeps_ids_mono: "keeps_ids p \<Longrightarrow> keeps (\<lambda>s. k \<le> next_id s) p"
  by (simp add: keeps_iff keeps_idsD)

lemma fresh_mono: "keeps (\<lambda>s. k \<le> next_id s) fresh_id" "keeps (\<lambda>s. k \<le> next_id s) (me env)"
    "keeps (\<lambda>s. k \<le> next_id s) (cap_issue key h ow)"
  by (auto simp: keeps_iff fresh_id_def me_def fresh_uuid_def cap_issue_def bindE_def Let_def)

lemma cap_reserve_mono: "keeps (\<lambda>s. k \<le> next_id s) (cap_reserve env key h limit given qt)"
proof -
  note rules = keeps_ids_mono [OF keeps_ids_load] keeps_ids_mono [OF keeps_ids_write] keeps_ids_mono [OF keeps_ids_basic(6)]
    keeps_ids_mono [OF keeps_ids_basic(7)]
  have "keeps (\<lambda>s. k \<le> next_id s) (cap_reserve_existing env key h ad ow d sl)" for ad ow d sl
    unfolding cap_reserve_existing_def
    by (intro keeps_bind keeps_basic keeps_option keeps_if rules fresh_mono)
  then show ?thesis
    unfolding cap_reserve_def
    by (intro keeps_bind keeps_basic keeps_option keeps_if rules fresh_mono)
qed

lemma cap_reserve_keeps:
  assumes "sha256 c = sha256 env"
  shows "keeps (holds env) (cap_reserve c key h limit given qt)"
proof (rule capacity_operation_keeps [OF cap_reserve_spec cap_reserve_mono assms])
  fix k a r v v' assume inv: "queue_inv env k a v" and "cap_reserve_rel c key h limit (r :: _ kept) v v'"
  then show "queue_inv env k a v'"
    by (auto simp: cap_reserve_rel_def intro: activate_inv ordinary_slot_inv)
qed

lemma cap_release_keeps:
  assumes "sha256 c = sha256 env"
  shows "keeps (holds env) (cap_release c r)"
proof (rule capacity_operation_keeps [OF cap_release_spec _ assms])
  show "keeps (\<lambda>s. k \<le> next_id s) (cap_release c r)" for k
    unfolding cap_release_def
    by (rule keeps_ids_mono) (intro keeps_ids_rules)
  fix k a v v' assume inv: "queue_inv env k a v" and "cap_release_rel (res_key r) (res_holder r) v v'"
  then show "queue_inv env k a v'"
    by (auto simp: cap_release_rel_def intro: ordinary_slot_inv)
qed

subsection \<open>Interleavings\<close>

text \<open>Processes that share one queue directory and one capacity directory.\<close>

definition same_store :: "queue_env \<Rightarrow> queue_env \<Rightarrow> bool" where
  "same_store env env' \<longleftrightarrow> queue_root env' = queue_root env \<and> cap_root env' = cap_root env
     \<and> sha256 env' = sha256 env \<and> uuid4 env' = uuid4 env"

lemma same_store_holds:
  assumes "same_store env env'"
  shows "holds env' s = holds env s"
proof -
  have tc: "ticket_create env' = ticket_create env" and q: "queue_root env' = queue_root env"
    and u: "uuid4 env' = uuid4 env" and cr: "cap_root env' = cap_root env"
    using assms by (auto simp: same_store_def ticket_create_def fun_eq_iff split: sum.split)
  have jt: "journal_ticket env' = journal_ticket env" and jd: "journal_decode env' = journal_decode env"
    by (auto simp: fun_eq_iff journal_ticket_def journal_decode_def tc q cr split: sum.split)
  have v: "slot_view env' s = slot_view env s"
    using assms by (simp add: same_store_def slot_view_def cap_path_def fun_eq_iff)
  show ?thesis
    by (simp add: holds_def holds_at_def queue_inv_def journal_inv_def claim_ok_def slots_inv_def own_marker_def
        paired_def in_use_def tc q u jt jd v)
qed

end
