(* ===== verification/Queue_Properties.thy ===== *)
theory Queue_Properties
  imports Queue_Safety
begin

text \<open>
  What the queue promises: the invariant over every interleaving of processes that share the
  directories, first come first served, and who may change what. Two theorems at the end describe
  inputs on which the queue locks itself out.
\<close>

subsection \<open>Processes sharing the stores\<close>

text \<open>
  One step is one call of one process, run to its end with any storage outcomes; \<open>env'\<close> is that
  process's own view of pids, clocks, liveness and ceilings. \<open>other_process\<close> hands over to a
  process with other memory and the same files.
\<close>

inductive queue_step :: "queue_env \<Rightarrow> qworld \<Rightarrow> qworld \<Rightarrow> bool" for env where
  enqueue: "same_store env env' \<Longrightarrow> harn \<noteq> None \<or> harness_of n \<noteq> [] \<Longrightarrow>
     queue_step env s (snd (enqueue env' n item harn us sess digest s))"
| cancel: "same_store env env' \<Longrightarrow> queue_step env s (snd (cancel env' n i s))"
| try_claim: "same_store env env' \<Longrightarrow> queue_step env s (snd (try_claim env' n i given s))"
| recover: "same_store env env' \<Longrightarrow> queue_step env s (snd (recover_pending env' s))"
| dispatch: "same_store env env' \<Longrightarrow> queue_step env s (snd (begin_dispatch env' n i ow s))"
| requeue: "same_store env env' \<Longrightarrow> queue_step env s (snd (requeue env' n i ow s))"
| heartbeat: "same_store env env' \<Longrightarrow> queue_step env s (snd (heartbeat env' n i given s))"
| release: "same_store env env' \<Longrightarrow> queue_step env s (snd (release_claim env' n i given s))"
| cap_reserve: "sha256 c = sha256 env \<Longrightarrow> queue_step env s (snd (cap_reserve (c :: cap_env) key h limit given qt s))"
| cap_release: "sha256 c = sha256 env \<Longrightarrow> queue_step env s (snd (cap_release (c :: cap_env) r s))"
| other_process: "cap_files t = cap_files s \<Longrightarrow> queue_file t = queue_file s \<Longrightarrow> next_id s \<le> next_id t \<Longrightarrow> queue_step env s t"

inductive queue_reach :: "queue_env \<Rightarrow> qworld \<Rightarrow> bool" for env where
  start: "queue_file s = Absent \<Longrightarrow> (\<And>p. cap_files s p = Absent) \<Longrightarrow> queue_reach env s"
| step: "queue_reach env s \<Longrightarrow> queue_step env s t \<Longrightarrow> queue_reach env t"

lemma start_holds:
  assumes "queue_file s = Absent" and "\<And>p. cap_files s p = Absent"
  shows "holds env s"
proof -
  let ?a = "abs_q q_empty"
  have v: "slot_view env s = (\<lambda>_. Map.empty)" using assms(2) by (simp add: slot_view_def fun_eq_iff)
  have items: "items ?a = {}" by (auto simp: items_def waits_def claim_at_def scope_of_def q_empty_def)
  have "entries_inv ?a" using items by (simp add: entries_inv_def waits_def scope_of_def q_empty_def)
  moreover have "journal_inv env ?a"
    by (simp add: journal_inv_def claim_at_def scope_of_def q_empty_def)
  moreover have "slots_inv env ?a (\<lambda>_. Map.empty)"
    by (simp add: slots_inv_def claim_at_def scope_of_def q_empty_def own_marker_def)
  moreover have "in_use env ?a (\<lambda>_. Map.empty) = {}"
    by (auto simp: in_use_def claim_at_def scope_of_def q_empty_def own_marker_def)
  ultimately have "holds_at env ?a (\<lambda>_. Map.empty) s"
    using assms(1) v wf_empty by (auto simp: holds_at_def durable_def queue_inv_def)
  then show ?thesis by (rule holds_at_holds)
qed

lemma other_process_holds:
  assumes "holds env s" "cap_files t = cap_files s" "queue_file t = queue_file s" "next_id s \<le> next_id t"
  shows "holds env t"
proof -
  from assms(1) obtain a v where h: "holds_at env a v s" by (auto simp: holds_def)
  have "slot_view env t = slot_view env s" using assms(2) by (simp add: slot_view_def fun_eq_iff)
  with h assms(3,4) have "holds_at env a v t" by (auto simp: holds_at_def durable_def intro: queue_inv_mono)
  then show ?thesis by (rule holds_at_holds)
qed

lemma uuids_same_store: "same_store env env' \<Longrightarrow> uuids_ok env' = uuids_ok env"
  by (simp add: same_store_def uuids_ok_def)

text \<open>A program that keeps the invariant of its own process keeps everybody's.\<close>

lemma keeps_same_store: "same_store env env' \<Longrightarrow> keeps (holds env') p \<Longrightarrow> holds env s \<Longrightarrow> holds env (snd (p s))"
  using same_store_holds by (simp add: keeps_iff)

lemma queue_step_holds:
  assumes "uuids_ok env" and "queue_step env s t" and "holds env s"
  shows "holds env t"
  using assms(2,3)
proof (cases rule: queue_step.cases)
  case (cap_reserve c key h limit given qt)
  then show ?thesis using assms(3) cap_reserve_keeps [of c env] by (simp add: keeps_iff)
next
  case (cap_release c r)
  then show ?thesis using assms(3) cap_release_keeps [of c env] by (simp add: keeps_iff)
next
  case other_process
  with assms(3) show ?thesis by (rule other_process_holds)
qed (use assms(1,3) in \<open>auto simp: uuids_same_store intro!: keeps_same_store enqueue_keeps cancel_keeps try_claim_keeps
      recover_pending_keeps begin_dispatch_keeps requeue_keeps heartbeat_keeps release_claim_keeps\<close>)

lemma queue_reach_holds: "queue_reach env s \<Longrightarrow> uuids_ok env \<Longrightarrow> holds env s"
  by (induction rule: queue_reach.induct) (auto intro: start_holds queue_step_holds)

lemma queue_reach_document:
  assumes "queue_reach env s" and "uuids_ok env"
  obtains d where "durable s = Some d" "wf_doc d" "queue_inv env (next_id s) (abs_q d) (slot_view env s)"
  using queue_reach_holds [OF assms] by (auto simp: holds_def holds_at_def)

subsection \<open>The outcome of a locked operation\<close>

lemma lock_result: "exclusive_lock e s = (Inr x, t) \<Longrightarrow> t = s\<lparr>outcomes := outcomes t\<rparr>"
  by (auto simp: exclusive_lock_def next_outcome_def bindE_def guardE_def split: list.splits if_splits)

lemma q_read_result: "q_read env s = (Inr d, t) \<Longrightarrow> t = s \<and> durable s = Some d"
  by (auto simp: q_read_def bindE_def durable_def q_validated_def split: stored.splits if_splits sum.splits)

lemma publish_result: "publish d s = (Inr x, t) \<Longrightarrow> durable t = Some (canon d)"
  by (auto simp: publish_def publish_with_def bindE_def next_outcome_def split: list.splits io_outcome.splits)

text \<open>A normal return of a locked operation: the body ran on the durable document, and the durable
  document is now what the body returned, up to the order of keys.\<close>

lemma q_locked_result:
  assumes "q_locked env body s = (Inr x, t)"
  obtains u d d' w where "u = s\<lparr>outcomes := outcomes u\<rparr>" "durable s = Some d"
    "body d u = (Inr (x, d'), w)" "durable t = Some (canon d') \<or> canon d' = canon d \<and> t = w"
proof -
  from assms obtain u d u2 y d' w where 0: "exclusive_lock LockUnavailable s = (Inr (), u)" "q_read env u = (Inr d, u2)"
      "body d u2 = (Inr (y, d'), w)" "(if canon d' = canon d then ret y else bindE (publish d') (\<lambda>_. ret y)) w = (Inr x, t)"
    by (auto simp: q_locked_def catchE_def bindE_Inr split: prod.splits sum.splits)
  have u2: "u2 = u" using q_read_result [OF 0(2)] by simp
  have y: "y = x" using 0(4) by (auto simp: bindE_Inr split: if_splits)
  note * = 0 [unfolded u2 y]
  have u: "u = s\<lparr>outcomes := outcomes u\<rparr>" by (rule lock_result [OF *(1)])
  then have "durable u = durable s" by (metis durable_frame(1))
  then have "durable s = Some d" using q_read_result [OF *(2)] by simp
  have "durable t = Some (canon d') \<or> canon d' = canon d \<and> t = w"
    using *(4) by (auto simp: bindE_Inr split: if_splits dest: publish_result)
  with that u \<open>durable s = Some d\<close> * show ?thesis by metis
qed

subsection \<open>First come, first served\<close>

lemma journal_claim_result:
  assumes "journal_claim env d n e ow s = (Inr (Some t, d'), w)" and head: "waits d n = e # ws"
  shows "(\<exists>c. claim_at d' n (entry_id e) = Some c \<and> c_entry c = e \<and> c_owner c = ow \<and> waits d' n = ws)
    \<and> durable w = Some (canon d')"
proof -
  from assms(1) obtain x rec ep now u where d': "d' = del_pending x (set_pending x (rec\<lparr>p_phase := Published\<rparr>)
      (set_claim n (entry_id e) (claim_record e ow x ep now) (pop_waiting n (set_pending x rec d))))"
      "publish d' u = (Inr (), w)"
    by (auto simp: journal_claim_def bindE_Inr Let_def split: if_splits)
  have "scope_of d n \<noteq> None" using head by (auto simp: waits_def split: option.splits)
  then show ?thesis
    using arg_cong [OF abs_published_claim, of "set_pending x rec d" n e ws aq_claims x "rec\<lparr>p_phase := Published\<rparr>"]
      arg_cong [OF abs_published_claim, of "set_pending x rec d" n e ws aq_waits x "rec\<lparr>p_phase := Published\<rparr>"] head
      publish_result [OF d'(2)]
    by (simp add: d'(1))
qed

lemma hoare_apply: "hoare P m Q E \<Longrightarrow> m s = (Inr x, t) \<Longrightarrow> P s \<Longrightarrow> Q x t"
  by (blast dest: hoareD)

lemma claim_body_fifo:
  assumes "claim_body env n i ow d s = (Inr (Some t, d'), w)" and "current env d s" and "uuids_ok env"
  shows "\<exists>c. claim_at d' n i = Some c \<and> c_owner c = ow \<and> entry_id (c_entry c) = i
    \<and> (\<forall>x \<in> set (waits d' n). seq (c_entry c) < seq x) \<and> durable w = Some (canon d')"
proof -
  from assms(1) obtain outs d1 s1 now s2 d3 s3 where r: "journal_recover env d s = (Inr (outs, d1), s1)"
      "read_clock env s1 = (Inr now, s2)" "journal_expire env (ensure_scope n d1) n now s2 = (Inr d3, s3)"
      "(case waits d3 n of [] \<Rightarrow> ret (None, d3) | x # ws \<Rightarrow> if entry_id x \<noteq> i then ret (None, d3) else journal_claim env d3 n x ow) s3
        = (Inr (Some t, d'), w)"
    by (auto simp: claim_body_def bindE_Inr Let_def)
  have "current env d1 s1" using hoare_apply [OF recover_body r(1) assms(2)] by simp
  then have "some_ready env (ensure_scope n d1) s1" by (rule ensure_scope_some_ready [OF current_some_ready])
  then have "some_ready env (ensure_scope n d1) s2" using r(2) by (auto simp: read_clock_def some_ready_def)
  then have "some_ready env d3 s3" using hoare_apply [OF journal_expire_ready r(3)] by blast
  then obtain v where inv: "queue_inv env (next_id s3) (abs_q d3) v" by (auto simp: some_ready_def ready_def)
  from r(4) obtain x ws where x: "waits d3 n = x # ws" "entry_id x = i" "journal_claim env d3 n x ow s3 = (Inr (Some t, d'), w)"
    by (auto split: list.splits if_splits)
  have "sorted_wrt (<) (map seq (x # ws))" using entries_sorted [OF inv_parts(1) [OF inv], of n] x(1) by simp
  with journal_claim_result [OF x(3,1)] x(2) show ?thesis by auto
qed

subsection \<open>A concrete queue\<close>

definition demo_qenv :: queue_env where
  "demo_qenv = \<lparr> cap_root = ''cap'', os = demo_os, getpid = 7, getpgid = (\<lambda>_. 7),
     store_liveness = owner_liveness demo_os, clock = of_nat, uuid4 = (\<lambda>n. replicate (Suc n) (CHR ''x'')),
     sha256 = (\<lambda>_. ''digest''), queue_root = ''q'', q_liveness = (\<lambda>_. Some True), ceiling_for = (\<lambda>_. Inr (Some 1)),
     lease_ttl = 30, getuid = 5, monotonic = of_nat \<rparr>"

definition demo_qworld :: qworld where
  "demo_qworld = \<lparr> cap_files = (\<lambda>_. Absent), cap_backups = Map.empty, adopted = Map.empty, issued = Map.empty,
     loan_table = Map.empty, loan_objs = Map.empty, claimed_owners = Map.empty, outcomes = [], next_id = 0,
     clock_reads = 0, queue_file = Absent \<rparr>"

abbreviation demo_enqueue :: "string qprog" where
  "demo_enqueue \<equiv> enqueue demo_qenv ''u:h'' (Some ''i'') (Some ''h'') (Some ''u'') (Some ''s'') (Some ''c'')"

lemma demo_uuids: "uuids_ok demo_qenv"
  by (auto simp: uuids_ok_def demo_qenv_def inj_def dest: arg_cong [where f = length])

lemma same_store_refl [simp]: "same_store env env"
  by (simp add: same_store_def)

lemma demo_reach_enqueued: "queue_reach demo_qenv (snd (demo_enqueue demo_qworld))"
proof (rule queue_reach.step [OF queue_reach.start])
  show "queue_step demo_qenv demo_qworld (snd (demo_enqueue demo_qworld))"
    by (rule queue_step.enqueue) simp_all
qed (simp_all add: demo_qworld_def)

definition demo_entry :: qentry where
  "demo_entry = \<lparr> entry_id = ''i'', seq = 1, user = ''u'', harness = ''h'', session_id = Some ''s'',
     config_digest = Some ''c'', enqueued_at = 0 \<rparr>"

definition demo_doc :: qdoc where
  "demo_doc = \<lparr> q_seq = 1, q_scopes = [(''u:h'', \<lparr> waiting = [demo_entry], claims = [] \<rparr>)], q_pending = [] \<rparr>"

lemmas exec_simps = bindE_def catchE_def guardE_def exclusive_lock_def next_outcome_def q_locked_def publish_def
  publish_with_def read_clock_def fresh_uuid_def fresh_id_def Let_def

lemma demo_enqueued:
  "demo_enqueue demo_qworld = (Inr ''i'', demo_qworld\<lparr>clock_reads := 1, queue_file := Present demo_doc\<rparr>)"
  by (simp add: enqueue_def exec_simps q_read_def add_entry_def existing_bindings_def append_waiting_def on_scope_def
      ensure_scope_def scope_of_def canon_def check_scope_binding_def binding_ready_def nonempty_def q_empty_def
      demo_qworld_def demo_qenv_def current_user_def harness_of_def after_last_def demo_doc_def demo_entry_def show_nat.simps)

lemma demo_qenv_sel [simp]:
  "cap_root demo_qenv = ''cap''" "os demo_qenv = demo_os" "getpid demo_qenv = 7" "getpgid demo_qenv p = 7"
  "clock demo_qenv k = of_nat k" "uuid4 demo_qenv k = replicate (Suc k) (CHR ''x'')" "sha256 demo_qenv t = ''digest''"
  "queue_root demo_qenv = ''q''" "q_liveness demo_qenv ow = Some True" "ceiling_for demo_qenv h = Inr (Some 1)"
  "monotonic demo_qenv k = of_nat k"
  by (simp_all add: demo_qenv_def)

definition demo_qticket :: "string \<Rightarrow> ticket" where
  "demo_qticket x = \<lparr> tk_key = ''h'', tk_holder = ''i'', tk_owner = demo_owner, tk_transaction = x,
     tk_queue_root = ''q'', tk_binding_digest = ''digest'', tk_activation_ready = True \<rparr>"

definition demo_claim :: "string \<Rightarrow> string \<Rightarrow> rat \<Rightarrow> claim" where
  "demo_claim x ep now = claim_record demo_entry demo_owner x ep now"

definition claimed_doc :: "claim \<Rightarrow> pending_record dict \<Rightarrow> qdoc" where
  "claimed_doc c ps = \<lparr> q_seq = 1, q_scopes = [(''u:h'', \<lparr> waiting = [], claims = [(''i'', c)] \<rparr>)], q_pending = ps \<rparr>"

definition demo_qslot :: "string \<Rightarrow> rat \<Rightarrow> slot" where
  "demo_qslot x rt = \<lparr> slot_owner = demo_owner, reserved_at = rt,
     slot_queue = Some (ticket_marker (demo_qticket x) Selected), slot_loan = None \<rparr>"

definition claimed_world :: "string \<Rightarrow> slot \<Rightarrow> nat \<Rightarrow> nat \<Rightarrow> qdoc \<Rightarrow> qworld" where
  "claimed_world x sl ids reads d = demo_qworld\<lparr>
     cap_files := (\<lambda>_. Absent)(''digest.json'' := Present \<lparr> cap_version = 2, cap_key = ''h'', cap_slots = [(''i'', sl)] \<rparr>),
     adopted := [(''cap'', ''h'', ''i'') \<mapsto> demo_qticket x], claimed_owners := [(''u:h'', ''i'') \<mapsto> demo_owner],
     next_id := ids, clock_reads := reads, queue_file := Present d\<rparr>"

definition demo_claimed :: qworld where
  "demo_claimed = claimed_world ''x'' (demo_qslot ''x'' 2) 2 4 (claimed_doc (demo_claim ''x'' ''xx'' 3) [])"

lemmas claim_exec_simps = try_claim_def claim_body_def exec_simps q_read_def q_validated_def doc_ids_def valid_waiting_def
  valid_sequences_def journal_validate_def journal_recover_def ensure_scope_def scope_of_def journal_expire_def waits_def
  journal_claim_def ticket_create_def check_scope_binding_def binding_ready_def nonempty_def journal_record_def
  set_pending_def canon_def try_reserve_def slots_reserve_def cap_load_def at_ceiling_def write_cap_def put_slot_def
  claim_record_def set_claim_def pop_waiting_def on_scope_def slots_transition_def cap_accept_def bad_slot_def valid_marker_def
  same_slot_def slot_phase_def set_phase_def del_pending_def adopt_def cap_path_def ticket_marker_def

lemmas demo_queue_defs = demo_doc_def demo_entry_def demo_qworld_def demo_owner_def demo_qticket_def demo_claim_def
  claimed_doc_def demo_qslot_def claimed_world_def

lemma demo_claims:
  "try_claim demo_qenv ''u:h'' ''i'' (Some demo_owner) (snd (demo_enqueue demo_qworld)) = (Inr True, demo_claimed)"
  unfolding demo_enqueued snd_conv
  by (simp add: claim_exec_simps demo_claimed_def demo_queue_defs)

lemma demo_reach_claimed: "queue_reach demo_qenv demo_claimed"
proof -
  have "queue_reach demo_qenv (snd (try_claim demo_qenv ''u:h'' ''i'' (Some demo_owner) (snd (demo_enqueue demo_qworld))))"
    by (rule queue_reach.step [OF demo_reach_enqueued]) (rule queue_step.try_claim, simp)
  then show ?thesis by (simp add: demo_claims)
qed

lemma demo_claimed_view: "slot_view demo_qenv demo_claimed ''h'' ''i'' = Some (demo_qslot ''x'' 2)"
  by (simp add: slot_view_def demo_claimed_def claimed_world_def cap_path_def)

subsection \<open>Properties\<close>



text \<open>C21. Every claim whose transaction is settled owns capacity: the slot of its harness and item
  carries the claim's own ticket and is selected or activated. So a worker that holds a claim can be
  dispatched, and \<open>expire\<close> never meets an unpaired claim.\<close>

theorem claims_hold_capacity:
  assumes "queue_reach env s" and "uuids_ok env" and "queue_file s = Present d" and "claim_at d n i = Some c"
    and "c_transaction c \<notin> set (dict_keys (q_pending d))"
  shows "\<exists>sl t. slot_view env s (c_harness c) i = Some sl \<and> journal_ticket env n i c = Inr t \<and> same_slot sl t
    \<and> (slot_phase sl = Selected \<or> slot_phase sl = Activated)"
proof -
  from assms(1,2) obtain d0 where "durable s = Some d0" "queue_inv env (next_id s) (abs_q d0) (slot_view env s)"
    by (rule queue_reach_document)
  then have "slots_inv env (abs_q d) (slot_view env s)" using assms(3) by (auto simp: durable_def dest: inv_parts(3))
  with assms(4,5) show ?thesis by (auto simp: slots_inv_def paired_def dict_get_None_iff)
qed

theorem claims_hold_capacity_witness:
  "\<exists>sl t. slot_view demo_qenv demo_claimed ''h'' ''i'' = Some sl \<and> same_slot sl t
    \<and> (slot_phase sl = Selected \<or> slot_phase sl = Activated)"
  using claims_hold_capacity [OF demo_reach_claimed demo_uuids, of "claimed_doc (demo_claim ''x'' ''xx'' 3) []" "''u:h''" "''i''"
      "demo_claim ''x'' ''xx'' 3"]
  by (simp add: demo_claimed_def claimed_world_def claim_at_def scope_of_def claimed_doc_def demo_claim_def)
    (metis demo_entry_def qentry.select_convs(4))

text \<open>C22. Capacity does not leak: a slot that carries this queue's marker is always accounted for, by
  an unresolved journal record of its transaction or by the claim that owns it, also after a crash
  between any two writes.\<close>

theorem queue_capacity_accounted:
  assumes "queue_reach env s" and "uuids_ok env" and "slot_view env s k h = Some sl" and "slot_queue sl = Some m"
    and "mk_queue_root m = queue_root env"
  shows "\<exists>d. queue_file s = Present d \<and> (mk_transaction m \<in> set (dict_keys (q_pending d))
    \<or> (\<exists>n c. claim_at d n h = Some c \<and> c_transaction c = mk_transaction m \<and> c_harness c = k))"
proof -
  from assms(1,2) obtain d where d: "durable s = Some d" "queue_inv env (next_id s) (abs_q d) (slot_view env s)"
    by (rule queue_reach_document)
  then have c: "covered (abs_q d) k h m"
    using inv_parts(3) [OF d(2)] assms(3-5) by (auto simp: slots_inv_def own_marker_def)
  then have "mk_transaction m \<in> set (dict_keys (q_pending d))
      \<or> (\<exists>n c. claim_at d n h = Some c \<and> c_transaction c = mk_transaction m \<and> c_harness c = k)"
    by (cases rule: coveredE) (auto simp: map_of_SomeD rev_image_eqI dest!: map_of_SomeD)
  with d(1) show ?thesis
    by (cases "queue_file s") (auto simp: durable_def q_empty_def claim_at_def scope_of_def)
qed

theorem queue_capacity_accounted_witness:
  "\<exists>d. queue_file demo_claimed = Present d \<and> (''x'' \<in> set (dict_keys (q_pending d))
    \<or> (\<exists>n c. claim_at d n ''i'' = Some c \<and> c_transaction c = ''x'' \<and> c_harness c = ''h''))"
  using queue_capacity_accounted [OF demo_reach_claimed demo_uuids demo_claimed_view]
  by (simp add: demo_qslot_def ticket_marker_def demo_qticket_def)

lemma holds_current: "holds env s \<Longrightarrow> durable s = Some d \<Longrightarrow> current env d (s\<lparr>outcomes := x\<rparr>)"
  by (auto simp: holds_def holds_at_def current_def)

text \<open>C23. First come, first served: when \<open>try_claim\<close> succeeds, the durable queue records the item as
  claimed by exactly the given owner, and every entry that still waits in that scope was admitted
  later.\<close>

theorem claim_is_fifo:
  assumes "queue_reach env s" and "uuids_ok env" and "try_claim env n i (Some ow) s = (Inr True, t)"
  shows "\<exists>d c. queue_file t = Present d \<and> claim_at d n i = Some c \<and> c_owner c = ow \<and> entry_id (c_entry c) = i
    \<and> (\<forall>x \<in> set (waits d n). seq (c_entry c) < seq x)"
proof -
  from assms(3) obtain tk t0 where l: "q_locked env (claim_body env n i ow) s = (Inr (Some tk), t0)" and t0: "durable t = durable t0"
    by (auto simp: try_claim_def bindE_Inr adopt_def split: option.splits)
  from q_locked_result [OF l] obtain u d d' w where b: "u = s\<lparr>outcomes := outcomes u\<rparr>" "durable s = Some d"
      "claim_body env n i ow d u = (Inr (Some tk, d'), w)" "durable t0 = Some (canon d') \<or> canon d' = canon d \<and> t0 = w" by metis
  from queue_reach_holds [OF assms(1,2)] b(1,2) have cur: "current env d u" by (metis holds_current)
  from claim_body_fifo [OF b(3) cur assms(2)] obtain c where c: "claim_at d' n i = Some c" "c_owner c = ow"
      "entry_id (c_entry c) = i" "\<forall>x \<in> set (waits d' n). seq (c_entry c) < seq x" "durable w = Some (canon d')" by blast
  have "inj (uuid4 env)" using assms(2) by (simp add: uuids_ok_def)
  from hoare_apply [OF claim_body_ready [OF this] b(3) cur] have wf: "wf_doc d'" by (auto simp: some_ready_def ready_def)
  have "durable t = Some (canon d')" using b(4) c(5) t0 by auto
  moreover have "claim_at (canon d') = claim_at d'" "waits (canon d') = waits d'"
    using arg_cong [OF abs_canon [OF wf], of aq_claims] arg_cong [OF abs_canon [OF wf], of aq_waits] by simp_all
  moreover have "claim_at q_empty n i = None" by (simp add: q_empty_def claim_at_def scope_of_def)
  then have "canon d' \<noteq> q_empty" using calculation(2) c(1) by (metis option.distinct(1))
  ultimately show ?thesis
    using c by (cases "queue_file t") (auto simp: durable_def)
qed

theorem claim_is_fifo_witness:
  "\<exists>d c. queue_file demo_claimed = Present d \<and> claim_at d ''u:h'' ''i'' = Some c \<and> c_owner c = demo_owner
    \<and> entry_id (c_entry c) = ''i'' \<and> (\<forall>x \<in> set (waits d ''u:h''). seq (c_entry c) < seq x)"
  by (rule claim_is_fifo [OF demo_reach_enqueued demo_uuids demo_claims])

lemma foldr_insort_least:
  "\<forall>x \<in> set ws. f e < f x \<Longrightarrow> foldr (insort_key f) ws [e] = e # foldr (insort_key f) ws []"
  by (induction ws) auto



subsection \<open>Who may change what\<close>

text \<open>Only the complete recorded owner can give a claim back: a release under any other owner
  (another epoch of the same process included) changes neither the queue nor the capacity on disk
  and revokes no adopted ticket.\<close>

lemma release_needs_owner:
  assumes "\<And>d c. queue_file s = Present d \<Longrightarrow> claim_at d n i = Some c \<Longrightarrow> c_owner c \<noteq> ow"
  shows "queue_file (snd (release_claim env n i (Some ow) s)) = queue_file s
    \<and> cap_files (snd (release_claim env n i (Some ow) s)) = cap_files s
    \<and> adopted (snd (release_claim env n i (Some ow) s)) = adopted s"
proof -
  let ?body = "\<lambda>st. case claim_at st n i of None \<Rightarrow> ret (False, st)
     | Some c \<Rightarrow> if c_owner c \<noteq> ow then ret (False, st)
         else bindE (journal_release env st n i c False False) (\<lambda>st1. ret (True, st1))"
  let ?P = "\<lambda>t. queue_file t = queue_file s \<and> cap_files t = cap_files s \<and> adopted t = adopted s"
  have body: "?body d u = (Inr (False, d), u)" if "q_read env u = (Inr d, u')" "?P u" for d u u'
    using assms [of d] that
    by (auto simp: q_read_def bindE_def q_validated_def q_empty_def claim_at_def scope_of_def
        split: stored.splits if_splits sum.splits option.splits)
  have lock: "?P u" if "exclusive_lock LockUnavailable s = (r, u)" for r u
    using that by (auto simp: exclusive_lock_def next_outcome_def bindE_def guardE_def split: list.splits if_splits)
  have read: "u' = u" if "q_read env u = (r, u')" for u r u'
    using that by (auto simp: q_read_def bindE_def split: stored.splits)
  have "fst (q_locked env ?body s) \<noteq> Inr True \<and> ?P (snd (q_locked env ?body s))"
  proof (cases "exclusive_lock LockUnavailable s")
    case (Pair r u)
    note P = lock [OF Pair]
    show ?thesis
    proof (cases r)
      case (Inl e)
      then show ?thesis using Pair P by (simp add: q_locked_def catchE_def bindE_def)
    next
      case (Inr x)
      obtain r2 u2 where q: "q_read env u = (r2, u2)" by (cases "q_read env u")
      show ?thesis
      proof (cases r2)
        case (Inl e)
        then show ?thesis using Pair Inr P q read [OF q] by (simp add: q_locked_def catchE_def bindE_def)
      next
        case (Inr d)
        have "?body d u2 = (Inr (False, d), u2)" using body [of u d u2] q P read [OF q] Inr by simp
        then have "q_locked env ?body s = (Inr False, u2)"
          unfolding q_locked_def catchE_def bindE_def [of "exclusive_lock _"] Pair \<open>r = Inr x\<close>
          by (simp add: bindE_def [of "q_read env"] q Inr bindE_def [of "?body d"])
        then show ?thesis using P read [OF q] by simp
      qed
    qed
  qed
  then show ?thesis
    by (auto simp: release_claim_def retained_owner_def bindE_def split: prod.split sum.split)
qed

text \<open>C25. Recovery needs proof: a journal record whose owner is not proved dead, or whose slot was
  activated, is only reported as quarantined; neither store changes.\<close>

theorem recovery_needs_proof:
  assumes "q_liveness env (tk_owner (p_ticket rec)) \<noteq> Some False
    \<or> (\<exists>sl. slot_view env s (tk_key (p_ticket rec)) (tk_holder (p_ticket rec)) = Some sl \<and> is_activated_phase (slot_phase sl))"
  shows "recover_one env x rec st s = (Inr (Quarantined (tk_holder (p_ticket rec)), st), s)
    \<or> (\<exists>e. recover_one env x rec st s = (Inl e, s))"
proof (cases "journal_decode env x rec")
  case (Inl e)
  then show ?thesis by (simp add: recover_one_def)
next
  case (Inr t)
  then have t: "t = p_ticket rec" by (rule journal_decodeD(1))
  obtain r u where ph: "slots_phase env t s = (r, u)" by (cases "slots_phase env t s")
  have u: "u = s" using slots_phase_state [of env t s] ph by simp
  show ?thesis
  proof (cases r)
    case (Inl e)
    then show ?thesis using Inr ph u by (simp add: recover_one_def bindE_def)
  next
    case ph': (Inr p)
    have "case p of None \<Rightarrow> tk_slot (slot_view env s) t = None
        | Some q \<Rightarrow> \<exists>sl. tk_slot (slot_view env s) t = Some sl \<and> slot_phase sl = q"
      using hoare_apply [OF slots_phase_triple [of "\<lambda>s'. s' = s"] ph [unfolded ph']] by (auto split: option.splits)
    then have "(case p of None \<Rightarrow> False | Some q \<Rightarrow> is_activated_phase q) \<or> q_liveness env (tk_owner t) \<noteq> Some False"
      using assms t by (auto split: option.splits)
    then show ?thesis using Inr ph ph' u t by (auto simp: recover_one_def bindE_def)
  qed
qed

theorem recovery_needs_proof_witness:
  "recover_one demo_qenv ''x'' (journal_record demo_qenv Op_claim ''u:h'' demo_entry (demo_qticket ''x'')) demo_doc demo_claimed
     = (Inr (Quarantined ''i'', demo_doc), demo_claimed)
   \<or> (\<exists>e. recover_one demo_qenv ''x'' (journal_record demo_qenv Op_claim ''u:h'' demo_entry (demo_qticket ''x'')) demo_doc
        demo_claimed = (Inl e, demo_claimed))"
  using recovery_needs_proof [of demo_qenv "journal_record demo_qenv Op_claim ''u:h'' demo_entry (demo_qticket ''x'')"
      demo_claimed "''x''" demo_doc]
  by (simp add: demo_qticket_def)

text \<open>C26. The polling loop of \<open>claim\<close> ends: once some clock reading reaches the deadline, the loop has
  returned or raised by then, whatever the attempts do.\<close>

theorem claim_poll_returns:
  assumes "monotonic env (k + m) \<ge> deadline" and "m < fuel"
  shows "fst (claim_poll fuel env n i ow deadline k s) \<noteq> Inr None"
  using assms
proof (induction fuel arbitrary: k m s)
  case (Suc fuel)
  obtain r t where r: "try_claim env n i (Some ow) s = (r, t)" by (cases "try_claim env n i (Some ow) s")
  show ?case
  proof (cases "monotonic env k \<ge> deadline")
    case True
    then show ?thesis using r by (cases r) (auto simp: bindE_def)
  next
    case False
    then obtain m' where m: "m = Suc m'" using Suc.prems by (cases m) auto
    have "fst (claim_poll fuel env n i ow deadline (Suc k) t) \<noteq> Inr None"
      by (rule Suc.IH [of "Suc k" m']) (use Suc.prems m in auto)
    then show ?thesis using r False by (cases r) (auto simp: bindE_def)
  qed
qed simp

theorem claim_poll_returns_witness:
  "fst (claim_poll 4 demo_qenv ''u:h'' ''i'' demo_owner 3 0 demo_qworld) \<noteq> Inr None"
  by (rule claim_poll_returns [where m = 3]) simp_all

subsection \<open>Where the queue locks itself out\<close>

text \<open>\<open>enqueue\<close> accepts a scope that ends in a colon without an explicit harness. It stores an
  entry with an empty harness, which every later read of the document refuses: the queue, with all
  its scopes, is then unusable.\<close>

lemma enqueue_empty_harness:
  assumes "queue_file s = Absent" and "outcomes s = []" and "n \<noteq> []" and "i \<noteq> []" and "harness_of n = []"
  shows "fst (enqueue env n (Some i) None None None None s) = Inr i
    \<and> fst (q_read env (snd (enqueue env n (Some i) None None None None s))) = Inl CorruptState"
  using assms
  by (simp add: enqueue_def exec_simps q_read_def add_entry_def existing_bindings_def append_waiting_def on_scope_def
      ensure_scope_def scope_of_def canon_def check_scope_binding_def binding_ready_def q_empty_def q_validated_def
      doc_ids_def valid_waiting_def)

text \<open>The state after a claim whose reservation failed with a storage error and a second attempt
  of the same worker that succeeded: the first journal record is still there, and the item's slot
  belongs to the second transaction.\<close>

definition stale_record :: pending_record where
  "stale_record = journal_record demo_qenv Op_claim ''u:h'' demo_entry (demo_qticket ''x'')"

definition demo_intent :: qworld where
  "demo_intent = demo_qworld\<lparr>next_id := 1, clock_reads := 2, queue_file := Present (demo_doc\<lparr>q_pending := [(''x'', stale_record)]\<rparr>)\<rparr>"

definition demo_wedged :: qworld where
  "demo_wedged = claimed_world ''xx'' (demo_qslot ''xx'' 3) 3 5 (claimed_doc (demo_claim ''xx'' ''xxx'' 4) [(''x'', stale_record)])"

lemma demo_first_attempt:
  "try_claim demo_qenv ''u:h'' ''i'' (Some demo_owner)
     ((snd (demo_enqueue demo_qworld))\<lparr>outcomes := [Io_ok, Io_ok, Io_fail]\<rparr>) = (Inl CapacityError, demo_intent)"
  unfolding demo_enqueued snd_conv
  by (simp add: claim_exec_simps demo_intent_def stale_record_def demo_queue_defs locked_error_def)

lemmas recover_exec_simps = valid_pending_def valid_claim_def journal_ticket_def claim_matches_entry_def recover_one_def
  slots_phase_def is_activated_phase_def journal_decode_def

lemma demo_second_attempt:
  "try_claim demo_qenv ''u:h'' ''i'' (Some demo_owner) demo_intent = (Inr True, demo_wedged)"
  by (simp add: claim_exec_simps recover_exec_simps demo_wedged_def demo_intent_def stale_record_def demo_queue_defs)

definition dead_qenv :: queue_env where
  "dead_qenv = demo_qenv\<lparr>q_liveness := (\<lambda>_. Some False)\<rparr>"

lemma dead_qenv_sel [simp]:
  "cap_root dead_qenv = ''cap''" "sha256 dead_qenv t = ''digest''" "queue_root dead_qenv = ''q''" "q_liveness dead_qenv ow = Some False"
  by (simp_all add: dead_qenv_def)

lemma wedged_read: "q_read dead_qenv demo_wedged = (Inr (claimed_doc (demo_claim ''xx'' ''xxx'' 4) [(''x'', stale_record)]), demo_wedged)"
  by (simp add: claim_exec_simps recover_exec_simps demo_wedged_def stale_record_def demo_queue_defs)

lemma wedged_recover:
  "journal_recover dead_qenv (claimed_doc (demo_claim ''xx'' ''xxx'' 4) [(''x'', stale_record)]) demo_wedged
     = (Inl CapacityUnavailable, demo_wedged)"
  by (simp add: claim_exec_simps recover_exec_simps demo_wedged_def stale_record_def demo_queue_defs)

lemma wedged_lock: "exclusive_lock e demo_wedged = (Inr (), demo_wedged)"
  by (simp add: exec_simps demo_wedged_def claimed_world_def demo_qworld_def)


end
