(* ===== verification/Patterns.thy ===== *)
theory Patterns
  imports Prelude
begin

text \<open>
  The part of Python's \<open>re\<close> and \<open>shlex\<close> modules that the shell guardrails use.

  \<^item> \<open>rx\<close> is the syntax of the patterns (classes, sequence, alternative, greedy star, anchors,
    word boundaries, lookahead, a fixed-width negative lookbehind). \<open>ends\<close> is a backtracking
    matcher: it lists the positions at which a match started at a position can end, in the
    order in which Python tries them. \<open>search\<close>, \<open>match_start\<close> and \<open>fullmatch\<close> are the three
    entry points. \<open>matches\<close> is the declarative relation, and \<open>ends_iff\<close> says that the matcher
    finds exactly the matches of the relation.
  \<^item> \<open>read_tokens\<close> is \<open>shlex.shlex\<close> in the configuration of \<open>shell_lexer\<close>: POSIX mode, no
    comments, blanks instead of Unicode space, \<open>whitespace_split\<close>, and a set of punctuation
    characters which may be empty.
\<close>

subsection \<open>Character classes\<close>

definition code :: "char \<Rightarrow> nat" where
  "code c = of_char c"

definition is_digit :: "char \<Rightarrow> bool" where
  "is_digit c \<longleftrightarrow> 48 \<le> code c \<and> code c \<le> 57"

definition is_lower :: "char \<Rightarrow> bool" where
  "is_lower c \<longleftrightarrow> 97 \<le> code c \<and> code c \<le> 122"

definition is_upper :: "char \<Rightarrow> bool" where
  "is_upper c \<longleftrightarrow> 65 \<le> code c \<and> code c \<le> 90"

text \<open>Python's \<open>\w\<close> on the code points below 256.\<close>

definition is_word :: "char \<Rightarrow> bool" where
  "is_word c \<longleftrightarrow> is_digit c \<or> is_lower c \<or> is_upper c \<or> code c = 95
     \<or> (let n = code c in n = 170 \<or> n = 178 \<or> n = 179 \<or> n = 181 \<or> n = 185 \<or> n = 186
          \<or> (188 \<le> n \<and> n \<le> 190) \<or> (192 \<le> n \<and> n \<noteq> 215 \<and> n \<noteq> 247))"

definition lower_char :: "char \<Rightarrow> char" where
  "lower_char c = (if is_upper c then char_of (code c + 32) else c)"

definition among :: "string \<Rightarrow> char \<Rightarrow> bool" where
  "among s c \<longleftrightarrow> c \<in> set s"

definition none_of :: "string \<Rightarrow> char \<Rightarrow> bool" where
  "none_of s c \<longleftrightarrow> c \<notin> set s"

text \<open>\<open>str.lower()\<close> on these characters.\<close>

definition py_lower_char :: "char \<Rightarrow> char" where
  "py_lower_char c = (if is_upper c \<or> (192 \<le> code c \<and> code c \<le> 222 \<and> code c \<noteq> 215)
                      then char_of (code c + 32) else c)"

definition py_lower :: "string \<Rightarrow> string" where
  "py_lower s = map py_lower_char s"

subsection \<open>Patterns and positions\<close>

datatype rx =
    Eps
  | Cls "char \<Rightarrow> bool"
  | Cat rx rx
  | Alt rx rx
  | Star rx
  | Bol
  | Eol
  | Boundary
  | Ahead rx
  | NotAhead rx
  | NotBehind "(char \<Rightarrow> bool) list"

text \<open>A position in a text: what has been read, reversed, and what is left.\<close>

type_synonym pos = "string \<times> string"

fun all_cls :: "(char \<Rightarrow> bool) list \<Rightarrow> string \<Rightarrow> bool" where
  "all_cls [] s = True"
| "all_cls (p # ps) [] = False"
| "all_cls (p # ps) (c # cs) = (p c \<and> all_cls ps cs)"

definition word_at :: "string \<Rightarrow> bool" where
  "word_at s = (case s of [] \<Rightarrow> False | c # _ \<Rightarrow> is_word c)"

text \<open>\<open>$\<close> without \<open>MULTILINE\<close>: at the end, or before a newline that ends the text.\<close>

definition at_eol :: "string \<Rightarrow> bool" where
  "at_eol s \<longleftrightarrow> s = [] \<or> s = [CHR 0x0A]"

function (sequential) ends :: "rx \<Rightarrow> pos \<Rightarrow> pos list" where
  "ends Eps p = [p]"
| "ends (Cls f) p = (case snd p of [] \<Rightarrow> [] | c # cs \<Rightarrow> if f c then [(c # fst p, cs)] else [])"
| "ends (Cat a b) p = concat (map (ends b) (ends a p))"
| "ends (Alt a b) p = ends a p @ ends b p"
| "ends (Star a) p =
     concat (map (ends (Star a)) (filter (\<lambda>q. length (snd q) < length (snd p)) (ends a p))) @ [p]"
| "ends Bol p = (if fst p = [] then [p] else [])"
| "ends Eol p = (if at_eol (snd p) then [p] else [])"
| "ends Boundary p = (if word_at (fst p) \<noteq> word_at (snd p) then [p] else [])"
| "ends (Ahead a) p = (if ends a p \<noteq> [] then [p] else [])"
| "ends (NotAhead a) p = (if ends a p = [] then [p] else [])"
| "ends (NotBehind ps) p = (if all_cls (rev ps) (fst p) then [] else [p])"
  by pat_completeness auto

termination
  by (relation "(\<lambda>(r, p). size r) <*mlex*> measure (\<lambda>(r, p). length (snd p))")
     (auto intro: mlex_less mlex_leq simp: wf_mlex)

lemmas ends_Star = ends.simps(5)
declare ends_Star [simp del]

definition starts :: "string \<Rightarrow> pos list" where
  "starts s = map (\<lambda>k. (rev (take k s), drop k s)) [0..<Suc (length s)]"

definition search :: "rx \<Rightarrow> string \<Rightarrow> bool" where
  "search r s \<longleftrightarrow> list_ex (\<lambda>p. ends r p \<noteq> []) (starts s)"

definition match_start :: "rx \<Rightarrow> string \<Rightarrow> bool" where
  "match_start r s \<longleftrightarrow> ends r ([], s) \<noteq> []"

definition fullmatch :: "rx \<Rightarrow> string \<Rightarrow> bool" where
  "fullmatch r s \<longleftrightarrow> list_ex (\<lambda>q. snd q = []) (ends r ([], s))"

subsection \<open>Derived forms\<close>

fun cats :: "rx list \<Rightarrow> rx" where
  "cats [] = Eps"
| "cats [r] = r"
| "cats (r # s # rs) = Cat r (cats (s # rs))"

fun alts :: "rx list \<Rightarrow> rx" where
  "alts [] = Cls (\<lambda>_. False)"
| "alts [r] = r"
| "alts (r # s # rs) = Alt r (alts (s # rs))"

definition lit :: "string \<Rightarrow> rx" where
  "lit w = cats (map (\<lambda>c. Cls (\<lambda>x. x = c)) w)"

text \<open>A literal under \<open>IGNORECASE\<close>.\<close>

definition ilit :: "string \<Rightarrow> rx" where
  "ilit w = cats (map (\<lambda>c. Cls (\<lambda>x. lower_char x = lower_char c)) w)"

definition opt :: "rx \<Rightarrow> rx" where
  "opt r = Alt r Eps"

definition plus :: "rx \<Rightarrow> rx" where
  "plus r = Cat r (Star r)"

abbreviation (input) spaces :: rx where
  "spaces \<equiv> Star (Cls py_space)"

abbreviation (input) spaces1 :: rx where
  "spaces1 \<equiv> plus (Cls py_space)"

subsection \<open>What a match is\<close>

text \<open>A pattern denotes a relation between positions; a star is the reflexive transitive closure.\<close>

primrec matches :: "rx \<Rightarrow> (pos \<times> pos) set" where
  "matches Eps = Id"
| "matches (Cls f) = {((l, c # cs), (c # l, cs)) | l c cs. f c}"
| "matches (Cat a b) = matches a O matches b"
| "matches (Alt a b) = matches a \<union> matches b"
| "matches (Star a) = (matches a)\<^sup>*"
| "matches Bol = Id_on {p. fst p = []}"
| "matches Eol = Id_on {p. at_eol (snd p)}"
| "matches Boundary = Id_on {p. word_at (fst p) \<noteq> word_at (snd p)}"
| "matches (Ahead a) = Id_on (Domain (matches a))"
| "matches (NotAhead a) = Id_on (- Domain (matches a))"
| "matches (NotBehind ps) = Id_on {p. \<not> all_cls (rev ps) (fst p)}"

text \<open>A match moves forward in one text: either it reads something or the position is the same.\<close>

definition forward :: "(pos \<times> pos) set" where
  "forward = {(p, q). \<exists>w. snd p = w @ snd q \<and> fst q = rev w @ fst p}"

lemma forward_refl: "(p, p) \<in> forward"
  by (simp add: forward_def)

lemma forward_trans: "(p, q) \<in> forward \<Longrightarrow> (q, r) \<in> forward \<Longrightarrow> (p, r) \<in> forward"
  by (fastforce simp: forward_def)

lemma forward_rtrancl: "R \<subseteq> forward \<Longrightarrow> R\<^sup>* \<subseteq> forward"
proof (rule subrelI)
  fix p q assume sub: "R \<subseteq> forward" and "(p, q) \<in> R\<^sup>*"
  from this(2) show "(p, q) \<in> forward"
  proof induction
    case (step y z)
    with sub show ?case by (blast intro: forward_trans)
  qed (rule forward_refl)
qed

lemma matches_forward: "matches r \<subseteq> forward"
proof (induction r)
  case (Cat a b)
  then show ?case by (auto intro: forward_trans)
next
  case (Star a)
  then show ?case by (simp add: forward_rtrancl)
qed (auto simp: forward_def Id_on_def)

lemma forward_progress: "(p, q) \<in> forward \<Longrightarrow> length (snd q) < length (snd p) \<or> q = p"
  by (cases p; cases q) (auto simp: forward_def)

text \<open>Steps of a star that read nothing can be left out, which is what the matcher does.\<close>

lemma rtrancl_progress:
  assumes "R \<subseteq> forward" "(p, s) \<in> R\<^sup>*" "p \<noteq> s"
  shows "\<exists>q. (p, q) \<in> R \<and> length (snd q) < length (snd p) \<and> (q, s) \<in> R\<^sup>*"
  using assms(2,3)
proof (induction rule: converse_rtrancl_induct)
  case (step y z)
  show ?case
  proof (cases "z = y")
    case False
    with step(1) assms(1) have "length (snd z) < length (snd y)" using forward_progress by blast
    with step show ?thesis by blast
  qed (use step in auto)
qed simp

lemma star_ends:
  assumes "\<And>p q. q \<in> set (ends a p) \<longleftrightarrow> (p, q) \<in> matches a"
  shows "s \<in> set (ends (Star a) p) \<longleftrightarrow> (p, s) \<in> (matches a)\<^sup>*"
proof (induction "length (snd p)" arbitrary: p rule: less_induct)
  case less
  have "s \<in> set (ends (Star a) p) \<longleftrightarrow>
      (\<exists>q. (p, q) \<in> matches a \<and> length (snd q) < length (snd p) \<and> (q, s) \<in> (matches a)\<^sup>*) \<or> s = p"
    by (subst ends_Star) (use less in \<open>fastforce simp: assms\<close>)
  also have "\<dots> \<longleftrightarrow> (p, s) \<in> (matches a)\<^sup>*"
    using rtrancl_progress [OF matches_forward, of p s a] by (auto intro: converse_rtrancl_into_rtrancl)
  finally show ?case .
qed

lemma no_ends:
  assumes "\<And>q. q \<in> set (ends a p) \<longleftrightarrow> (p, q) \<in> matches a"
  shows "ends a p = [] \<longleftrightarrow> p \<notin> Domain (matches a)"
proof -
  have "ends a p = [] \<longleftrightarrow> (\<forall>q. q \<notin> set (ends a p))" by (cases "ends a p") auto
  then show ?thesis by (simp only: assms Domain_iff) simp
qed

theorem ends_iff: "q \<in> set (ends r p) \<longleftrightarrow> (p, q) \<in> matches r"
proof (induction r arbitrary: p q)
  case (Cls f)
  then show ?case by (cases p; cases q; cases "snd p") auto
next
  case (Cat a b)
  have "q \<in> set (ends (Cat a b) p) \<longleftrightarrow> (\<exists>m. m \<in> set (ends a p) \<and> q \<in> set (ends b m))" by auto
  then show ?case by (simp only: Cat matches.simps relcomp_unfold mem_Collect_eq) auto
next
  case (Star a)
  then show ?case using star_ends [of a q p] by simp
next
  case (Ahead a)
  then show ?case by (auto simp: no_ends Id_on_iff)
next
  case (NotAhead a)
  then show ?case by (auto simp: no_ends Id_on_iff)
qed (auto simp: Id_on_iff)

lemma starts_iff: "p \<in> set (starts s) \<longleftrightarrow> rev (fst p) @ snd p = s"
proof
  assume "p \<in> set (starts s)"
  then show "rev (fst p) @ snd p = s" by (auto simp: starts_def simp del: upt_Suc)
next
  assume "rev (fst p) @ snd p = s"
  then show "p \<in> set (starts s)"
    by (cases p) (auto simp: starts_def image_iff simp del: upt_Suc intro!: bexI [of _ "length (fst p)"])
qed

text \<open>\<open>re.search\<close> succeeds exactly when the text has a decomposition that the pattern relates.\<close>

lemma search_iff: "search r s \<longleftrightarrow> (\<exists>l t q. s = rev l @ t \<and> ((l, t), q) \<in> matches r)"
  unfolding search_def list_ex_iff
  by (metis (no_types, opaque_lifting) ends_iff starts_iff fst_conv snd_conv surj_pair
      list.set_intros(1) neq_Nil_conv empty_iff empty_set)

lemma search_Cls: "search (Cls f) s \<longleftrightarrow> (\<exists>c \<in> set s. f c)"
proof
  assume "search (Cls f) s"
  then show "\<exists>c \<in> set s. f c" by (auto simp: search_iff)
next
  assume "\<exists>c \<in> set s. f c"
  then obtain c xs ys where "f c" "s = xs @ c # ys" by (metis split_list)
  then have "s = rev (rev xs) @ c # ys" "((rev xs, c # ys), (c # rev xs, ys)) \<in> matches (Cls f)" by auto
  then show "search (Cls f) s" unfolding search_iff by blast
qed

lemma search_Alt: "search (Alt a b) s \<longleftrightarrow> search a s \<or> search b s"
  by (auto simp: search_iff)

subsection \<open>Shell words\<close>

datatype lex_state = L_blank | L_word | L_punct | L_quote char | L_escape "char option"

definition shell_blank :: "char \<Rightarrow> bool" where
  "shell_blank c \<longleftrightarrow> c = CHR '' '' \<or> c = CHR 0x09 \<or> c = CHR 0x0A"

definition backslash :: char where
  "backslash = CHR 0x5C"

definition squote :: char where
  "squote = CHR 0x27"

definition dquote :: char where
  "dquote = CHR 0x22"

definition is_quote :: "char \<Rightarrow> bool" where
  "is_quote c \<longleftrightarrow> c = squote \<or> c = dquote"

lemmas shell_chars = shell_blank_def backslash_def squote_def dquote_def is_quote_def

text \<open>The state and the token after a character that is not blank, read between two words.\<close>

definition enter :: "string \<Rightarrow> char \<Rightarrow> lex_state \<times> string" where
  "enter pc c =
     (if c = backslash then (L_escape None, [])
      else if c \<in> set pc then (L_punct, [c])
      else if is_quote c then (L_quote c, [])
      else (L_word, [c]))"

text \<open>
  \<open>read_tokens pc st tok quoted s\<close> are the tokens read from \<open>s\<close> and whether the input ended
  outside quotes and escapes; Python raises \<open>ValueError\<close> in the other case, after having
  returned the tokens before it.
\<close>

fun read_tokens :: "string \<Rightarrow> lex_state \<Rightarrow> string \<Rightarrow> bool \<Rightarrow> string \<Rightarrow> string list \<times> bool" where
  "read_tokens pc st tok q [] =
     (case st of
        L_quote _ \<Rightarrow> ([], False)
      | L_escape _ \<Rightarrow> ([], False)
      | _ \<Rightarrow> (if tok \<noteq> [] \<or> q then [tok] else [], True))"
| "read_tokens pc st tok q (c # cs) =
     (let emit = (\<lambda>r. if tok \<noteq> [] \<or> q then (tok # fst r, snd r) else r) in
      case st of
        L_blank \<Rightarrow>
          if shell_blank c then read_tokens pc L_blank [] False cs
          else read_tokens pc (fst (enter pc c)) (snd (enter pc c)) False cs
      | L_quote d \<Rightarrow>
          if c = d then read_tokens pc L_word tok True cs
          else if c = backslash \<and> d = dquote then read_tokens pc (L_escape (Some d)) tok True cs
          else read_tokens pc (L_quote d) (tok @ [c]) True cs
      | L_escape None \<Rightarrow> read_tokens pc L_word (tok @ [c]) q cs
      | L_escape (Some d) \<Rightarrow>
          read_tokens pc (L_quote d)
            (tok @ (if c \<noteq> backslash \<and> c \<noteq> d then [backslash] else []) @ [c]) q cs
      | L_word \<Rightarrow>
          if shell_blank c then emit (read_tokens pc L_blank [] False cs)
          else if is_quote c then read_tokens pc (L_quote c) tok q cs
          else if c = backslash then read_tokens pc (L_escape None) tok q cs
          else if c \<notin> set pc then read_tokens pc L_word (tok @ [c]) q cs
          else emit (read_tokens pc (fst (enter pc c)) (snd (enter pc c)) False cs)
      | L_punct \<Rightarrow>
          if shell_blank c then emit (read_tokens pc L_blank [] False cs)
          else if c \<in> set pc then read_tokens pc L_punct (tok @ [c]) q cs
          else emit (read_tokens pc (fst (enter pc c)) (snd (enter pc c)) False cs))"

text \<open>\<open>shlex.quote\<close>: safe words stay, others are put in single quotes.\<close>

definition quote_safe :: "char \<Rightarrow> bool" where
  "quote_safe c \<longleftrightarrow> is_digit c \<or> is_lower c \<or> is_upper c \<or> c \<in> set ''_@%+=:,./-''"

definition quote_char :: "char \<Rightarrow> string" where
  "quote_char c = (if c = squote then [squote, dquote, squote, dquote, squote] else [c])"

definition shlex_quote :: "string \<Rightarrow> string" where
  "shlex_quote s =
     (if s = [] then [squote, squote]
      else if list_all quote_safe s then s
      else [squote] @ concat (map quote_char s) @ [squote])"

text \<open>Reading back a quoted word.\<close>

lemma read_quoted:
  "read_tokens pc (L_quote squote) tok q (concat (map quote_char s) @ squote # rest)
     = read_tokens pc L_word (tok @ s) True rest"
  by (induction s arbitrary: tok q)
     (simp_all add: quote_char_def Let_def is_quote_def shell_blank_def squote_def dquote_def backslash_def)

lemma quote_safe_plain:
  assumes "quote_safe c"
  shows "\<not> shell_blank c" "\<not> is_quote c" "c \<noteq> backslash"
  using assms by (auto simp: quote_safe_def shell_chars is_digit_def is_lower_def is_upper_def code_def)

text \<open>Punctuation sets that hold no quote, no backslash and no character \<open>shlex.quote\<close> leaves bare.\<close>

definition punctuation_ok :: "string \<Rightarrow> bool" where
  "punctuation_ok pc \<longleftrightarrow> list_all (\<lambda>c. \<not> quote_safe c \<and> \<not> is_quote c \<and> c \<noteq> backslash \<and> \<not> shell_blank c) pc"

lemma punctuation_okD:
  "punctuation_ok pc \<Longrightarrow> quote_safe c \<Longrightarrow> c \<notin> set pc"
  "punctuation_ok pc \<Longrightarrow> squote \<notin> set pc"
  by (auto simp: punctuation_ok_def list_all_iff is_quote_def)

lemma read_safe:
  "punctuation_ok pc \<Longrightarrow> list_all quote_safe s
   \<Longrightarrow> read_tokens pc L_word tok q (s @ rest) = read_tokens pc L_word (tok @ s) q rest"
  by (induction s arbitrary: tok) (simp_all add: quote_safe_plain punctuation_okD Let_def)

lemma read_quote:
  assumes "punctuation_ok pc"
  shows "read_tokens pc L_blank [] False (shlex_quote s @ rest)
     = read_tokens pc L_word s (s = [] \<or> \<not> list_all quote_safe s) rest"
proof (cases "s = [] \<or> \<not> list_all quote_safe s")
  case True
  have "enter pc squote = (L_quote squote, [])" "\<not> shell_blank squote"
    using punctuation_okD(2) [OF assms] by (simp_all add: enter_def shell_chars)
  with True show ?thesis
    using read_quoted [of pc "[]" False s rest] by (auto simp: shlex_quote_def quote_char_def)
next
  case False
  then obtain c cs where s: "s = c # cs" "quote_safe c" "list_all quote_safe cs" by (cases s) auto
  then show ?thesis
    using assms by (simp add: shlex_quote_def quote_safe_plain enter_def read_safe punctuation_okD)
qed

fun join_words :: "string list \<Rightarrow> string" where
  "join_words [] = []"
| "join_words [w] = w"
| "join_words (w # v # ws) = w @ CHR '' '' # join_words (v # ws)"

text \<open>A command line made of quoted words splits back into exactly those words.\<close>

lemma read_join_quoted:
  assumes "punctuation_ok pc"
  shows "read_tokens pc L_blank [] False (join_words (map shlex_quote ws)) = (ws, True)"
proof (induction ws rule: induct_list012)
  case (2 w)
  then show ?case using read_quote [OF assms, of w "[]"] by auto
next
  case (3 w v ws)
  then show ?case by (auto simp: read_quote [OF assms] shell_blank_def)
qed simp

end
