(* ===== verification/Shell_Syntax.thy ===== *)
theory Shell_Syntax
  imports Patterns
begin

text \<open>
  The lexical views of a shell command that the guardrails share
  (\<open>garuda/core/shell_syntax.py\<close>): an annotated scan of quotes, escapes and comments, the
  removal of simple comments, the test for history references, and the split of a command at
  its unquoted control operators. Then \<open>to_shell_string\<close> of
  \<open>garuda/workspace/sandbox_policy.py\<close>, the quoted form of an argument vector.

  The lemmas show that the split loses nothing (the pieces joined by the operators are the
  command), that it only cuts at unquoted positions, and that comment removal only deletes
  characters, none of them a newline.
\<close>

subsection \<open>Definitions\<close>

definition SHELL_OPERATORS :: string where
  "SHELL_OPERATORS = '';&|()<>''"

definition COMPLEX_SYNTAX :: "string list" where
  "COMPLEX_SYNTAX =
     [''$('', ''${'', [CHR ''$'', squote], [CHR ''$'', dquote], [CHR 0x60], ''<<'', ''(('', ''['' @ ''['']"

record shell_character =
  sc_index :: nat
  sc_char :: char
  sc_quote :: "char option"
  sc_escaped :: bool
  sc_comment :: bool

record shell_scan =
  characters :: "shell_character list"
  complete :: bool

definition shell_lexer :: "string \<Rightarrow> string \<Rightarrow> string list \<times> bool" where
  "shell_lexer text pc = read_tokens pc L_blank [] False text"

text \<open>The variables of the loop of \<open>scan_shell\<close>.\<close>

record scan_vars =
  v_quote :: "char option"
  v_escaped :: bool
  v_comment :: bool
  v_word_start :: bool

definition enters_comment :: "bool \<Rightarrow> scan_vars \<Rightarrow> char \<Rightarrow> bool" where
  "enters_comment comments v c \<longleftrightarrow>
     comments \<and> v_quote v = None \<and> \<not> v_escaped v \<and> v_word_start v \<and> c = CHR ''#''"

definition scan_step :: "bool \<Rightarrow> scan_vars \<Rightarrow> char \<Rightarrow> scan_vars" where
  "scan_step comments w c =
     (let v = (if enters_comment comments w c then w\<lparr>v_comment := True\<rparr> else w) in
      if v_comment v then
        (if c = CHR 0x0A then v\<lparr>v_comment := False, v_word_start := True\<rparr> else v)
      else if v_escaped v then
        (if c \<noteq> CHR 0x0A then v\<lparr>v_escaped := False, v_word_start := False\<rparr> else v\<lparr>v_escaped := False\<rparr>)
      else if c = backslash \<and> v_quote v \<noteq> Some squote then v\<lparr>v_escaped := True\<rparr>
      else if v_quote v \<noteq> None then (if v_quote v = Some c then v\<lparr>v_quote := None\<rparr> else v)
      else if is_quote c then v\<lparr>v_quote := Some c, v_word_start := False\<rparr>
      else v\<lparr>v_word_start := (shell_blank c \<or> c \<in> set SHELL_OPERATORS)\<rparr>)"

fun scan_loop :: "bool \<Rightarrow> scan_vars \<Rightarrow> nat \<Rightarrow> string \<Rightarrow> shell_character list \<times> scan_vars" where
  "scan_loop comments v i [] = ([], v)"
| "scan_loop comments v i (c # cs) =
     (let r = scan_loop comments (scan_step comments v c) (Suc i) cs in
      (\<lparr>sc_index = i, sc_char = c, sc_quote = v_quote v, sc_escaped = v_escaped v,
        sc_comment = (v_comment v \<or> enters_comment comments v c)\<rparr> # fst r, snd r))"

definition scan_start :: scan_vars where
  "scan_start = \<lparr>v_quote = None, v_escaped = False, v_comment = False, v_word_start = True\<rparr>"

definition scan_shell :: "bool \<Rightarrow> string \<Rightarrow> shell_scan" where
  "scan_shell comments text =
     (let r = scan_loop comments scan_start 0 text in
      \<lparr>characters = fst r, complete = (v_quote (snd r) = None \<and> \<not> v_escaped (snd r))\<rparr>)"

definition complex_syntax :: "string \<Rightarrow> bool" where
  "complex_syntax text \<longleftrightarrow> list_ex (contains text) COMPLEX_SYNTAX"

definition strip_simple_comments :: "string \<Rightarrow> string" where
  "strip_simple_comments text =
     (if complex_syntax text then text
      else map sc_char (filter (\<lambda>item. \<not> sc_comment item \<or> sc_char item = CHR 0x0A)
             (characters (scan_shell True text))))"

definition has_history_reference :: "string \<Rightarrow> bool" where
  "has_history_reference text =
     (if CHR ''!'' \<notin> set text then False
      else if complex_syntax text then True
      else list_ex (\<lambda>item. sc_char item = CHR ''!''
                       \<and> (sc_comment item \<or> \<not> sc_escaped item \<and> sc_quote item \<noteq> Some squote))
             (characters (scan_shell True text)))"

definition control_operators :: "string list" where
  "control_operators = [''&&'', ''||'', ''|'', '';'', [CHR 0x0A]]"

definition operator_at :: "string \<Rightarrow> nat \<Rightarrow> string option" where
  "operator_at text i = find (\<lambda>op. startswith (drop i text) op) control_operators"

text \<open>The loop of \<open>split_segments\<close> over the scan, with its variables \<open>start\<close> and \<open>segments\<close>.\<close>

fun split_loop :: "string \<Rightarrow> nat \<Rightarrow> shell_character list \<Rightarrow> string list" where
  "split_loop text start [] = [drop start text]"
| "split_loop text start (item # items) =
     (if sc_index item < start \<or> sc_quote item \<noteq> None \<or> sc_escaped item
      then split_loop text start items
      else case operator_at text (sc_index item) of
          None \<Rightarrow> split_loop text start items
        | Some op \<Rightarrow> take (sc_index item - start) (drop start text)
                      # split_loop text (sc_index item + length op) items)"

definition all_segments :: "string \<Rightarrow> string list" where
  "all_segments text = split_loop text 0 (characters (scan_shell False text))"

definition split_segments :: "string \<Rightarrow> string list" where
  "split_segments command = filter (\<lambda>segment. py_strip segment \<noteq> []) (all_segments command)"

definition to_shell_string :: "string list \<Rightarrow> string" where
  "to_shell_string argv = join_words (map shlex_quote argv)"

subsection \<open>The scan\<close>

lemma scan_loop_chars [simp]: "map sc_char (fst (scan_loop b v i s)) = s"
  by (induction s arbitrary: v i) (simp_all add: Let_def)

lemma scan_loop_index: "map sc_index (fst (scan_loop b v i s)) = [i..<i + length s]"
proof (induction s arbitrary: v i)
  case (Cons c s)
  moreover have "[i..<i + length (c # s)] = i # [Suc i..<Suc i + length s]"
    by (simp add: upt_conv_Cons del: upt_Suc)
  ultimately show ?case by (simp add: Let_def del: upt_Suc)
qed simp

lemma scan_chars [simp]: "map sc_char (characters (scan_shell b s)) = s"
  by (simp add: scan_shell_def Let_def)

lemma scan_index: "map sc_index (characters (scan_shell b s)) = [0..<length s]"
  using scan_loop_index [of b scan_start 0 s] by (simp add: scan_shell_def Let_def)

lemma scan_no_comments:
  "\<not> v_comment v \<Longrightarrow> \<not> b \<or> CHR ''#'' \<notin> set s \<Longrightarrow> \<forall>item \<in> set (fst (scan_loop b v i s)). \<not> sc_comment item"
proof (induction s arbitrary: v i)
  case (Cons c s)
  then have "\<not> enters_comment b v c" by (auto simp: enters_comment_def)
  moreover from this Cons.prems have "\<not> v_comment (scan_step b v c)"
    by (simp add: scan_step_def Let_def)
  ultimately show ?case using Cons by (simp add: Let_def)
qed simp

subsection \<open>Comments\<close>

lemma map_filter_subseq: "subseq (map f (filter P xs)) (map f xs)"
  by (simp add: subseq_map subseq_filter_left)

lemma strip_simple_comments_subseq: "subseq (strip_simple_comments text) text"
  using map_filter_subseq [of sc_char _ "characters (scan_shell True text)"]
  by (simp add: strip_simple_comments_def)

lemma newlines_filter:
  "filter (\<lambda>c. c = x) (map f (filter (\<lambda>i. P i \<or> f i = x) xs)) = filter (\<lambda>c. c = x) (map f xs)"
  by (induction xs) auto

lemma strip_simple_comments_newlines:
  "filter (\<lambda>c. c = CHR 0x0A) (strip_simple_comments text) = filter (\<lambda>c. c = CHR 0x0A) text"
  using newlines_filter [of "CHR 0x0A" sc_char "\<lambda>i. \<not> sc_comment i" "characters (scan_shell True text)"]
  by (simp add: strip_simple_comments_def)

lemma strip_simple_comments_plain:
  assumes "CHR ''#'' \<notin> set text"
  shows "strip_simple_comments text = text"
proof -
  have "\<forall>item \<in> set (characters (scan_shell True text)). \<not> sc_comment item"
    using scan_no_comments [of scan_start True "text" 0] assms by (simp add: scan_shell_def scan_start_def Let_def)
  then have "filter (\<lambda>item. \<not> sc_comment item \<or> sc_char item = CHR 0x0A) (characters (scan_shell True text))
      = characters (scan_shell True text)"
    by (simp add: filter_id_conv)
  then show ?thesis by (simp add: strip_simple_comments_def)
qed

subsection \<open>Segments\<close>

text \<open>Pieces and the operators between them, put together again.\<close>

fun weave :: "string list \<Rightarrow> string list \<Rightarrow> string" where
  "weave [] ops = []"
| "weave [p] ops = p"
| "weave (p # q # ps) [] = p"
| "weave (p # q # ps) (op # ops) = p @ op @ weave (q # ps) ops"

lemma operator_atD:
  assumes "operator_at s i = Some op"
  shows "op \<in> set control_operators" "op \<noteq> []" "drop i s = op @ drop (i + length op) s"
proof -
  from assms have op: "op \<in> set control_operators" "startswith (drop i s) op"
    by (auto simp: operator_at_def find_Some_iff in_set_conv_nth)
  then show "op \<in> set control_operators" "op \<noteq> []" by (auto simp: control_operators_def)
  from op(2) obtain t where "drop i s = op @ t" by (auto simp: startswith_def prefix_def)
  then show "drop i s = op @ drop (i + length op) s" by (metis add.commute append_eq_conv_conj drop_drop)
qed

lemma split_loop_not_Nil [simp]: "split_loop s start items \<noteq> []"
  by (induction items arbitrary: start) (auto split: option.splits)

lemma split_loop_weave:
  "\<exists>ops. set ops \<subseteq> set control_operators \<and> Suc (length ops) = length (split_loop s start items)
     \<and> weave (split_loop s start items) ops = drop start s"
proof (induction items arbitrary: start)
  case Nil
  then show ?case by (intro exI [of _ "[]"]) simp
next
  case (Cons item items)
  show ?case
  proof (cases "sc_index item < start \<or> sc_quote item \<noteq> None \<or> sc_escaped item
      \<or> operator_at s (sc_index item) = None")
    case True
    with Cons [of start] show ?thesis by auto
  next
    case False
    then obtain op where op: "operator_at s (sc_index item) = Some op" and le: "start \<le> sc_index item" by auto
    let ?next = "split_loop s (sc_index item + length op) items"
    from Cons [of "sc_index item + length op"] obtain ops where ops:
      "set ops \<subseteq> set control_operators" "Suc (length ops) = length ?next"
      "weave ?next ops = drop (sc_index item + length op) s" by blast
    obtain q qs where nx: "?next = q # qs" by (cases ?next) auto
    have "take (sc_index item - start) (drop start s) @ drop (sc_index item) s = drop start s"
      using le append_take_drop_id [of "sc_index item - start" "drop start s"] by simp
    with False op ops nx operator_atD [OF op] show ?thesis by (intro exI [of _ "op # ops"]) auto
  qed
qed

text \<open>
  A reference splitter that reads the text once, left to right, without indices: \<open>k\<close> characters
  of an operator are still to be skipped, \<open>acc\<close> is the current piece.
\<close>

fun cut :: "nat \<Rightarrow> scan_vars \<Rightarrow> string \<Rightarrow> string \<Rightarrow> string list" where
  "cut k v acc [] = [acc]"
| "cut (Suc k) v acc (c # cs) = cut k (scan_step False v c) [] cs"
| "cut 0 v acc (c # cs) =
     (if v_quote v \<noteq> None \<or> v_escaped v then cut 0 (scan_step False v c) (acc @ [c]) cs
      else case find (startswith (c # cs)) control_operators of
          None \<Rightarrow> cut 0 (scan_step False v c) (acc @ [c]) cs
        | Some op \<Rightarrow> acc # cut (length op - 1) (scan_step False v c) [] cs)"

lemma split_loop_cut:
  "drop i s = t \<Longrightarrow> split_loop s start (fst (scan_loop False v i t))
     = cut (start - i) v (take (i - start) (drop start s)) t"
proof (induction t arbitrary: i v start)
  case Nil
  then show ?case by (cases "start \<le> i") auto
next
  case (Cons c t)
  from Cons.prems have step: "drop (Suc i) s = t" by (metis drop_Suc tl_drop list.sel(3))
  show ?case
  proof (cases "start \<le> i")
    case False
    then obtain k where "start - i = Suc k" "start - Suc i = k" by (metis Suc_diff_Suc not_le)
    with False Cons.IH [OF step, of start] show ?thesis by (simp add: Let_def)
  next
    case True
    have i: "s ! i = c" "i < length s" using Cons.prems
      by (metis nth_via_drop, metis drop_all list.distinct(1) not_le)
    with True have acc: "take (i - start) (drop start s) @ [c] = take (Suc i - start) (drop start s)"
      by (simp add: Suc_diff_le take_Suc_conv_app_nth)
    have ops: "operator_at s i = find (startswith (c # t)) control_operators"
      by (simp add: operator_at_def Cons.prems)
    show ?thesis
    proof (cases "operator_at s i")
      case None
      with ops have "find (startswith (c # t)) control_operators = None" by simp
      with True acc None Cons.IH [OF step, of start] show ?thesis by (simp add: Let_def)
    next
      case (Some op)
      with ops have found: "find (startswith (c # t)) control_operators = Some op" by simp
      from Some have "op \<noteq> []" by (rule operator_atD)
      then have "i + length op - Suc i = length op - 1" "Suc i - (i + length op) = 0" by (cases op; simp)+
      with True acc found Some Cons.IH [OF step, of start] Cons.IH [OF step, of "i + length op"]
      show ?thesis by (simp add: Let_def)
    qed
  qed
qed

lemma all_segments_cut: "all_segments s = cut 0 scan_start [] s"
  using split_loop_cut [of 0 s s 0 scan_start] by (simp add: all_segments_def scan_shell_def Let_def)

subsection \<open>Quoted command lines\<close>

definition unquoted :: "scan_vars \<Rightarrow> bool" where
  "unquoted v \<longleftrightarrow> v_quote v = None \<and> \<not> v_escaped v \<and> \<not> v_comment v"

definition in_squote :: "scan_vars \<Rightarrow> bool" where
  "in_squote v \<longleftrightarrow> v_quote v = Some squote \<and> \<not> v_escaped v \<and> \<not> v_comment v"

lemma unquoted_start: "unquoted scan_start"
  by (simp add: unquoted_def scan_start_def)

lemma no_operator:
  "c \<notin> set ''&|;'' \<Longrightarrow> c \<noteq> CHR 0x0A \<Longrightarrow> find (startswith (c # cs)) control_operators = None"
  by (auto simp: control_operators_def startswith_def)

lemma cut_plain:
  assumes "unquoted v" "c \<notin> set ''&|;''" "c \<noteq> CHR 0x0A" "c \<noteq> backslash" "\<not> is_quote c"
  shows "\<exists>w. unquoted w \<and> cut 0 v acc (c # cs) = cut 0 w (acc @ [c]) cs"
proof (intro exI conjI)
  show "unquoted (scan_step False v c)"
    using assms by (simp add: unquoted_def scan_step_def enters_comment_def Let_def)
  show "cut 0 v acc (c # cs) = cut 0 (scan_step False v c) (acc @ [c]) cs"
    using assms(1) by (simp add: unquoted_def no_operator [OF assms(2,3)])
qed

lemma cut_open:
  assumes "unquoted v"
  shows "\<exists>w. in_squote w \<and> cut 0 v acc (squote # cs) = cut 0 w (acc @ [squote]) cs"
proof (intro exI conjI)
  show "in_squote (scan_step False v squote)"
    using assms by (simp add: unquoted_def in_squote_def scan_step_def enters_comment_def Let_def shell_chars)
  show "cut 0 v acc (squote # cs) = cut 0 (scan_step False v squote) (acc @ [squote]) cs"
    using assms by (simp add: unquoted_def no_operator squote_def)
qed

lemma cut_quoted_char:
  assumes "in_squote v"
  shows "\<exists>w. in_squote w \<and> cut 0 v acc (quote_char c @ cs) = cut 0 w (acc @ quote_char c) cs"
proof (cases "c = squote")
  case True
  with assms show ?thesis
    by (intro exI [of _ "v\<lparr>v_word_start := False\<rparr>"], cases v)
       (auto simp: quote_char_def in_squote_def scan_step_def enters_comment_def Let_def shell_chars
         control_operators_def startswith_def)
next
  case False
  with assms show ?thesis
    by (intro exI [of _ v], cases v)
       (auto simp: quote_char_def in_squote_def scan_step_def enters_comment_def Let_def shell_chars)
qed

lemma cut_close:
  assumes "in_squote v"
  shows "\<exists>w. unquoted w \<and> cut 0 v acc (squote # cs) = cut 0 w (acc @ [squote]) cs"
proof (intro exI conjI)
  show "unquoted (scan_step False v squote)"
    using assms by (simp add: unquoted_def in_squote_def scan_step_def enters_comment_def Let_def shell_chars)
  show "cut 0 v acc (squote # cs) = cut 0 (scan_step False v squote) (acc @ [squote]) cs"
    using assms by (simp add: in_squote_def)
qed

lemma cut_quoted_chars:
  "in_squote v \<Longrightarrow> \<exists>w. in_squote w \<and>
     cut 0 v acc (concat (map quote_char s) @ cs) = cut 0 w (acc @ concat (map quote_char s)) cs"
proof (induction s arbitrary: v acc)
  case (Cons c s)
  from cut_quoted_char [OF Cons.prems, of acc c "concat (map quote_char s) @ cs"] obtain w where
    w: "in_squote w" "cut 0 v acc (quote_char c @ concat (map quote_char s) @ cs)
      = cut 0 w (acc @ quote_char c) (concat (map quote_char s) @ cs)" by blast
  from Cons.IH [OF w(1), of "acc @ quote_char c"] w(2) show ?case by auto
qed auto

lemma quote_safe_no_operator: "quote_safe c \<Longrightarrow> c \<notin> set ''&|;'' \<and> c \<noteq> CHR 0x0A"
  by (auto simp: quote_safe_def is_digit_def is_lower_def is_upper_def code_def)

lemma cut_safe:
  "unquoted v \<Longrightarrow> list_all quote_safe s \<Longrightarrow> \<exists>w. unquoted w \<and> cut 0 v acc (s @ cs) = cut 0 w (acc @ s) cs"
proof (induction s arbitrary: v acc)
  case (Cons c s)
  then have "quote_safe c" by simp
  with cut_plain [OF Cons.prems(1), of c acc "s @ cs"] quote_safe_plain [of c] quote_safe_no_operator [of c]
  obtain w where w: "unquoted w" "cut 0 v acc (c # s @ cs) = cut 0 w (acc @ [c]) (s @ cs)" by auto
  from Cons.IH [OF w(1), of "acc @ [c]"] Cons.prems(2) w(2) show ?case by auto
qed auto

lemma cut_shlex_quote:
  assumes "unquoted v"
  shows "\<exists>w. unquoted w \<and> cut 0 v acc (shlex_quote s @ cs) = cut 0 w (acc @ shlex_quote s) cs"
proof (cases "s \<noteq> [] \<and> list_all quote_safe s")
  case True
  with cut_safe [OF assms, of s acc cs] show ?thesis by (simp add: shlex_quote_def)
next
  case False
  have quoted: "shlex_quote s = [squote] @ concat (map quote_char s) @ [squote]"
    using False by (auto simp: shlex_quote_def)
  obtain v1 where v1: "in_squote v1"
    "cut 0 v acc (shlex_quote s @ cs) = cut 0 v1 (acc @ [squote]) (concat (map quote_char s) @ squote # cs)"
    using cut_open [OF assms, of acc "concat (map quote_char s) @ squote # cs"] by (auto simp: quoted)
  from cut_quoted_chars [OF v1(1), of "acc @ [squote]" s "squote # cs"] obtain v2 where v2: "in_squote v2"
    "cut 0 v1 (acc @ [squote]) (concat (map quote_char s) @ squote # cs)
       = cut 0 v2 (acc @ [squote] @ concat (map quote_char s)) (squote # cs)" by auto
  from cut_close [OF v2(1), of "acc @ [squote] @ concat (map quote_char s)" cs] v1(2) v2(2)
  show ?thesis by (auto simp: quoted)
qed

lemma cut_shell_string:
  "unquoted v \<Longrightarrow> cut 0 v acc (join_words (map shlex_quote argv)) = [acc @ join_words (map shlex_quote argv)]"
proof (induction argv arbitrary: v acc rule: induct_list012)
  case (2 a)
  from cut_shlex_quote [OF 2, of acc a "[]"] show ?case by auto
next
  case (3 a b argv)
  let ?rest = "join_words (map shlex_quote (b # argv))"
  from cut_shlex_quote [OF 3(3), of acc a "CHR '' '' # ?rest"] obtain w where w: "unquoted w"
    "cut 0 v acc (shlex_quote a @ CHR '' '' # ?rest) = cut 0 w (acc @ shlex_quote a) (CHR '' '' # ?rest)" by blast
  from cut_plain [OF w(1), of "CHR '' ''" "acc @ shlex_quote a" ?rest] obtain u where u: "unquoted u"
    "cut 0 w (acc @ shlex_quote a) (CHR '' '' # ?rest) = cut 0 u ((acc @ shlex_quote a) @ '' '') ?rest"
    by (auto simp: shell_chars)
  from 3(2) [OF u(1), of "(acc @ shlex_quote a) @ '' ''"] w(2) u(2) show ?case by simp
qed simp

text \<open>A text with a character that is not Python space survives \<open>strip\<close>.\<close>

lemma strip_chars_Nil: "strip_chars p s = [] \<longleftrightarrow> list_all p s"
proof -
  have "strip_chars p s = [] \<longleftrightarrow> (\<forall>c \<in> set (dropWhile p s). p c)"
    by (simp add: strip_chars_def dropWhile_eq_Nil_conv)
  also have "\<dots> \<longleftrightarrow> list_all p s" by (induction s) auto
  finally show ?thesis .
qed

lemma shlex_quote_visible: "\<exists>c \<in> set (shlex_quote s). \<not> py_space c"
proof (cases "s \<noteq> [] \<and> list_all quote_safe s")
  case True
  then obtain c where "c \<in> set s" "quote_safe c" by (cases s) auto
  then have "\<not> py_space c"
    by (auto simp: quote_safe_def py_space_def is_digit_def is_lower_def is_upper_def code_def Let_def)
  with True \<open>c \<in> set s\<close> show ?thesis by (auto simp: shlex_quote_def)
next
  case False
  then have "squote \<in> set (shlex_quote s)" by (auto simp: shlex_quote_def)
  moreover have "\<not> py_space squote" by (simp add: py_space_def squote_def)
  ultimately show ?thesis by blast
qed

lemma shell_string_visible:
  assumes "argv \<noteq> []"
  shows "py_strip (to_shell_string argv) \<noteq> []"
proof -
  obtain a rest where argv: "argv = a # rest" using assms by (cases argv) auto
  have "set (shlex_quote a) \<subseteq> set (to_shell_string argv)"
    by (cases rest) (auto simp: to_shell_string_def argv)
  with shlex_quote_visible [of a] show ?thesis
    by (auto simp: py_strip_def strip_chars_Nil list_all_iff)
qed

subsection \<open>Properties\<close>

text \<open>Splitting a command loses nothing and invents nothing: the pieces, of which
  \<open>split_segments\<close> keeps the non-blank ones, joined by control operators are the command.\<close>

lemma split_segments_lossless:
  "\<exists>ops. set ops \<subseteq> set control_operators \<and> Suc (length ops) = length (all_segments command)
     \<and> weave (all_segments command) ops = command
     \<and> split_segments command = filter (\<lambda>p. py_strip p \<noteq> []) (all_segments command)"
  using split_loop_weave [of command 0] by (auto simp: all_segments_def split_segments_def)

text \<open>The index arithmetic of \<open>split_segments\<close> computes what one pass over the characters
  computes that carries the quoting state and the current piece: a cut is made exactly at an
  unquoted, unescaped operator, and no cut is made inside the second character of one.\<close>

lemma split_segments_one_pass:
  "split_segments command = filter (\<lambda>p. py_strip p \<noteq> []) (cut 0 scan_start [] command)"
  by (simp add: split_segments_def all_segments_cut)

text \<open>C28. Quoting an argument vector round-trips: the shell string of a non-empty vector is one
  segment, whatever operators, quotes or newlines its arguments hold, and the lexer reads it
  back as exactly that vector.\<close>

theorem to_shell_string_roundtrip:
  assumes "argv \<noteq> []"
  shows "split_segments (to_shell_string argv) = [to_shell_string argv]
    \<and> shell_lexer (to_shell_string argv) [] = (argv, True)"
proof
  have "all_segments (to_shell_string argv) = [to_shell_string argv]"
    using cut_shell_string [OF unquoted_start, of "[]" argv] by (simp add: all_segments_cut to_shell_string_def)
  then show "split_segments (to_shell_string argv) = [to_shell_string argv]"
    using shell_string_visible [OF assms] by (simp add: split_segments_def)
  show "shell_lexer (to_shell_string argv) [] = (argv, True)"
    by (simp add: shell_lexer_def to_shell_string_def read_join_quoted punctuation_ok_def)
qed

theorem to_shell_string_roundtrip_witness:
  "split_segments (to_shell_string [''echo'', ''a;b | c'', []]) = [to_shell_string [''echo'', ''a;b | c'', []]]
    \<and> shell_lexer (to_shell_string [''echo'', ''a;b | c'', []]) [] = ([''echo'', ''a;b | c'', []], True)"
  by (rule to_shell_string_roundtrip) simp

text \<open>Comment removal only deletes: the result is a subsequence of the command with the same
  newlines, so no line is joined to another, and a command without \<open>#\<close> is unchanged.\<close>

lemma strip_simple_comments_conservative:
  "subseq (strip_simple_comments command) command
    \<and> filter (\<lambda>c. c = CHR 0x0A) (strip_simple_comments command) = filter (\<lambda>c. c = CHR 0x0A) command
    \<and> (CHR ''#'' \<in> set command \<or> strip_simple_comments command = command)"
  using strip_simple_comments_subseq strip_simple_comments_newlines strip_simple_comments_plain by blast

end
