(* ===== verification/Evidence.thy ===== *)
theory Evidence
  imports Shell_Syntax
begin

text \<open>
  What a verification command's exit status can prove, and which commands only read
  (\<open>garuda/core/evidence.py\<close>). The tables and the regular expressions are the source's; the
  patterns are values of \<^typ>\<open>rx\<close>. The five messages of \<open>weakness_reason\<close> are the constructors
  of \<open>weakness\<close>.

  The lemmas show that a command is graded by its strongest segment, that a command accepted
  as free of side effects contains no redirection or backquote anywhere and runs only listed
  programs, and that the argument vector which is screened is a suffix of what the shell reads.
\<close>

subsection \<open>Tables\<close>

definition INSPECTION_COMMANDS :: "string list" where
  "INSPECTION_COMMANDS =
     [''cat'', ''ls'', ''echo'', ''printf'', ''head'', ''tail'', ''wc'', ''od'', ''xxd'', ''hexdump'',
      ''stat'', ''file'', ''which'', ''type'', ''pwd'', ''dirname'', ''basename'', ''realpath'',
      ''readlink'', ''true'', ''date'', ''whoami'', ''id'', ''env'', ''printenv'', ''du'', ''df'',
      ''tree'', ''less'', ''more'', ''nl'', ''strings'', ''sha256sum'', ''md5sum'', ''cksum'']"

definition SYNTAX_ONLY_PATTERNS :: "rx list" where
  "SYNTAX_ONLY_PATTERNS =
     [cats [Boundary, lit ''py_compile'', Boundary],
      cats [Boundary, lit ''python'', opt (lit ''3''), spaces1, lit ''-m'', spaces1, lit ''compileall'', Boundary],
      cats [Boundary, lit ''bash'', spaces1, lit ''-n'', Boundary],
      cats [Boundary, lit ''sh'', spaces1, lit ''-n'', Boundary],
      cats [Boundary, lit ''node'', spaces1, lit ''--check'', Boundary],
      cats [Boundary, lit ''tsc'', spaces1, lit ''--noEmit'', Boundary],
      cats [lit ''-fsyntax-only'', Boundary],
      cats [Boundary, lit ''ruff'', spaces1, lit ''check'', Boundary],
      cats [Boundary, lit ''json.tool'', Boundary]]"

definition ASSERTION_COMMANDS :: "string list" where
  "ASSERTION_COMMANDS =
     [''test'', ''['', ''['' @ ''['', ''diff'', ''cmp'', ''pytest'', ''unittest'', ''assert'',
      ''grep'', ''rg'', ''egrep'', ''fgrep'', ''jq'', ''curl'', ''nc'', ''ping'', ''make'',
      ''cargo'', ''go'', ''npm'', ''yarn'', ''pnpm'', ''ctest'', ''tox'', ''nose2'', ''mvn'',
      ''gradle'', ''phpunit'', ''rspec'', ''busted'', ''shellcheck'']"

definition ASSERTING_FLAGS :: "string list dict" where
  "ASSERTING_FLAGS =
     [(''grep'', [''-q'', ''--quiet'', ''-c'', ''--count'']),
      (''rg'', [''-q'', ''--quiet'', ''-c'', ''--count'']),
      (''egrep'', [''-q'', ''--quiet'']),
      (''fgrep'', [''-q'', ''--quiet'']),
      (''curl'', [''-f'', ''--fail'', ''--fail-with-body'']),
      (''jq'', [''-e'', ''--exit-status''])]"

datatype evidence_class = NOOP | INSPECTION | SYNTAX | EXECUTION | ASSERTION

fun STRENGTH :: "evidence_class \<Rightarrow> nat" where
  "STRENGTH NOOP = 0"
| "STRENGTH INSPECTION = 1"
| "STRENGTH SYNTAX = 2"
| "STRENGTH EXECUTION = 3"
| "STRENGTH ASSERTION = 4"

definition DISCRIMINATING_THRESHOLD :: nat where
  "DISCRIMINATING_THRESHOLD = STRENGTH EXECUTION"

subsection \<open>Python one-liners\<close>

definition PY_IMPORT :: rx where
  "PY_IMPORT = cats [Bol, Alt (lit ''import'') (lit ''from''), spaces1, Cls is_word]"

definition PY_PRINT :: rx where
  "PY_PRINT = cats [Bol, lit ''print'', spaces, lit ''('']"

definition PY_ASSERTION :: rx where
  "PY_ASSERTION = cats [Bol, Alt (lit ''assert'') (lit ''raise''), Boundary]"

definition PY_EXIT :: rx where
  "PY_EXIT = cats [Boundary,
     Alt (cats [lit ''sys'', spaces, lit ''.'', spaces, lit ''exit''])
         (cats [lit ''os'', spaces, lit ''.'', spaces, lit ''_exit'']),
     spaces, lit ''('']"

definition PY_ASSIGN :: rx where
  "PY_ASSIGN = cats [Bol, Cls (\<lambda>c. is_lower c \<or> is_upper c \<or> c = CHR ''_''),
     Star (Cls (\<lambda>c. is_word c \<or> c \<in> set ''.[],'' \<or> is_quote c \<or> py_space c)),
     lit ''='', NotAhead (lit ''='')]"

text \<open>
  \<open>_PYTHON_ONELINER\<close>: the part before the body has one possible end, because neither blanks nor
  quotes overlap; the greedy body then runs to the quote that ends the (stripped) segment.
\<close>

definition PYTHON_ONELINER_HEAD :: rx where
  "PYTHON_ONELINER_HEAD = cats [Bol, lit ''python'', opt (lit ''3''), spaces1, lit ''-c'', spaces1, Cls is_quote]"

definition python_oneliner :: "string \<Rightarrow> string option" where
  "python_oneliner segment =
     (case ends PYTHON_ONELINER_HEAD ([], py_strip segment) of
        [] \<Rightarrow> None
      | p # _ \<Rightarrow> if snd p \<noteq> [] \<and> is_quote (last (snd p)) then Some (butlast (snd p)) else None)"

definition statements :: "string \<Rightarrow> string list" where
  "statements body = split_on (\<lambda>c. c = CHR '';'' \<or> c = CHR 0x0A) body"

definition classify_python_oneliner :: "string \<Rightarrow> evidence_class option" where
  "classify_python_oneliner segment =
     (case python_oneliner segment of
        None \<Rightarrow> None
      | Some body \<Rightarrow>
          (let sts = filter (\<lambda>s. s \<noteq> []) (map py_strip (statements body)) in
           if sts = [] then Some SYNTAX
           else if list_ex (\<lambda>s. match_start PY_ASSERTION s \<or> search PY_EXIT s) sts then Some ASSERTION
           else if list_all (\<lambda>s. match_start PY_IMPORT s \<or> match_start PY_PRINT s \<or> match_start PY_ASSIGN s) sts
           then Some SYNTAX
           else Some EXECUTION))"

definition PY_PRINTED_PREDICATE :: rx where
  "PY_PRINTED_PREDICATE =
     cats [Bol, lit ''print'', spaces, lit ''('', spaces,
       Alt (cats [alts (map lit [''all'', ''any'', ''bool'', ''isinstance'', ''issubclass'', ''callable'', ''hasattr'']),
                  spaces, lit ''(''])
           (cats [Star (Cls (\<lambda>c. c \<noteq> CHR 0x0A)),
                  alts (map lit [''=='', ''!='', ''<='', ''>='', ''<'', ''>''] @
                        map (\<lambda>w. cats [Boundary, lit w, Boundary]) [''is'', ''in'', ''not''])])]"

function blank_quoted :: "string \<Rightarrow> string" where
  "blank_quoted [] = []"
| "blank_quoted (c # cs) =
     (if is_quote c \<and> c \<in> set cs
      then [squote, squote] @ blank_quoted (tl (dropWhile (\<lambda>x. x \<noteq> c) cs))
      else c # blank_quoted cs)"
  by pat_completeness auto

termination
  by (relation "measure length") (auto simp: less_Suc_eq_le intro: le_trans [OF diff_le_self length_dropWhile_le])

definition prints_a_predicate :: "string \<Rightarrow> bool" where
  "prints_a_predicate command =
     list_ex (\<lambda>segment. case python_oneliner segment of
         None \<Rightarrow> False
       | Some body \<Rightarrow> list_ex (\<lambda>s. match_start PY_PRINTED_PREDICATE (blank_quoted (py_strip s))) (statements body))
       (split_segments command)"

subsection \<open>Grading a command\<close>

text \<open>\<open>re.split\<close> at runs of blanks.\<close>

function split_blanks :: "string \<Rightarrow> string list" where
  "split_blanks s =
     (let w = takeWhile (\<lambda>c. \<not> shell_blank c) s; rest = dropWhile (\<lambda>c. \<not> shell_blank c) s in
      if rest = [] then [w] else w # split_blanks (dropWhile shell_blank rest))"
  by pat_completeness auto

termination
proof (relation "measure length", simp)
  fix s :: string and w rest
  assume r: "rest = dropWhile (\<lambda>c. \<not> shell_blank c) s" and "rest \<noteq> []"
  then obtain c cs where rest: "rest = c # cs" "shell_blank c"
    by (metis hd_dropWhile list.exhaust_sel)
  have "length rest \<le> length s" using r by (simp add: length_dropWhile_le)
  moreover have "length (dropWhile shell_blank rest) \<le> length cs" using rest by (simp add: length_dropWhile_le)
  ultimately show "(dropWhile shell_blank rest, s) \<in> measure length" using rest by simp
qed

declare split_blanks.simps [simp del]

definition wrapper_programs :: "string list" where
  "wrapper_programs = [''sudo'', ''env'', ''nohup'', ''time'', ''timeout'', ''stdbuf'', ''nice'']"

definition wrapper_argument :: "string \<Rightarrow> bool" where
  "wrapper_argument t = match_start
     (Alt (cats [Bol, lit ''-'']) (cats [Bol, plus (Cls is_digit), opt (Cls (among ''smhd'')), Eol])) t"

definition env_assignment :: "string \<Rightarrow> bool" where
  "env_assignment t \<longleftrightarrow> CHR ''='' \<in> set t \<and> \<not> startswith t ''-''
     \<and> match_start (cats [Bol, plus (Cls is_word), lit ''='']) t"

text \<open>The loop that skips assignments and wrappers.\<close>

function skip_prefixes :: "string list \<Rightarrow> string list" where
  "skip_prefixes [] = []"
| "skip_prefixes (t # ts) =
     (if env_assignment t then skip_prefixes ts
      else if t \<in> set wrapper_programs then skip_prefixes (dropWhile wrapper_argument ts)
      else t # ts)"
  by pat_completeness auto

termination
  by (relation "measure length") (auto simp: less_Suc_eq_le length_dropWhile_le)

definition segment_tokens :: "string \<Rightarrow> string list" where
  "segment_tokens segment =
     (case shell_lexer segment [] of (tokens, ok) \<Rightarrow> if ok then tokens else split_blanks segment)"

definition classify_segment :: "string \<Rightarrow> evidence_class" where
  "classify_segment raw =
     (let segment = py_strip raw in
      if segment = [] then NOOP
      else if list_ex (\<lambda>pattern. search pattern segment) SYNTAX_ONLY_PATTERNS then SYNTAX
      else case classify_python_oneliner segment of
          Some label \<Rightarrow> label
        | None \<Rightarrow>
            (case skip_prefixes (segment_tokens segment) of
               [] \<Rightarrow> NOOP
             | t # rest \<Rightarrow>
                 (let head = after_last (CHR ''/'') t in
                  if head = ''cd'' then NOOP
                  else case dict_get ASSERTING_FLAGS head of
                      Some flags \<Rightarrow> if list_ex (\<lambda>flag. flag \<in> set rest) flags then ASSERTION else INSPECTION
                    | None \<Rightarrow>
                        if head \<in> set ASSERTION_COMMANDS then ASSERTION
                        else if head \<in> set INSPECTION_COMMANDS then INSPECTION
                        else EXECUTION)))"

definition stronger :: "evidence_class \<Rightarrow> evidence_class \<Rightarrow> evidence_class" where
  "stronger best label = (if STRENGTH label > STRENGTH best then label else best)"

definition classify_command :: "string \<Rightarrow> evidence_class" where
  "classify_command command = foldl stronger NOOP (map classify_segment (split_segments command))"

definition is_discriminating :: "string \<Rightarrow> bool" where
  "is_discriminating command \<longleftrightarrow> STRENGTH (classify_command command) \<ge> DISCRIMINATING_THRESHOLD"

subsection \<open>Commands that only read\<close>

definition SIDE_EFFECT_FREE_COMMANDS :: "string list" where
  "SIDE_EFFECT_FREE_COMMANDS =
     filter (\<lambda>c. c \<noteq> ''less'' \<and> c \<noteq> ''more'') INSPECTION_COMMANDS
     @ [''diff'', ''cmp'', ''test'', ''['', ''['' @ ''['', ''grep'', ''rg'', ''egrep'', ''fgrep'', ''jq'']"

definition MUTATING_SHELL :: rx where
  "MUTATING_SHELL =
     alts [Cls (among ''<>''),
           cats [Boundary, lit ''tee'', Boundary],
           cats [Boundary, lit ''sudo'', Boundary],
           cats [Boundary, lit ''xargs'', Boundary],
           Cls (\<lambda>c. c = CHR 0x60),
           lit ''$('',
           cats [NotBehind [\<lambda>c. c = CHR ''&''], lit ''&'', NotAhead (lit ''&'')]]"

definition INSPECTION_ENV :: "string list" where
  "INSPECTION_ENV =
     [''LANG'', ''LANGUAGE'', ''LC_ALL'', ''LC_CTYPE'', ''LC_COLLATE'', ''LC_MESSAGES'',
      ''LC_NUMERIC'', ''LC_TIME'', ''LC_MONETARY'', ''TERM'', ''COLORTERM'', ''NO_COLOR'',
      ''CLICOLOR'', ''CLICOLOR_FORCE'', ''COLUMNS'', ''LINES'', ''TZ'']"

definition INSPECTION_BIN_DIRS :: "string list" where
  "INSPECTION_BIN_DIRS = [''/bin'', ''/usr/bin'', ''/usr/local/bin'', ''/opt/homebrew/bin'']"

definition literal_item :: "string \<Rightarrow> shell_character \<Rightarrow> bool" where
  "literal_item segment item =
     (let c = sc_char item; i = sc_index item in
      if sc_escaped item \<or> c = backslash \<and> sc_quote item \<noteq> Some squote then True
      else if sc_quote item \<noteq> None then \<not> (c = CHR ''$'' \<and> sc_quote item = Some dquote)
      else if is_quote c then True
      else if c \<in> set ''$*?{}()'' then False
      else if c = CHR ''['' \<or> c = CHR '']'' then
        (let before = (if i > 0 then segment ! (i - 1) else CHR '' '');
             after = (if i + 1 < length segment then segment ! (i + 1) else CHR '' '') in
         (shell_blank before \<or> before = c) \<and> (shell_blank after \<or> after = c))
      else True)"

definition literal_inspection_segment :: "string \<Rightarrow> bool" where
  "literal_inspection_segment segment =
     (let scan = scan_shell False segment in
      list_all (literal_item segment) (characters scan) \<and> complete scan)"

definition before_eq :: "string \<Rightarrow> string" where
  "before_eq s = takeWhile (\<lambda>c. c \<noteq> CHR ''='') s"

definition after_eq :: "string \<Rightarrow> string" where
  "after_eq s = tl (dropWhile (\<lambda>c. c \<noteq> CHR ''='') s)"

definition before_last :: "char \<Rightarrow> string \<Rightarrow> string" where
  "before_last c s = take (length s - length (after_last c s) - 1) s"

definition is_number :: "string \<Rightarrow> bool" where
  "is_number s = fullmatch (cats [opt (Cls (among ''+-'')), plus (Cls is_digit)]) s"

definition is_duration :: "string \<Rightarrow> bool" where
  "is_duration s = fullmatch (cats [plus (Cls is_digit),
     opt (cats [lit ''.'', plus (Cls is_digit)]), opt (Cls (among ''smhd''))]) s"

definition is_niceness :: "string \<Rightarrow> bool" where
  "is_niceness s = fullmatch (Alt (cats [lit ''-'', plus (Cls is_digit)])
     (cats [lit ''--adjustment='', opt (Cls (among ''+-'')), plus (Cls is_digit)])) s"

definition is_buffer_size :: "string \<Rightarrow> bool" where
  "is_buffer_size s = fullmatch (Alt (lit ''L'')
     (cats [plus (Cls is_digit), opt (Cls (among ''KMGTPEZY'')), opt (lit ''B'')])) s"

definition buffer_option :: "string \<Rightarrow> bool" where
  "buffer_option s = fullmatch (cats [lit ''-'', Cls (among ''ioe''), Star (Cls (\<lambda>c. c \<noteq> CHR 0x0A))]) s"

text \<open>The inner loop for \<open>stdbuf\<close>; \<open>None\<close> is the early return.\<close>

fun stdbuf_options :: "string list \<Rightarrow> string list option" where
  "stdbuf_options [] = Some []"
| "stdbuf_options (t # ts) =
     (if \<not> startswith t ''-'' then Some (t # ts)
      else if \<not> buffer_option t then None
      else if drop 2 t \<noteq> [] then (if is_buffer_size (drop 2 t) then stdbuf_options ts else None)
      else case ts of
          [] \<Rightarrow> if is_buffer_size [] then Some [] else None
        | value # rest \<Rightarrow> if is_buffer_size value then stdbuf_options rest else None)"

lemma stdbuf_options_suffix: "stdbuf_options ts = Some rest \<Longrightarrow> suffix rest ts"
proof (induction ts arbitrary: rest rule: stdbuf_options.induct)
  case (2 t ts)
  then show ?case by (auto split: if_splits list.splits intro: suffix_ConsI)
qed simp

definition safe_assignment :: "string \<Rightarrow> bool" where
  "safe_assignment t \<longleftrightarrow> before_eq t \<in> set INSPECTION_ENV
     \<and> fullmatch (Star (Cls (\<lambda>c. is_word c \<or> c \<in> set ''.,:@/+%-''))) (after_eq t)"

definition is_assignment :: "string \<Rightarrow> bool" where
  "is_assignment t = match_start (cats [Bol, Cls (\<lambda>c. is_lower c \<or> is_upper c \<or> c = CHR ''_''),
     Star (Cls is_word), lit ''='']) t"

definition timeout_flag :: "string \<Rightarrow> bool" where
  "timeout_flag t \<longleftrightarrow> t = ''--foreground'' \<or> t = ''--preserve-status''"

text \<open>What the wrappers leave of the tokens: \<open>Inl\<close> is the vector to run, \<open>Inr\<close> goes on.\<close>

definition after_wrapper :: "string \<Rightarrow> string list \<Rightarrow> (string list + string list) option" where
  "after_wrapper program ts =
     (if program = ''env'' then
        (if ts = [] then Some (Inl [program])
         else (let us = (if hd ts = ''--'' then tl ts else ts) in
               if us \<noteq> [] \<and> startswith (hd us) ''-'' then None else Some (Inr us)))
      else if program = ''timeout'' then
        (case dropWhile timeout_flag ts of
           [] \<Rightarrow> None
         | d # us \<Rightarrow> if is_duration d then Some (Inr us) else None)
      else if program = ''nice'' then
        (case ts of
           [] \<Rightarrow> Some (Inr [])
         | t # us \<Rightarrow>
             if t = ''-n'' then
               (case us of [] \<Rightarrow> None | n # vs \<Rightarrow> if is_number n then Some (Inr vs) else None)
             else if is_niceness t then Some (Inr us)
             else Some (Inr ts))
      else if program = ''time'' then
        Some (Inr (if ts \<noteq> [] \<and> hd ts = ''-p'' then tl ts else ts))
      else if program = ''stdbuf'' then map_option Inr (stdbuf_options ts)
      else Some (Inl (program # ts)))"

lemma suffix_tl: "suffix (tl xs) xs"
  by (cases xs) (auto intro: suffix_ConsI)

lemma after_wrapper_suffix: "after_wrapper program ts = Some (Inr us) \<Longrightarrow> suffix us ts"
  unfolding after_wrapper_def
  by (auto split: if_splits list.splits simp: Let_def suffix_tl
      intro: suffix_ConsI stdbuf_options_suffix)
     (metis suffix_ConsD suffix_dropWhile)

lemma after_wrapper_Inl:
  "after_wrapper program ts = Some (Inl argv) \<Longrightarrow> argv = program # ts"
  unfolding after_wrapper_def by (auto split: if_splits list.splits simp: Let_def)

lemma suffix_shorter: "suffix xs ys \<Longrightarrow> length xs \<le> length ys"
  by (rule suffix_length_le)

function (sequential) resolve_argv :: "string list \<Rightarrow> string list option" where
  "resolve_argv [] = None"
| "resolve_argv (t # ts) =
     (if is_assignment t then (if safe_assignment t then resolve_argv ts else None)
      else if CHR ''/'' \<in> set t \<and> before_last (CHR ''/'') t \<notin> set INSPECTION_BIN_DIRS then None
      else case after_wrapper (after_last (CHR ''/'') t) ts of
          None \<Rightarrow> None
        | Some (Inl argv) \<Rightarrow> Some argv
        | Some (Inr us) \<Rightarrow> resolve_argv us)"
  by pat_completeness auto

termination
  by (relation "measure length") (auto simp: less_Suc_eq_le dest!: after_wrapper_suffix intro: suffix_shorter)

definition inspection_argv :: "string \<Rightarrow> string list option" where
  "inspection_argv segment =
     (if \<not> literal_inspection_segment segment then None
      else case shell_lexer segment [] of (tokens, ok) \<Rightarrow> if ok then resolve_argv tokens else None)"

definition forbidden_option :: "string \<Rightarrow> string \<Rightarrow> bool" where
  "forbidden_option flags arg \<longleftrightarrow>
     startswith arg ''-'' \<and> \<not> startswith arg ''--'' \<and> list_ex (\<lambda>flag. flag \<in> set (drop 1 arg)) flags
     \<or> before_eq arg \<in> set [''--compile'', ''--output'', ''--outfile'']"

definition date_option :: "string \<Rightarrow> bool" where
  "date_option arg = (startswith arg ''+'' \<or> fullmatch (alts
     [cats [lit ''-'', plus (Cls (among ''ujR''))],
      cats [lit ''-I'', opt (alts (map lit [''date'', ''hours'', ''minutes'', ''seconds'', ''ns'']))],
      cats [lit ''--'', alts (map lit [''utc'', ''universal'', ''rfc-email'', ''help'', ''version''])],
      cats [lit ''--'', Alt (lit ''iso-8601'') (lit ''rfc-3339''),
            opt (cats [lit ''='', plus (Cls (\<lambda>c. is_word c \<or> c = CHR ''-''))])]]) arg)"

fun date_arguments :: "string list \<Rightarrow> bool" where
  "date_arguments [] = True"
| "date_arguments (arg # rest) =
     (if arg = ''-r'' then (case rest of [] \<Rightarrow> False | _ # others \<Rightarrow> date_arguments others)
      else date_option arg \<and> date_arguments rest)"

fun xxd_arguments :: "string list \<Rightarrow> bool" where
  "xxd_arguments [] = True"
| "xxd_arguments (arg # rest) =
     (if arg = ''--'' then length rest \<le> 1
      else if \<not> startswith arg ''-'' \<or> arg = ''-'' then rest = []
      else if arg \<in> set [''-c'', ''-g'', ''-l'', ''-n'', ''-o'', ''-s'', ''-R'']
      then (case rest of [] \<Rightarrow> False | _ # others \<Rightarrow> xxd_arguments others)
      else if arg \<notin> set [''-a'', ''-b'', ''-C'', ''-d'', ''-E'', ''-e'', ''-h'', ''-i'', ''-p'', ''-r'', ''-u'', ''-v'']
              \<and> \<not> fullmatch (cats [lit ''-'', Cls (among ''cglnosR''), plus (Cls (\<lambda>c. c \<noteq> CHR 0x0A))]) arg
      then False
      else xxd_arguments rest)"

definition inspection_arguments_safe :: "string \<Rightarrow> string list \<Rightarrow> bool" where
  "inspection_arguments_safe program arguments =
     (if program = ''rg'' then
        \<not> list_ex (\<lambda>arg. before_eq arg \<in> set [''--pre'', ''--hostname-bin'']) arguments
      else if program = ''tree'' \<or> program = ''file'' then
        \<not> list_ex (forbidden_option (if program = ''tree'' then ''oR'' else ''C'')) arguments
      else if program = ''printf'' then
        (case arguments of
           [] \<Rightarrow> True
         | a # rest \<Rightarrow>
             if startswith a ''-v'' then False
             else \<not> search (cats [lit ''%'', Star (Cls (among ''-+ #0123456789.*'')), lit ''n''])
                       (if a = ''--'' \<and> rest \<noteq> [] then hd rest else a))
      else if program = ''date'' then date_arguments arguments
      else if program = ''xxd'' then xxd_arguments arguments
      else True)"

definition inspects_only :: "string \<Rightarrow> bool" where
  "inspects_only segment =
     (if search MUTATING_SHELL segment then False
      else case inspection_argv segment of
          None \<Rightarrow> False
        | Some argv \<Rightarrow> hd argv \<in> set SIDE_EFFECT_FREE_COMMANDS \<and> inspection_arguments_safe (hd argv) (tl argv))"

definition is_side_effect_free :: "string \<Rightarrow> bool" where
  "is_side_effect_free text =
     (if py_strip text = [] then False
      else if contains text [backslash, CHR 0x0A] then False
      else (let segments = split_segments text in
            if segments = [] then False else list_all inspects_only segments))"

subsection \<open>Feedback\<close>

datatype weakness = Printed_predicate | Loads_and_prints | Only_parses | Only_displays | Cannot_fail

definition weakness_reason :: "string \<Rightarrow> weakness" where
  "weakness_reason command =
     (let label = classify_command command in
      if label = SYNTAX \<and> prints_a_predicate command then Printed_predicate
      else if label = SYNTAX \<and> list_ex (\<lambda>s. classify_python_oneliner s = Some SYNTAX) (split_segments command)
      then Loads_and_prints
      else if label = SYNTAX then Only_parses
      else if label = INSPECTION then Only_displays
      else Cannot_fail)"

record evidence_summary =
  labels :: "evidence_class dict"
  n_commands :: nat
  n_discriminating :: nat
  discriminating :: "string list"
  weak :: "string list"

definition summarize :: "string list \<Rightarrow> evidence_summary" where
  "summarize commands =
     (let ls = foldl (\<lambda>d command. dict_set command (classify_command command) d) [] commands;
          disc = map fst (filter (\<lambda>(_, label). STRENGTH label \<ge> DISCRIMINATING_THRESHOLD) ls) in
      \<lparr>labels = ls, n_commands = length commands, n_discriminating = length disc,
       discriminating = disc, weak = filter (\<lambda>c. c \<notin> set disc) commands\<rparr>)"

subsection \<open>The strongest segment\<close>

lemma foldl_stronger_ge: "STRENGTH b \<le> STRENGTH (foldl stronger b ls)"
proof (induction ls arbitrary: b)
  case (Cons l ls)
  have "STRENGTH b \<le> STRENGTH (stronger b l)" by (simp add: stronger_def)
  with Cons [of "stronger b l"] show ?case by simp
qed simp

lemma foldl_stronger_max:
  "l \<in> set ls \<Longrightarrow> STRENGTH l \<le> STRENGTH (foldl stronger b ls)"
proof (induction ls arbitrary: b)
  case (Cons m ls)
  have "STRENGTH m \<le> STRENGTH (stronger b m)" by (simp add: stronger_def)
  also have "\<dots> \<le> STRENGTH (foldl stronger (stronger b m) ls)" by (rule foldl_stronger_ge)
  finally show ?case using Cons by auto
qed simp

lemma foldl_stronger_in: "foldl stronger b ls \<in> insert b (set ls)"
proof (induction ls arbitrary: b)
  case (Cons l ls)
  have "stronger b l \<in> {b, l}" by (simp add: stronger_def)
  with Cons [of "stronger b l"] show ?case by auto
qed simp

lemma classify_command_bound:
  "n > 0 \<Longrightarrow> STRENGTH (classify_command command) \<ge> n
     \<longleftrightarrow> (\<exists>segment \<in> set (split_segments command). STRENGTH (classify_segment segment) \<ge> n)"
  unfolding classify_command_def
  using foldl_stronger_in [of NOOP "map classify_segment (split_segments command)"]
    foldl_stronger_max [of _ "map classify_segment (split_segments command)" NOOP]
  by (auto dest: le_trans)

subsection \<open>What the screen sees\<close>

lemma resolve_argv_suffix: "resolve_argv tokens = Some argv \<Longrightarrow> argv \<noteq> [] \<and> suffix (tl argv) tokens"
proof (induction tokens arbitrary: argv rule: resolve_argv.induct)
  case (2 t ts)
  show ?case
  proof (cases "is_assignment t")
    case True
    with 2 show ?thesis by (auto split: if_splits intro: suffix_ConsI)
  next
    case False
    with "2.prems" have bin: "\<not> (CHR ''/'' \<in> set t \<and> before_last (CHR ''/'') t \<notin> set INSPECTION_BIN_DIRS)"
      by (auto split: if_splits)
    from False bin "2.prems" obtain r where r: "after_wrapper (after_last (CHR ''/'') t) ts = Some r"
      by (auto split: option.splits)
    show ?thesis
    proof (cases r)
      case (Inl a)
      with False bin r "2.prems" show ?thesis
        by (auto dest!: after_wrapper_Inl intro: suffix_ConsI split: if_splits)
    next
      case (Inr us)
      with False bin r "2.prems" have "resolve_argv us = Some argv" by (auto split: if_splits)
      with "2.IH"(2) [OF False bin r Inr] have "argv \<noteq> []" "suffix (tl argv) us" by simp_all
      moreover have "suffix us (t # ts)" using r Inr by (auto intro: suffix_ConsI after_wrapper_suffix)
      ultimately show ?thesis by (blast intro: suffix_order.trans)
    qed
  qed
qed simp

lemma inspection_argv_screens:
  assumes "inspection_argv segment = Some argv"
  shows "literal_inspection_segment segment \<and> argv \<noteq> []
    \<and> (\<exists>tokens. shell_lexer segment [] = (tokens, True) \<and> suffix (tl argv) tokens)"
  using assms by (auto simp: inspection_argv_def dest: resolve_argv_suffix split: if_splits prod.splits)

lemma not_mutating:
  assumes "\<not> search MUTATING_SHELL segment" "c \<in> set segment"
  shows "c \<notin> set ''<>'' \<and> c \<noteq> CHR 0x60"
  using assms by (auto simp: MUTATING_SHELL_def search_Alt search_Cls among_def)

lemma weave_chars: "c \<in> set (weave ps ops) \<Longrightarrow> (\<exists>p \<in> set ps. c \<in> set p) \<or> (\<exists>op \<in> set ops. c \<in> set op)"
  by (induction ps ops rule: weave.induct) auto

text \<open>Every character of a command is in a segment, in a blank piece or in an operator.\<close>

lemma command_chars:
  assumes "c \<in> set command"
  shows "(\<exists>segment \<in> set (split_segments command). c \<in> set segment) \<or> py_space c \<or> c \<in> set ''&|;''"
proof -
  obtain ops where ops: "set ops \<subseteq> set control_operators" "weave (all_segments command) ops = command"
    using split_loop_weave [of command 0] by (auto simp: all_segments_def)
  from weave_chars [of c "all_segments command" ops] assms ops(2)
  consider p where "p \<in> set (all_segments command)" "c \<in> set p" | op where "op \<in> set ops" "c \<in> set op" by auto
  then show ?thesis
  proof cases
    case 1
    then show ?thesis
      by (cases "py_strip p = []") (auto simp: split_segments_def py_strip_def strip_chars_Nil list_all_iff)
  next
    case 2
    with ops(1) show ?thesis by (auto simp: control_operators_def py_space_def)
  qed
qed

subsection \<open>Summaries\<close>

lemma labels_get:
  "dict_get (foldl (\<lambda>d c. dict_set c (f c) d) d cs) k = (if k \<in> set cs then Some (f k) else dict_get d k)"
  by (induction cs arbitrary: d) (auto simp: dict_simps)

lemma labels_ok: "dict_ok d \<Longrightarrow> dict_ok (foldl (\<lambda>d c. dict_set c (f c) d) d cs)"
  by (induction cs arbitrary: d) (auto intro: dict_ok_set)

lemma labels_set:
  "(k, l) \<in> set (foldl (\<lambda>d c. dict_set c (f c) d) [] cs) \<longleftrightarrow> k \<in> set cs \<and> l = f k"
  using labels_get [of f "[]" cs k] labels_ok [of "[]" f cs]
  by (auto simp: dict_get_in_set [symmetric] split: if_splits)

lemma summarize_discriminating:
  "c \<in> set (discriminating (summarize commands)) \<longleftrightarrow> c \<in> set commands \<and> is_discriminating c"
  by (auto simp: summarize_def Let_def labels_set is_discriminating_def image_iff)

lemma summarize_distinct: "distinct (discriminating (summarize commands))"
  using labels_ok [of "[]" classify_command commands]
  by (auto simp: summarize_def Let_def dict_ok_def distinct_map_filter)

lemma summarize_lengths:
  "n_discriminating (summarize commands) = length (discriminating (summarize commands))"
  "n_commands (summarize commands) = length commands"
  "weak (summarize commands) = filter (\<lambda>c. c \<notin> set (discriminating (summarize commands))) commands"
  by (simp_all add: summarize_def Let_def)

subsection \<open>Properties\<close>

text \<open>A command counts as evidence exactly when one of its segments does, that is when one
  segment runs a program or asserts: weak segments around a strong one never weaken the
  command, and no combination of weak segments is promoted.\<close>

lemma discriminating_iff_segment:
  "is_discriminating command \<longleftrightarrow>
     (\<exists>segment \<in> set (split_segments command). classify_segment segment \<in> {EXECUTION, ASSERTION})"
proof -
  have "STRENGTH l \<ge> DISCRIMINATING_THRESHOLD \<longleftrightarrow> l \<in> {EXECUTION, ASSERTION}" for l
    by (cases l) (simp_all add: DISCRIMINATING_THRESHOLD_def)
  then show ?thesis
    using classify_command_bound [of DISCRIMINATING_THRESHOLD command]
    by (simp add: is_discriminating_def DISCRIMINATING_THRESHOLD_def)
qed



text \<open>A summary splits the commands into evidence and weak ones without loss: each command is
  in exactly the list its grade says, a repeated command counts once as evidence, and there are
  never more discriminating commands than commands.\<close>

lemma summarize_partition:
  "(c \<in> set (discriminating (summarize commands)) \<longleftrightarrow> c \<in> set commands \<and> is_discriminating c)
   \<and> (c \<in> set (weak (summarize commands)) \<longleftrightarrow> c \<in> set commands \<and> \<not> is_discriminating c)
   \<and> n_discriminating (summarize commands) \<le> n_commands (summarize commands)"
proof (intro conjI)
  have "set (discriminating (summarize commands)) \<subseteq> set commands" using summarize_discriminating by blast
  then have "card (set (discriminating (summarize commands))) \<le> length commands"
    by (meson card_length card_mono finite_set le_trans)
  then show "n_discriminating (summarize commands) \<le> n_commands (summarize commands)"
    by (simp add: summarize_lengths distinct_card [OF summarize_distinct])
  show "c \<in> set (weak (summarize commands)) \<longleftrightarrow> c \<in> set commands \<and> \<not> is_discriminating c"
    using summarize_discriminating [of c commands] by (simp add: summarize_lengths) blast
qed (rule summarize_discriminating)

text \<open>A fractional duration hides the program behind \<open>timeout\<close>: the grader skips only whole
  numbers, takes the duration for the program and counts the command as evidence, although the
  same inspection with a whole duration does not count and the read-only screen of the same
  module does accept a fractional duration.\<close>

lemma fractional_timeout_counts_as_evidence:
  "is_discriminating ''timeout 0.5 ls'' \<and> \<not> is_discriminating ''timeout 5 ls''
   \<and> inspection_argv ''timeout 0.5 ls'' = Some [''ls'']"
proof (intro conjI)
  have "classify_command ''timeout 0.5 ls'' = EXECUTION" by code_simp
  then show "is_discriminating ''timeout 0.5 ls''"
    by (simp add: is_discriminating_def DISCRIMINATING_THRESHOLD_def)
  have "classify_command ''timeout 5 ls'' = INSPECTION" by code_simp
  then show "\<not> is_discriminating ''timeout 5 ls''"
    by (simp add: is_discriminating_def DISCRIMINATING_THRESHOLD_def)
  show "inspection_argv ''timeout 0.5 ls'' = Some [''ls'']" by code_simp
qed

end
