(* ===== verification/Permission_Rules.thy ===== *)
theory Permission_Rules
  imports Evidence
begin

text \<open>
  The tables and screens of \<open>garuda/core/permissions.py\<close>: the decisions and their order, the
  built-in deny and ask patterns, the tool tables, the path-like operands of a command, the
  root-removal screen and the matching of path rules, with the parts of \<open>posixpath\<close> and
  \<open>fnmatch\<close> they use. \<open>os.path.realpath\<close> reads the file system and is a parameter.
\<close>

subsection \<open>Decisions\<close>

datatype decision = ALLOW | ASK | DENY

fun DECISION_PRECEDENCE :: "decision \<Rightarrow> nat" where
  "DECISION_PRECEDENCE ALLOW = 0"
| "DECISION_PRECEDENCE ASK = 1"
| "DECISION_PRECEDENCE DENY = 2"

lemma precedence_inj: "DECISION_PRECEDENCE a = DECISION_PRECEDENCE b \<Longrightarrow> a = b"
  by (cases a; cases b) simp_all

instantiation decision :: linorder
begin

definition less_eq_decision :: "decision \<Rightarrow> decision \<Rightarrow> bool" where
  "less_eq_decision a b \<longleftrightarrow> DECISION_PRECEDENCE a \<le> DECISION_PRECEDENCE b"

definition less_decision :: "decision \<Rightarrow> decision \<Rightarrow> bool" where
  "less_decision a b \<longleftrightarrow> DECISION_PRECEDENCE a < DECISION_PRECEDENCE b"

instance
  by standard (auto simp: less_eq_decision_def less_decision_def intro: precedence_inj)

end

definition strictest :: "decision \<Rightarrow> decision \<Rightarrow> decision" where
  "strictest a b = (if DECISION_PRECEDENCE b > DECISION_PRECEDENCE a then b else a)"

lemma strictest_max: "strictest a b = max a b"
  by (auto simp: strictest_def max_def less_eq_decision_def not_le intro: precedence_inj)

lemma decision_bounds [simp]: "ALLOW \<le> d" "d \<le> DENY"
  by (cases d; simp add: less_eq_decision_def)+

lemma max_decision [simp]:
  "max ALLOW d = d" "max d ALLOW = d" "max DENY d = DENY" "max d DENY = DENY"
  by (simp_all add: max_def) (cases d; simp add: less_eq_decision_def)+

subsection \<open>Patterns\<close>

abbreviation (input) letters :: rx where
  "letters \<equiv> Star (Cls (\<lambda>c. is_lower c \<or> is_upper c))"

definition SHELL_CHAIN_RE :: rx where
  "SHELL_CHAIN_RE = alts [Cls (\<lambda>c. c \<in> set '';|&<>'' \<or> c = CHR 0x0A), lit ''$('', Cls (\<lambda>c. c = CHR 0x60)]"

definition RM_RECURSIVE :: rx where
  "RM_RECURSIVE = alts [cats [lit ''-'', letters, ilit ''r'', letters, Boundary],
     cats [ilit ''--recursive'', Boundary],
     cats [lit ''-'', letters, ilit ''R'', letters, Boundary]]"

definition RM_FORCE :: rx where
  "RM_FORCE = alts [cats [lit ''-'', letters, ilit ''f'', letters, Boundary], cats [ilit ''--force'', Boundary]]"

definition ROOT_TARGET :: rx where
  "ROOT_TARGET = cats [alts [lit ''/'', lit ''/*'',
     cats [lit ''$'', Alt (plus (Cls is_word)) (cats [lit ''{'', plus (Cls is_word), lit ''}'']),
           opt (cats [lit ''/'', opt (lit ''*'')])],
     cats [lit ''~'', opt (cats [lit ''/'', opt (lit ''*'')])]],
   spaces, Eol]"

text \<open>The lookbehind \<open>(?<!git )\<close> under \<open>IGNORECASE\<close>.\<close>

definition NOT_GIT :: rx where
  "NOT_GIT = NotBehind (map (\<lambda>c x. lower_char x = c) ''git '')"

definition not_separator :: "char \<Rightarrow> bool" where
  "not_separator c \<longleftrightarrow> c \<notin> set ''|;&''"

definition DENY_COMMAND_PATTERNS :: "rx list" where
  "DENY_COMMAND_PATTERNS =
     [cats [NOT_GIT, Boundary, ilit ''rm'', spaces1,
        Star (alts [RM_RECURSIVE, RM_FORCE, Cls py_space]),
        alts [cats [RM_RECURSIVE, spaces1, RM_FORCE], cats [RM_FORCE, spaces1, RM_RECURSIVE],
              cats [lit ''-'', letters, ilit ''r'', letters, ilit ''f''],
              cats [lit ''-'', letters, ilit ''f'', letters, ilit ''r'']],
        letters, spaces1, ROOT_TARGET],
      ilit ''mkfs.'',
      cats [Boundary, ilit ''dd'', Boundary,
        Ahead (cats [Star (Cls not_separator), Boundary, ilit ''of='', spaces, ilit ''/dev/''])],
      cats [lit '':()'', spaces, lit ''{'', spaces, lit '':'', spaces, lit ''|'', spaces, lit '':'', spaces,
        lit ''&'', spaces, lit ''}'', spaces, lit '';'']]"

definition ASK_COMMAND_PATTERNS :: "rx list" where
  "ASK_COMMAND_PATTERNS =
     [cats [NOT_GIT, Boundary, ilit ''rm'', spaces1,
        Star (cats [Star (Cls (\<lambda>c. is_lower c \<or> is_upper c \<or> c = CHR ''-'')), spaces1]), RM_RECURSIVE],
      cats [Boundary, ilit ''dd'', Boundary,
        Ahead (cats [Star (Cls not_separator), Boundary, ilit ''if='', spaces, ilit ''/dev/''])],
      cats [Boundary, ilit ''sudo'', Boundary],
      cats [Boundary, ilit ''chmod'', Boundary],
      cats [Boundary, ilit ''chown'', Boundary],
      cats [Boundary, Alt (ilit ''curl'') (ilit ''wget''), Boundary, Star (Cls not_separator), lit ''|'', spaces,
        opt (cats [ilit ''sudo'', spaces1]), opt (alts (map ilit [''ba'', ''z'', ''d''])), ilit ''sh'', Boundary],
      cats [Boundary, Alt (ilit ''curl'') (ilit ''wget''), Boundary, Star (Cls not_separator), lit ''|'', spaces,
        opt (cats [ilit ''sudo'', spaces1]), ilit ''python'', opt (Cls (among ''23'')), Boundary]]"

subsection \<open>Tools\<close>

definition COMMAND_TOOLS :: "string dict" where
  "COMMAND_TOOLS = [(''bash'', ''command''), (''bash_background'', ''command''), (''tmux_exec'', ''command'')]"

definition SEARCH_TOOLS :: "string list dict" where
  "SEARCH_TOOLS = [(''grep'', [''path'', ''glob'']), (''glob'', [''path'', ''pattern'']), (''ls'', [''path''])]"

definition WRITE_TOOLS :: "string list" where
  "WRITE_TOOLS = [''write_file'', ''edit'', ''multi_edit'', ''notebook_edit'']"

definition READ_TOOLS :: "string list" where
  "READ_TOOLS = [''read_file'', ''read_pdf'', ''read_spreadsheet'', ''image_read'']"

definition READONLY_DENIED_TOOLS :: "string list" where
  "READONLY_DENIED_TOOLS = [''write_file'', ''edit'', ''multi_edit'', ''notebook_edit'',
     ''tmux_exec'', ''bash_background'', ''kill_task'']"

subsection \<open>Operands of a command\<close>

text \<open>\<open>command.replace("\\\n", "")\<close>.\<close>

fun join_continuations :: "string \<Rightarrow> string" where
  "join_continuations (c # d # cs) =
     (if c = backslash \<and> d = CHR 0x0A then join_continuations cs else c # join_continuations (d # cs))"
| "join_continuations cs = cs"

definition newline :: "char \<Rightarrow> bool" where
  "newline c \<longleftrightarrow> c = CHR 0x0A"

definition lex_or_split :: "string \<Rightarrow> string list" where
  "lex_or_split source =
     (case shell_lexer source SHELL_OPERATORS of
        (tokens, ok) \<Rightarrow> tokens @ (if ok then [] else split_blanks source))"

text \<open>The source iterates over sets; the order of the tokens has no meaning.\<close>

definition command_path_tokens :: "string \<Rightarrow> string list" where
  "command_path_tokens command =
     filter (\<lambda>t. t \<noteq> [] \<and> \<not> startswith t ''-'')
       (concat (map (\<lambda>txt. concat (map lex_or_split
          (remdups ([txt, strip_simple_comments txt] @ split_on newline txt))))
          (remdups [command, join_continuations command])))"

subsection \<open>Paths\<close>

definition is_slash :: "char \<Rightarrow> bool" where
  "is_slash c \<longleftrightarrow> c = CHR ''/''"

fun join_path :: "string list \<Rightarrow> string" where
  "join_path [] = []"
| "join_path [w] = w"
| "join_path (w # v # ws) = w @ CHR ''/'' # join_path (v # ws)"

definition leading_slashes :: "string \<Rightarrow> nat" where
  "leading_slashes p =
     (if \<not> startswith p ''/'' then 0
      else if startswith p ''//'' \<and> \<not> startswith p ''///'' then 2 else 1)"

fun norm_components :: "bool \<Rightarrow> string list \<Rightarrow> string list \<Rightarrow> string list" where
  "norm_components rooted acc [] = rev acc"
| "norm_components rooted acc (w # ws) =
     (if w = [] \<or> w = ''.'' then norm_components rooted acc ws
      else if w \<noteq> ''..'' \<or> (\<not> rooted \<and> acc = []) \<or> (acc \<noteq> [] \<and> hd acc = ''..'')
      then norm_components rooted (w # acc) ws
      else norm_components rooted (tl acc) ws)"

definition normpath :: "string \<Rightarrow> string" where
  "normpath p =
     (let n = leading_slashes p;
          s = replicate n (CHR ''/'') @ join_path (norm_components (n > 0) [] (split_on is_slash p)) in
      if s = [] then ''.'' else s)"

definition path_join :: "string \<Rightarrow> string \<Rightarrow> string" where
  "path_join a b =
     (if startswith b ''/'' then b else if a = [] \<or> last a = CHR ''/'' then a @ b else a @ ''/'' @ b)"

definition isabs :: "string \<Rightarrow> bool" where
  "isabs p = startswith p ''/''"

definition path_parts :: "string \<Rightarrow> string list" where
  "path_parts p = filter (\<lambda>c. c \<noteq> [] \<and> c \<noteq> ''.'') (split_on is_slash p)"

text \<open>\<open>os.path.commonpath\<close> and \<open>os.path.relpath\<close> of absolute paths.\<close>

fun common_prefix :: "string list \<Rightarrow> string list \<Rightarrow> string list" where
  "common_prefix (x # xs) (y # ys) = (if x = y then x # common_prefix xs ys else [])"
| "common_prefix _ _ = []"

definition commonpath :: "string \<Rightarrow> string \<Rightarrow> string" where
  "commonpath a b = ''/'' @ join_path (common_prefix (path_parts a) (path_parts b))"

definition relpath :: "string \<Rightarrow> string \<Rightarrow> string" where
  "relpath p start =
     (let ps = filter (\<lambda>c. c \<noteq> []) (split_on is_slash (normpath p));
          ss = filter (\<lambda>c. c \<noteq> []) (split_on is_slash (normpath start));
          i = length (common_prefix ps ss);
          rel = replicate (length ss - i) ''..'' @ drop i ps in
      if rel = [] then ''.'' else join_path rel)"

text \<open>\<open>Path(form).name\<close>.\<close>

definition path_name :: "string \<Rightarrow> string" where
  "path_name p = (case rev (path_parts p) of [] \<Rightarrow> [] | n # _ \<Rightarrow> n)"

subsection \<open>Shell globs\<close>

text \<open>
  \<open>fnmatch.fnmatch\<close>. A bracket expression is cut at its hyphens into chunks, a range runs from
  the last character of a chunk to the first of the next, and empty ranges are removed.
\<close>

definition bracket :: "string \<Rightarrow> (string \<times> string) option" where
  "bracket cs =
     (let r1 = (if startswith cs ''!'' then tl cs else cs);
          r2 = (if startswith r1 '']'' then tl r1 else r1);
          body = takeWhile (\<lambda>c. c \<noteq> CHR '']'') r2;
          rest = dropWhile (\<lambda>c. c \<noteq> CHR '']'') r2 in
      if rest = [] then None else Some (take (length cs - length rest) cs, tl rest))"

definition index_from :: "nat \<Rightarrow> char \<Rightarrow> string \<Rightarrow> nat option" where
  "index_from k c s = find (\<lambda>i. s ! i = c) [k..<length s]"

function bracket_chunks :: "nat \<Rightarrow> string \<Rightarrow> string list" where
  "bracket_chunks k s =
     (case index_from k (CHR ''-'') s of
        None \<Rightarrow> [s]
      | Some i \<Rightarrow>
          (case bracket_chunks 2 (drop (Suc i) s) of
             [[]] \<Rightarrow> [take i s @ ''-'']
           | rest \<Rightarrow> take i s # rest))"
  by pat_completeness auto

termination
proof (relation "measure (\<lambda>(k, s). length s)", simp)
  fix k s i assume "index_from k (CHR ''-'') s = Some i"
  then have "i < length s" by (auto simp: index_from_def find_Some_iff)
  then show "((2, drop (Suc i) s), k, s) \<in> measure (\<lambda>(k, s). length s)" by simp
qed

fun merge_chunks :: "string list \<Rightarrow> string list" where
  "merge_chunks [] = []"
| "merge_chunks (c # cs) =
     (case merge_chunks cs of
        [] \<Rightarrow> [c]
      | d # ds \<Rightarrow> if code (last c) > code (hd d) then (butlast c @ tl d) # ds else c # d # ds)"

fun in_ranges :: "char \<Rightarrow> string list \<Rightarrow> bool" where
  "in_ranges x (a # b # rest) =
     (code (last a) \<le> code x \<and> code x \<le> code (hd b) \<or> in_ranges x (b # rest))"
| "in_ranges x _ = False"

definition bracket_class :: "string \<Rightarrow> char \<Rightarrow> bool" where
  "bracket_class stuff x =
     (let chunks = (if CHR ''-'' \<in> set stuff
                    then merge_chunks (bracket_chunks (if startswith stuff ''!'' then 2 else 1) stuff)
                    else [stuff]) in
      if concat chunks = [] then False
      else if chunks = [''!''] then True
      else if startswith (hd chunks) ''!''
      then (let cs = tl (hd chunks) # tl chunks in x \<notin> set (concat cs) \<and> \<not> in_ranges x cs)
      else x \<in> set (concat chunks) \<or> in_ranges x chunks)"

lemma bracket_shorter: "bracket cs = Some (stuff, rest) \<Longrightarrow> length rest < length cs"
proof -
  assume b: "bracket cs = Some (stuff, rest)"
  define r1 where "r1 = (if startswith cs ''!'' then tl cs else cs)"
  define r2 where "r2 = (if startswith r1 '']'' then tl r1 else r1)"
  have "length r2 \<le> length cs" by (simp add: r1_def r2_def)
  moreover from b have "rest = tl (dropWhile (\<lambda>c. c \<noteq> CHR '']'') r2)" "dropWhile (\<lambda>c. c \<noteq> CHR '']'') r2 \<noteq> []"
    by (auto simp: bracket_def r1_def r2_def Let_def split: if_splits)
  moreover have "length (dropWhile (\<lambda>c. c \<noteq> CHR '']'') r2) \<le> length r2" by (rule length_dropWhile_le)
  ultimately show ?thesis by (cases "dropWhile (\<lambda>c. c \<noteq> CHR '']'') r2") auto
qed

function fn_items :: "string \<Rightarrow> rx list" where
  "fn_items [] = []"
| "fn_items (c # cs) =
     (if c = CHR ''*'' then Star (Cls (\<lambda>_. True)) # fn_items cs
      else if c = CHR ''?'' then Cls (\<lambda>_. True) # fn_items cs
      else if c = CHR ''['' then
        (case bracket cs of
           None \<Rightarrow> Cls (\<lambda>x. x = c) # fn_items cs
         | Some (stuff, rest) \<Rightarrow> Cls (bracket_class stuff) # fn_items rest)
      else Cls (\<lambda>x. x = c) # fn_items cs)"
  by pat_completeness auto

termination
  by (relation "measure length") (auto dest: bracket_shorter)

definition fnmatch :: "string \<Rightarrow> string \<Rightarrow> bool" where
  "fnmatch name pat = fullmatch (cats (fn_items pat)) name"

subsection \<open>Path rules\<close>

definition dir_rule :: "string \<Rightarrow> string list" where
  "dir_rule p = (if suffix ''/**'' p \<and> length p > 3 then [take (length p - 3) p] else [])"

definition rule_forms :: "(string \<Rightarrow> string) \<Rightarrow> string \<Rightarrow> string list" where
  "rule_forms realpath pattern =
     (let normalized = (if startswith pattern ''**/'' then drop 3 pattern else pattern);
          ps = [pattern, normalized] @ (if isabs pattern then [realpath pattern] else []) in
      ps @ concat (map dir_rule ps))"

definition path_forms :: "(string \<Rightarrow> string) \<Rightarrow> string \<Rightarrow> string \<Rightarrow> string \<Rightarrow> string option \<Rightarrow> string list" where
  "path_forms realpath root_dir path pattern cwd =
     (let base = path_join root_dir (case cwd of None \<Rightarrow> [] | Some d \<Rightarrow> d);
          absolute = normpath (path_join base path);
          real_root = realpath root_dir;
          physical = realpath absolute in
      concat (map (\<lambda>(candidate, anchor).
          if commonpath candidate anchor = anchor
          then relpath candidate anchor # (if isabs pattern then [candidate] else [])
          else if commonpath physical real_root \<noteq> real_root then [path, candidate]
          else [])
        [(absolute, root_dir), (physical, real_root)]))"

definition path_matches :: "(string \<Rightarrow> string) \<Rightarrow> string \<Rightarrow> string \<Rightarrow> string \<Rightarrow> string option \<Rightarrow> bool" where
  "path_matches realpath root_dir path pattern cwd =
     (let normalized = (if startswith pattern ''**/'' then drop 3 pattern else pattern) in
      list_ex (\<lambda>form. list_ex (\<lambda>rule. fnmatch form rule \<or> path_name form = normalized)
          (rule_forms realpath pattern))
        (path_forms realpath root_dir path pattern cwd))"

subsection \<open>Root removal\<close>

definition removes_root_or_home :: "string \<Rightarrow> bool" where
  "removes_root_or_home path =
     (let normalized = normpath path in
      (startswith normalized ''/'' \<and> strip_chars is_slash normalized = [])
      \<or> normalized \<in> set [''/*'', ''~'', ''~/*'']
      \<or> fullmatch (cats [lit ''$'', Alt (plus (Cls is_word)) (cats [lit ''{'', plus (Cls is_word), lit ''}'']),
                         opt (lit ''/*'')]) normalized)"

definition control_token :: "string \<Rightarrow> bool" where
  "control_token t \<longleftrightarrow> t \<noteq> [] \<and> list_all (\<lambda>c. c \<in> set SHELL_OPERATORS) t"

text \<open>The options and operands of one \<open>rm\<close>: recursive, force, operands.\<close>

fun rm_arguments :: "bool \<Rightarrow> bool \<Rightarrow> bool \<Rightarrow> string list \<Rightarrow> string list \<Rightarrow> bool \<times> bool \<times> string list" where
  "rm_arguments recursive force ended operands [] = (recursive, force, operands)"
| "rm_arguments recursive force ended operands (a # rest) =
     (if control_token a then (recursive, force, operands)
      else if a = ''--'' \<and> \<not> ended then rm_arguments recursive force True operands rest
      else if \<not> ended \<and> startswith a ''--''
      then rm_arguments (recursive \<or> length a > 2 \<and> startswith ''--recursive'' a)
             (force \<or> length a > 2 \<and> startswith ''--force'' a) ended operands rest
      else if \<not> ended \<and> startswith a ''-''
      then rm_arguments (recursive \<or> CHR ''r'' \<in> set a \<or> CHR ''R'' \<in> set a) (force \<or> CHR ''f'' \<in> set a) ended operands rest
      else rm_arguments recursive force ended (operands @ [a]) rest)"

definition rm_denied :: "string list \<Rightarrow> bool" where
  "rm_denied arguments =
     (case rm_arguments False False False [] arguments of
        (recursive, force, operands) \<Rightarrow> recursive \<and> force \<and> list_ex removes_root_or_home operands)"

fun rm_scan :: "string option \<Rightarrow> string list \<Rightarrow> bool" where
  "rm_scan prev [] = False"
| "rm_scan prev (t # ts) =
     (after_last (CHR ''/'') t = ''rm'' \<and> prev \<noteq> Some ''git'' \<and> rm_denied ts \<or> rm_scan (Some t) ts)"

lemma newline_count_strip:
  "length (filter newline (strip_simple_comments command)) = length (filter newline command)"
  using strip_simple_comments_newlines [of command] by (simp add: newline_def [abs_def])

lemma split_lines_no_newline: "line \<in> set (split_on newline s) \<Longrightarrow> filter newline line = []"
  using split_on_pieces [of newline s] by (auto simp: filter_empty_conv)

function root_removal_decision :: "string \<Rightarrow> bool \<Rightarrow> decision" where
  "root_removal_decision command strip_comments =
     (let text0 = (if strip_comments then strip_simple_comments command else command);
          lexed = shell_lexer text0 SHELL_OPERATORS in
      if rm_scan None (fst lexed) then DENY
      else if (if CHR 0x0A \<in> set text0
               then list_ex (\<lambda>line. root_removal_decision line strip_comments = DENY) (split_on newline text0)
               else False)
      then DENY
      else if \<not> snd lexed then ASK else ALLOW)"
  by pat_completeness auto

termination
proof (relation "measure (\<lambda>(command, b). length (filter newline command))", simp)
  fix command and b :: bool and text0 line
  assume t: "text0 = (if b then strip_simple_comments command else command)"
    and nl: "CHR 0x0A \<in> set text0" and line: "line \<in> set (split_on newline text0)"
  have "filter newline text0 \<noteq> []" using nl by (auto simp: filter_empty_conv newline_def)
  then have "length (filter newline command) > 0"
    using newline_count_strip [of command] t by (auto split: if_splits)
  with split_lines_no_newline [OF line] show
    "((line, b), command, b) \<in> measure (\<lambda>(command, b). length (filter newline command))" by simp
qed

declare root_removal_decision.simps [simp del]

end
