(* ===== verification/Permissions.thy ===== *)
theory Permissions
  imports Permission_Rules
begin

text \<open>
  The permission engine of \<open>garuda/core/permissions.py\<close> and its delegated form. An engine holds
  the compiled user patterns as values of \<^typ>\<open>rx\<close>; a rule text that is not a decision raises, as
  in the source. The arguments of a tool call are its textual arguments by name (absent and
  \<open>None\<close> coincide) and the one flag the engine reads. An approval handler is a function of the
  action text, and evaluating a call also returns the prompts it made.

  The lemmas show that a delegated run is decided exactly by the strictest of its own profile
  and all its ancestors, that deny patterns win over allow prefixes, that a read-only profile
  runs only commands that read, and that a call runs unapproved only if every policy allows it.
\<close>

datatype perm_error = Bad_decision string

type_synonym handler = "string \<Rightarrow> bool"

record engine =
  e_mode :: string
  configured_root :: string
  tool_rules :: "string dict"
  deny_paths :: "string list"
  ask_paths :: "string list"
  deny_bash :: "rx list"
  ask_bash :: "rx list"
  allow_prefixes :: "string list"
  approval_handler :: "handler option"

record perm_env =
  realpath :: "string \<Rightarrow> string"
  active_workspace :: "string option"

record tool_args =
  text_args :: "string dict"
  marker_polling :: bool

definition abspath :: "string \<Rightarrow> string \<Rightarrow> string" where
  "abspath cwd p = normpath (path_join cwd p)"

text \<open>\<open>__init__\<close>: \<open>cwd\<close> is the process directory.\<close>

definition new_engine :: "string \<Rightarrow> string \<Rightarrow> string dict \<Rightarrow> string list dict \<Rightarrow> rx list dict \<Rightarrow> string list
    \<Rightarrow> handler option \<Rightarrow> string option \<Rightarrow> engine" where
  "new_engine cwd mode tools paths bash allow handler workspace_root =
     (let get = (\<lambda>d k. case dict_get d k of None \<Rightarrow> [] | Some v \<Rightarrow> v) in
      \<lparr>e_mode = mode,
       configured_root = abspath cwd (case workspace_root of None \<Rightarrow> cwd | Some w \<Rightarrow> if w = [] then cwd else w),
       tool_rules = tools, deny_paths = get paths ''deny'', ask_paths = get paths ''ask'',
       deny_bash = (case dict_get bash ''deny'' of None \<Rightarrow> [] | Some v \<Rightarrow> v),
       ask_bash = (case dict_get bash ''ask'' of None \<Rightarrow> [] | Some v \<Rightarrow> v),
       allow_prefixes = map py_strip (filter (\<lambda>p. p \<noteq> [] \<and> py_strip p \<noteq> []) allow),
       approval_handler = handler\<rparr>)"

definition install_approval_handler :: "handler option \<Rightarrow> engine \<Rightarrow> engine" where
  "install_approval_handler handler e = e\<lparr>approval_handler := handler\<rparr>"

definition decision_of :: "string \<Rightarrow> perm_error + decision" where
  "decision_of s =
     (if s = ''allow'' then Inr ALLOW else if s = ''deny'' then Inr DENY
      else if s = ''ask'' then Inr ASK else Inl (Bad_decision s))"

definition unrestricted :: "engine \<Rightarrow> bool" where
  "unrestricted e \<longleftrightarrow> e_mode e = ''auto'' \<or> e_mode e = ''yolo''"

definition check_tool :: "engine \<Rightarrow> string \<Rightarrow> perm_error + decision" where
  "check_tool e tool =
     (case dict_get (tool_rules e) tool of
        Some rule \<Rightarrow> decision_of rule
      | None \<Rightarrow>
          if unrestricted e then Inr ALLOW
          else if e_mode e = ''readonly''
          then Inr (if tool \<in> set READONLY_DENIED_TOOLS then DENY else ALLOW)
          else Inr ALLOW)"

definition workspace_root :: "perm_env \<Rightarrow> engine \<Rightarrow> string" where
  "workspace_root env e =
     (case active_workspace env of None \<Rightarrow> configured_root e
      | Some w \<Rightarrow> if w = [] then configured_root e else w)"

definition rule_matches :: "perm_env \<Rightarrow> engine \<Rightarrow> string \<Rightarrow> string option \<Rightarrow> string \<Rightarrow> bool" where
  "rule_matches env e path cwd pattern =
     path_matches (realpath env) (workspace_root env e) path pattern cwd"

definition match_path_rules :: "perm_env \<Rightarrow> engine \<Rightarrow> string \<Rightarrow> string option \<Rightarrow> decision option" where
  "match_path_rules env e path cwd =
     (if list_ex (rule_matches env e path cwd) (deny_paths e) then Some DENY
      else if list_ex (rule_matches env e path cwd) (ask_paths e) then Some ASK
      else None)"

definition check_path :: "perm_env \<Rightarrow> engine \<Rightarrow> string \<Rightarrow> string \<Rightarrow> string option \<Rightarrow> decision" where
  "check_path env e path operation cwd =
     (if unrestricted e then ALLOW
      else case match_path_rules env e path cwd of
          Some rule \<Rightarrow> rule
        | None \<Rightarrow> if e_mode e = ''readonly'' \<and> (operation = ''write'' \<or> operation = ''patch'') then DENY else ALLOW)"

definition check_paths :: "perm_env \<Rightarrow> engine \<Rightarrow> string list \<Rightarrow> string \<Rightarrow> string option \<Rightarrow> decision" where
  "check_paths env e paths operation cwd =
     foldl (\<lambda>d path. if path \<noteq> [] then strictest d (check_path env e path operation cwd) else d) ALLOW paths"

definition matches_allow_prefix :: "engine \<Rightarrow> string \<Rightarrow> bool" where
  "matches_allow_prefix e command =
     (let stripped = dropWhile shell_blank command in
      list_ex (\<lambda>p. stripped = p
          \<or> startswith stripped p \<and> shell_blank (stripped ! length p)
            \<and> \<not> search SHELL_CHAIN_RE (drop (length p) stripped))
        (allow_prefixes e))"

definition any_match :: "rx list \<Rightarrow> string list \<Rightarrow> bool" where
  "any_match patterns forms \<longleftrightarrow> list_ex (\<lambda>pattern. list_ex (search pattern) forms) patterns"

definition check_command :: "engine \<Rightarrow> string \<Rightarrow> decision" where
  "check_command e command =
     (if unrestricted e then ALLOW
      else if e_mode e = ''readonly'' then (if is_side_effect_free command then ALLOW else DENY)
      else
        (let forms = remdups [command, join_continuations command] in
         if list_ex (\<lambda>t. root_removal_decision t False = DENY) forms then DENY
         else
           (let d = foldl strictest ALLOW (map (\<lambda>t. root_removal_decision t True) forms) in
            if d = DENY then DENY
            else if any_match (deny_bash e @ DENY_COMMAND_PATTERNS) forms then DENY
            else if d = ASK then ASK
            else if list_all (matches_allow_prefix e) forms then ALLOW
            else if any_match (ask_bash e @ ASK_COMMAND_PATTERNS) forms then ASK
            else ALLOW)))"

subsection \<open>One call\<close>

definition text_arg :: "tool_args \<Rightarrow> string \<Rightarrow> string" where
  "text_arg args k = (case dict_get (text_args args) k of None \<Rightarrow> [] | Some v \<Rightarrow> v)"

definition detail_decision :: "perm_env \<Rightarrow> engine \<Rightarrow> string \<Rightarrow> tool_args \<Rightarrow> decision" where
  "detail_decision env e tool args =
     (case dict_get COMMAND_TOOLS tool of
        Some arg \<Rightarrow>
          (let command = text_arg args arg;
               d = strictest (strictest (check_command e command)
                     (check_paths env e (command_path_tokens command) ''read'' (dict_get (text_args args) ''cwd'')))
                     (check_path env e (text_arg args ''cwd'') ''read'' None) in
           if tool = ''tmux_exec'' \<and> \<not> marker_polling args \<and> \<not> unrestricted e \<and> has_history_reference command
           then strictest d ASK else d)
      | None \<Rightarrow>
          (case dict_get SEARCH_TOOLS tool of
             Some names \<Rightarrow>
               check_paths env e (filter (\<lambda>p. p \<noteq> []) (map (text_arg args) names)) ''read'' None
           | None \<Rightarrow>
               if tool \<in> set (WRITE_TOOLS @ READ_TOOLS)
               then check_path env e (text_arg args ''path'')
                      (if tool \<in> set WRITE_TOOLS then ''write'' else ''read'') None
               else ALLOW))"

type_synonym verdict = "perm_error + decision \<times> string option"

definition decide :: "perm_env \<Rightarrow> engine \<Rightarrow> string \<Rightarrow> tool_args \<Rightarrow> verdict" where
  "decide env e tool args =
     (case check_tool e tool of
        Inl err \<Rightarrow> Inl err
      | Inr tool_decision \<Rightarrow>
          if tool_decision = DENY then Inr (DENY, Some (''Permission denied for tool: '' @ tool))
          else
            (let d = strictest tool_decision (detail_decision env e tool args) in
             if d = DENY then Inr (d, Some (''Permission denied for '' @ tool)) else Inr (d, None)))"

definition or_allow :: "decision option \<Rightarrow> decision" where
  "or_allow d = (case d of None \<Rightarrow> ALLOW | Some x \<Rightarrow> x)"

definition decide_acceptance :: "perm_env \<Rightarrow> engine \<Rightarrow> tool_args \<Rightarrow> verdict" where
  "decide_acceptance env e args =
     (case decide env e ''bash'' args of
        Inl err \<Rightarrow> Inl err
      | Inr (d, reason) \<Rightarrow>
          (let command = text_arg args ''command''; cwd = text_arg args ''cwd'';
               declared = (if any_match (deny_bash e) [command] then DENY
                           else if any_match (ask_bash e) [command] then ASK else ALLOW);
               d1 = strictest (strictest d declared) (check_path env e cwd ''write'' None);
               d2 = strictest d1 (or_allow (match_path_rules env e cwd None));
               d3 = foldl (\<lambda>d path. strictest d (or_allow (match_path_rules env e path (Some cwd)))) d2
                      (command_path_tokens command) in
           Inr (d3, case reason of
                Some r \<Rightarrow> Some r
              | None \<Rightarrow> if d3 = DENY then Some ''Check permission ceiling refused'' else None)))"

text \<open>\<open>_resolve_decision\<close>: allowed, the reason of a refusal, and the prompts made.\<close>

definition resolve_decision :: "decision \<Rightarrow> string option \<Rightarrow> string \<Rightarrow> string \<Rightarrow> handler option
    \<Rightarrow> bool \<times> string option \<times> string list" where
  "resolve_decision d reason tool action handler =
     (if d = DENY then
        (False, Some (case reason of None \<Rightarrow> ''Permission denied for '' @ tool
                      | Some r \<Rightarrow> if r = [] then ''Permission denied for '' @ tool else r), [])
      else if d = ASK then
        (case handler of
           None \<Rightarrow> (False, Some (''Approval required but no handler configured: '' @ action), [])
         | Some h \<Rightarrow> if h action then (True, None, [action]) else (False, Some (''User denied: '' @ action), [action]))
      else (True, None, []))"

subsection \<open>Delegation\<close>

definition MODE_ORDER :: "string list" where
  "MODE_ORDER = [''readonly'', ''smart'', ''auto'', ''yolo'']"

definition strictest_mode :: "string \<Rightarrow> string \<Rightarrow> string" where
  "strictest_mode a b =
     (case filter (\<lambda>m. m = a \<or> m = b) MODE_ORDER of [] \<Rightarrow> a | m # _ \<Rightarrow> m)"

text \<open>A plain engine, or a child engine under a parent policy with its handler override.\<close>

datatype policy = Plain engine | Delegated engine policy "handler option"

fun policy_mode :: "policy \<Rightarrow> string" where
  "policy_mode (Plain e) = e_mode e"
| "policy_mode (Delegated c p h) = strictest_mode (e_mode c) (policy_mode p)"

fun policy_handler :: "policy \<Rightarrow> handler option" where
  "policy_handler (Plain e) = approval_handler e"
| "policy_handler (Delegated c p h) = (case h of None \<Rightarrow> policy_handler p | Some x \<Rightarrow> Some x)"

fun policy_install_handler :: "handler option \<Rightarrow> policy \<Rightarrow> policy" where
  "policy_install_handler handler (Plain e) = Plain (install_approval_handler handler e)"
| "policy_install_handler handler (Delegated c p h) = Delegated c p handler"

fun policy_check_tool :: "policy \<Rightarrow> string \<Rightarrow> perm_error + decision" where
  "policy_check_tool (Plain e) tool = check_tool e tool"
| "policy_check_tool (Delegated c p h) tool =
     (case policy_check_tool p tool of Inl err \<Rightarrow> Inl err
      | Inr a \<Rightarrow> (case check_tool c tool of Inl err \<Rightarrow> Inl err | Inr b \<Rightarrow> Inr (strictest a b)))"

fun policy_check_path :: "perm_env \<Rightarrow> policy \<Rightarrow> string \<Rightarrow> string \<Rightarrow> string option \<Rightarrow> decision" where
  "policy_check_path env (Plain e) path operation cwd = check_path env e path operation cwd"
| "policy_check_path env (Delegated c p h) path operation cwd =
     strictest (policy_check_path env p path operation cwd) (check_path env c path operation cwd)"

fun policy_check_command :: "policy \<Rightarrow> string \<Rightarrow> decision" where
  "policy_check_command (Plain e) command = check_command e command"
| "policy_check_command (Delegated c p h) command =
     strictest (policy_check_command p command) (check_command c command)"

definition ceiling_reason :: "string option \<Rightarrow> string" where
  "ceiling_reason r = (case r of None \<Rightarrow> ''None'' | Some t \<Rightarrow> t) @ '' (parent run ceiling)''"

fun policy_decide :: "perm_env \<Rightarrow> policy \<Rightarrow> string \<Rightarrow> tool_args \<Rightarrow> verdict" where
  "policy_decide env (Plain e) tool args = decide env e tool args"
| "policy_decide env (Delegated c p h) tool args =
     (case policy_decide env p tool args of
        Inl err \<Rightarrow> Inl err
      | Inr (pd, pr) \<Rightarrow>
          (case decide env c tool args of
             Inl err \<Rightarrow> Inl err
           | Inr (cd, cr) \<Rightarrow>
               (let d = strictest pd cd in
                if d \<noteq> DENY then Inr (d, None)
                else if pd = DENY then Inr (d, Some (ceiling_reason pr))
                else Inr (d, cr))))"

fun policy_decide_acceptance :: "perm_env \<Rightarrow> policy \<Rightarrow> tool_args \<Rightarrow> verdict" where
  "policy_decide_acceptance env (Plain e) args = decide_acceptance env e args"
| "policy_decide_acceptance env (Delegated c p h) args =
     (case decide_acceptance env c args of
        Inl err \<Rightarrow> Inl err
      | Inr (cd, cr) \<Rightarrow>
          (case policy_decide_acceptance env p args of
             Inl err \<Rightarrow> Inl err
           | Inr (pd, pr) \<Rightarrow>
               Inr (strictest cd pd, case pr of None \<Rightarrow> cr | Some r \<Rightarrow> if r = [] then cr else Some r)))"

text \<open>\<open>evaluate_tool_call\<close> and \<open>evaluate_acceptance\<close>; \<open>show_args\<close> prints the arguments.\<close>

definition action_text :: "(tool_args \<Rightarrow> string) \<Rightarrow> string \<Rightarrow> tool_args \<Rightarrow> string" where
  "action_text show_args tool args = tool @ ''('' @ show_args args @ '')''"

definition evaluate_tool_call :: "perm_env \<Rightarrow> (tool_args \<Rightarrow> string) \<Rightarrow> policy \<Rightarrow> string \<Rightarrow> tool_args
    \<Rightarrow> perm_error + bool \<times> string option \<times> string list" where
  "evaluate_tool_call env show_args p tool args =
     (case policy_decide env p tool args of
        Inl err \<Rightarrow> Inl err
      | Inr (d, reason) \<Rightarrow> Inr (resolve_decision d reason tool (action_text show_args tool args) (policy_handler p)))"

definition evaluate_acceptance :: "perm_env \<Rightarrow> (tool_args \<Rightarrow> string) \<Rightarrow> policy \<Rightarrow> tool_args
    \<Rightarrow> perm_error + bool \<times> string option \<times> string list" where
  "evaluate_acceptance env show_args p args =
     (case policy_decide_acceptance env p args of
        Inl err \<Rightarrow> Inl err
      | Inr (d, reason) \<Rightarrow> Inr (resolve_decision d reason ''bash'' (action_text show_args ''bash'' args) (policy_handler p)))"

subsection \<open>The ceiling of a delegated run\<close>

text \<open>The engines of a policy, the run's own first.\<close>

fun engines :: "policy \<Rightarrow> engine list" where
  "engines (Plain e) = [e]"
| "engines (Delegated c p h) = c # engines p"

lemma engines_not_Nil [simp]: "engines p \<noteq> []"
  by (cases p) simp_all

text \<open>
  What every screen of a delegated policy promises: a query \<open>q\<close> is answered by the parent and by
  the child, the stricter answer wins, and an exception (\<open>None\<close>) of either is the exception of
  the whole.
\<close>

locale ceiling =
  fixes own :: "engine \<Rightarrow> 'q \<Rightarrow> decision option"
    and combined :: "policy \<Rightarrow> 'q \<Rightarrow> decision option"
  assumes plain: "combined (Plain e) q = own e q"
    and delegated: "combined (Delegated c p h) q =
      (case combined p q of None \<Rightarrow> None
       | Some a \<Rightarrow> (case own c q of None \<Rightarrow> None | Some b \<Rightarrow> Some (max a b)))"
begin

lemma combined_None: "combined p q = None \<longleftrightarrow> (\<exists>e \<in> set (engines p). own e q = None)"
  by (induction p) (auto simp: plain delegated split: option.splits)

lemma combined_Some:
  "combined p q = Some d \<longleftrightarrow>
     (\<forall>e \<in> set (engines p). own e q \<noteq> None) \<and> d = Max ((\<lambda>e. the (own e q)) ` set (engines p))"
proof (induction p arbitrary: d)
  case (Plain e)
  then show ?case by (auto simp: plain)
next
  case (Delegated c p h)
  have "combined (Delegated c p h) q = Some d \<longleftrightarrow>
      (\<exists>a b. combined p q = Some a \<and> own c q = Some b \<and> d = max a b)"
    by (auto simp: delegated split: option.splits)
  also have "\<dots> \<longleftrightarrow> (\<forall>e \<in> set (engines p). own e q \<noteq> None) \<and> own c q \<noteq> None
      \<and> d = max (Max ((\<lambda>e. the (own e q)) ` set (engines p))) (the (own c q))"
    unfolding Delegated.IH by auto
  finally show ?case by (auto simp: max.commute)
qed

lemma combined_bound:
  "combined p q = Some d \<Longrightarrow> e \<in> set (engines p) \<Longrightarrow> \<exists>b. own e q = Some b \<and> b \<le> d"
proof -
  assume c: "combined p q = Some d" and e: "e \<in> set (engines p)"
  then obtain b where b: "own e q = Some b" unfolding combined_Some by auto
  from c have "d = Max ((\<lambda>e. the (own e q)) ` set (engines p))" unfolding combined_Some by simp
  moreover have "the (own e q) \<le> Max ((\<lambda>e. the (own e q)) ` set (engines p))" using e by (intro Max_ge) auto
  ultimately show ?thesis using b by simp
qed

end

definition verdict_decision :: "perm_error + decision \<times> 'r \<Rightarrow> decision option" where
  "verdict_decision v = (case v of Inl _ \<Rightarrow> None | Inr (d, _) \<Rightarrow> Some d)"

definition tool_decision :: "perm_error + decision \<Rightarrow> decision option" where
  "tool_decision v = (case v of Inl _ \<Rightarrow> None | Inr d \<Rightarrow> Some d)"

interpretation path_ceiling: ceiling
  "\<lambda>e (env, path, operation, cwd). Some (check_path env e path operation cwd)"
  "\<lambda>p (env, path, operation, cwd). Some (policy_check_path env p path operation cwd)"
  by unfold_locales (auto simp: strictest_max)

interpretation command_ceiling: ceiling
  "\<lambda>e command. Some (check_command e command)" "\<lambda>p command. Some (policy_check_command p command)"
  by unfold_locales (auto simp: strictest_max)

interpretation tool_ceiling: ceiling
  "\<lambda>e tool. tool_decision (check_tool e tool)" "\<lambda>p tool. tool_decision (policy_check_tool p tool)"
  by unfold_locales (auto simp: tool_decision_def strictest_max split: sum.splits)

interpretation decide_ceiling: ceiling
  "\<lambda>e (env, tool, args). verdict_decision (decide env e tool args)"
  "\<lambda>p (env, tool, args). verdict_decision (policy_decide env p tool args)"
  by unfold_locales
     (auto simp: verdict_decision_def strictest_max Let_def split: sum.splits prod.splits)

interpretation acceptance_ceiling: ceiling
  "\<lambda>e (env, args). verdict_decision (decide_acceptance env e args)"
  "\<lambda>p (env, args). verdict_decision (policy_decide_acceptance env p args)"
  by unfold_locales
     (auto simp: verdict_decision_def strictest_max max.commute split: sum.splits prod.splits)

subsection \<open>Laws of one engine\<close>

lemma decide_decision:
  "verdict_decision (decide env e tool args) =
     map_option (\<lambda>t. max t (detail_decision env e tool args)) (tool_decision (check_tool e tool))"
  by (auto simp: decide_def verdict_decision_def tool_decision_def strictest_max Let_def split: sum.splits)

lemma decide_returns: "check_tool e tool = Inr t \<Longrightarrow> \<exists>d r. decide env e tool args = Inr (d, r)"
  by (simp add: decide_def Let_def)

lemma command_tools_arg: "tool \<in> fst ` set COMMAND_TOOLS \<Longrightarrow> dict_get COMMAND_TOOLS tool = Some ''command''"
  by (auto simp: COMMAND_TOOLS_def)

lemma detail_command:
  "tool \<in> fst ` set COMMAND_TOOLS \<Longrightarrow> check_command e (text_arg args ''command'') \<le> detail_decision env e tool args"
  by (auto simp: detail_decision_def command_tools_arg strictest_max Let_def le_max_iff_disj)

lemma decide_command:
  assumes "tool \<in> fst ` set COMMAND_TOOLS" "verdict_decision (decide env e tool args) = Some d"
  shows "check_command e (text_arg args ''command'') \<le> d"
  using assms detail_command [of tool e args env] by (auto simp: decide_decision le_max_iff_disj)

lemma DENY_le [simp]: "DENY \<le> d \<longleftrightarrow> d = DENY"
  by (cases d) (simp_all add: less_eq_decision_def)

lemma le_ALLOW [simp]: "d \<le> ALLOW \<longleftrightarrow> d = ALLOW"
  by (cases d) (simp_all add: less_eq_decision_def)

lemma check_command_deny:
  assumes "\<not> unrestricted e" "e_mode e \<noteq> ''readonly''"
    and "any_match (deny_bash e @ DENY_COMMAND_PATTERNS) [command, join_continuations command]"
  shows "check_command e command = DENY"
  using assms by (auto simp: check_command_def any_match_def Let_def)

lemma foldl_strictest_ge: "d \<le> foldl (\<lambda>d x. strictest d (f x)) d xs"
proof (induction xs arbitrary: d)
  case (Cons x xs)
  have "d \<le> strictest d (f x)" by (simp add: strictest_max)
  with Cons [of "strictest d (f x)"] show ?case by (auto intro: order_trans)
qed simp

subsection \<open>Root removal\<close>

lemma punctuation_operators: "punctuation_ok SHELL_OPERATORS"
  by (simp add: punctuation_ok_def SHELL_OPERATORS_def quote_safe_def is_digit_def is_lower_def is_upper_def
      code_def shell_chars)

lemma split_on_single: "\<forall>c \<in> set s. \<not> p c \<Longrightarrow> split_on p s = [s]"
  by (induction s) auto

lemma control_token_not_root:
  assumes "control_token p"
  shows "\<not> removes_root_or_home p"
proof -
  from assms obtain c cs where p: "p = c # cs" "c \<in> set SHELL_OPERATORS" "\<forall>x \<in> set p. x \<in> set SHELL_OPERATORS"
    by (cases p) (auto simp: control_token_def list_all_iff)
  have ops: "CHR ''/'' \<notin> set SHELL_OPERATORS" "CHR ''.'' \<notin> set SHELL_OPERATORS"
    "CHR ''~'' \<notin> set SHELL_OPERATORS" "CHR ''$'' \<notin> set SHELL_OPERATORS" by (simp_all add: SHELL_OPERATORS_def)
  have "split_on is_slash p = [p]"
    using p(3) ops(1) by (intro split_on_single) (auto simp: is_slash_def)
  moreover have "\<not> startswith p ''/''" "p \<noteq> ''.''" "p \<noteq> ''..''"
    using p(1,2) ops by (auto simp: startswith_def)
  ultimately have "normpath p = p" using p by (simp add: normpath_def leading_slashes_def)
  moreover have "\<not> fullmatch (cats [lit ''$'', r1, r2]) p" for r1 r2
    using p(1,2) ops(4) by (auto simp: fullmatch_def lit_def)
  ultimately show ?thesis
    using p(1,2) ops \<open>\<not> startswith p ''/''\<close> by (auto simp: removes_root_or_home_def Let_def)
qed

lemma rm_rf_denied:
  assumes "after_last (CHR ''/'') prog = ''rm''" "removes_root_or_home p"
  shows "rm_scan None [prog, ''-rf'', ''--'', p]"
proof -
  have "\<not> control_token ''-rf''" "\<not> control_token ''--''"
    by (simp_all add: control_token_def SHELL_OPERATORS_def)
  moreover have "\<not> control_token p" using assms(2) control_token_not_root by blast
  ultimately show ?thesis using assms by (simp add: rm_denied_def startswith_def)
qed

lemma root_removal_raw:
  "rm_scan None (fst (shell_lexer command SHELL_OPERATORS)) \<Longrightarrow> root_removal_decision command False = DENY"
  by (subst root_removal_decision.simps) (simp add: Let_def)

subsection \<open>Properties\<close>

text \<open>C30. A delegated run is decided exactly by the strictest engine of its chain: the decision of
  the child engine under all its ancestors is the maximum of their separate decisions, at any
  depth, and an exception of any of them is an exception of the whole.\<close>

theorem delegated_decision_is_strictest:
  "verdict_decision (policy_decide env p tool args) =
     (if \<exists>e \<in> set (engines p). verdict_decision (decide env e tool args) = None then None
      else Some (Max ((\<lambda>e. the (verdict_decision (decide env e tool args))) ` set (engines p))))"
proof (cases "verdict_decision (policy_decide env p tool args)")
  case None
  with decide_ceiling.combined_None [of p "(env, tool, args)"] show ?thesis by simp
next
  case (Some d)
  with decide_ceiling.combined_Some [of p "(env, tool, args)" d] show ?thesis by auto
qed

text \<open>C31. A tool call of a run under any chain of delegation asks at most once. If it is allowed, no
  engine of the chain denies it; if it is allowed without a prompt, every engine of the chain
  allows it; and if there was a prompt, an installed handler approved exactly that action.\<close>

theorem tool_call_within_ceiling:
  assumes "evaluate_tool_call env show_args p tool args = Inr (allowed, reason, prompts)"
  shows "length prompts \<le> 1
    \<and> (allowed \<longrightarrow> (\<forall>e \<in> set (engines p).
          verdict_decision (decide env e tool args) \<in> {Some ALLOW, Some (if prompts = [] then ALLOW else ASK)}))
    \<and> (allowed \<and> prompts \<noteq> [] \<longrightarrow> (\<exists>h. policy_handler p = Some h \<and> h (action_text show_args tool args)))"
proof -
  from assms obtain d r where d: "policy_decide env p tool args = Inr (d, r)"
    and res: "resolve_decision d r tool (action_text show_args tool args) (policy_handler p) = (allowed, reason, prompts)"
    by (auto simp: evaluate_tool_call_def split: sum.splits prod.splits)
  have bound: "\<exists>b. verdict_decision (decide env e tool args) = Some b \<and> b \<le> d" if "e \<in> set (engines p)" for e
    using decide_ceiling.combined_bound [of p "(env, tool, args)" d e] that d by (simp add: verdict_decision_def)
  have le: "b \<le> ASK \<Longrightarrow> b \<in> {ALLOW, ASK}" for b by (cases b) (simp_all add: less_eq_decision_def)
  show ?thesis
  proof (cases d)
    case ALLOW
    with res bound show ?thesis by (fastforce simp: resolve_decision_def)
  next
    case ASK
    with res bound le show ?thesis
      by (fastforce simp: resolve_decision_def split: option.splits if_splits)
  next
    case DENY
    with res show ?thesis by (auto simp: resolve_decision_def)
  qed
qed

definition demo_engine :: engine where
  "demo_engine = \<lparr>e_mode = ''smart'', configured_root = ''/w'', tool_rules = [(''spawn'', ''ask'')],
     deny_paths = [], ask_paths = [], deny_bash = [], ask_bash = [], allow_prefixes = [''mkfs.ext4''],
     approval_handler = Some (\<lambda>_. True)\<rparr>"

definition demo_perm_env :: perm_env where
  "demo_perm_env = \<lparr>realpath = (\<lambda>p. p), active_workspace = None\<rparr>"

definition demo_args :: tool_args where
  "demo_args = \<lparr>text_args = [(''command'', ''mkfs.ext4 d'')], marker_polling = True\<rparr>"

theorem tool_call_within_ceiling_witness:
  "evaluate_tool_call demo_perm_env (\<lambda>_. []) (Delegated demo_engine (Plain demo_engine) None) ''spawn'' demo_args
     = Inr (True, None, [''spawn()'']) \<and> length [''spawn()''] \<le> 1"
proof -
  have e: "evaluate_tool_call demo_perm_env (\<lambda>_. []) (Delegated demo_engine (Plain demo_engine) None) ''spawn'' demo_args
     = Inr (True, None, [''spawn()''])"
    by (simp add: evaluate_tool_call_def decide_def check_tool_def demo_engine_def decision_of_def detail_decision_def
        COMMAND_TOOLS_def SEARCH_TOOLS_def WRITE_TOOLS_def READ_TOOLS_def strictest_def resolve_decision_def
        action_text_def Let_def)
  from tool_call_within_ceiling [OF this] e show ?thesis by simp
qed

text \<open>A deny pattern can never be bypassed: in every mode that screens by pattern, a command of
  which the raw or the continuation-joined text matches a configured or built-in deny pattern is
  denied, whatever allow prefixes, ask rules and tool rules the engine has.\<close>

lemma deny_pattern_wins:
  assumes "\<not> unrestricted e" "e_mode e \<noteq> ''readonly''" "tool \<in> fst ` set COMMAND_TOOLS"
    and "any_match (deny_bash e @ DENY_COMMAND_PATTERNS)
      [text_arg args ''command'', join_continuations (text_arg args ''command'')]"
    and "decide env e tool args = Inr (d, reason)"
  shows "d = DENY"
proof -
  have "check_command e (text_arg args ''command'') = DENY" using assms by (intro check_command_deny)
  moreover have "verdict_decision (decide env e tool args) = Some d" by (simp add: assms(5) verdict_decision_def)
  ultimately show ?thesis using decide_command [OF assms(3), of env e args d] by simp
qed

text \<open>C32. Under a read-only profile a shell tool that is not refused runs only a command that the
  side-effect screen accepts, whatever tool rules say.\<close>

theorem readonly_runs_only_reads:
  assumes "e_mode e = ''readonly''" "tool \<in> fst ` set COMMAND_TOOLS"
    and "decide env e tool args = Inr (d, reason)" "d \<noteq> DENY"
  shows "is_side_effect_free (text_arg args ''command'')"
proof -
  have "check_command e (text_arg args ''command'') \<le> d"
    using decide_command [OF assms(2), of env e args d] assms(3) by (simp add: verdict_decision_def)
  with assms(4) have "check_command e (text_arg args ''command'') \<noteq> DENY" by auto
  with assms(1) show ?thesis by (auto simp: check_command_def unrestricted_def split: if_splits)
qed

theorem readonly_runs_only_reads_witness:
  "decide demo_perm_env (demo_engine\<lparr>e_mode := ''readonly''\<rparr>) ''bash'' \<lparr>text_args = [(''command'', ''ls'')], marker_polling = True\<rparr>
     = Inr (ALLOW, None) \<and> is_side_effect_free ''ls''"
proof -
  have d: "decide demo_perm_env (demo_engine\<lparr>e_mode := ''readonly''\<rparr>) ''bash''
      \<lparr>text_args = [(''command'', ''ls'')], marker_polling = True\<rparr> = Inr (ALLOW, None)" by code_simp
  have "e_mode (demo_engine\<lparr>e_mode := ''readonly''\<rparr>) = ''readonly''" "''bash'' \<in> fst ` set COMMAND_TOOLS"
    by (simp_all add: COMMAND_TOOLS_def)
  from readonly_runs_only_reads [OF this d] d show ?thesis by (simp add: text_arg_def)
qed



text \<open>The explicit check ceiling keeps its deny rules in every mode: a check command that matches
  a configured deny pattern is refused with a reason even when the tool mode is automatic.\<close>

lemma acceptance_keeps_deny_rules:
  assumes "any_match (deny_bash e) [text_arg args ''command'']" "decide_acceptance env e args = Inr (d, reason)"
  shows "d = DENY \<and> reason \<noteq> None"
proof -
  from assms(2) obtain d0 r where d0: "decide env e ''bash'' args = Inr (d0, r)"
    by (auto simp: decide_acceptance_def split: sum.splits)
  let ?d2 = "strictest (strictest (strictest d0 DENY) (check_path env e (text_arg args ''cwd'') ''write'' None))
    (or_allow (match_path_rules env e (text_arg args ''cwd'') None))"
  have "DENY \<le> foldl (\<lambda>d path. strictest d (or_allow (match_path_rules env e path (Some (text_arg args ''cwd'')))))
      ?d2 (command_path_tokens (text_arg args ''command''))"
    using foldl_strictest_ge [of ?d2] by (simp add: strictest_max)
  then show ?thesis using assms d0 by (auto simp: decide_acceptance_def Let_def split: option.splits)
qed

text \<open>C34. An \<open>ask\<close> path rule loosens a read-only profile: a write to a path that no rule mentions is
  denied, and adding an ask rule for that path turns the denial into a question, because the rule
  is returned before the mode is looked at.\<close>

theorem ask_rule_loosens_readonly:
  assumes "e_mode e = ''readonly''" "list_ex (rule_matches env e path cwd) (ask_paths e)"
    "\<not> list_ex (rule_matches env e path cwd) (deny_paths e)"
  shows "check_path env e path ''write'' cwd = ASK
    \<and> check_path env (e\<lparr>ask_paths := []\<rparr>) path ''write'' cwd = DENY"
proof -
  have "rule_matches env (e\<lparr>ask_paths := []\<rparr>) path cwd = rule_matches env e path cwd"
    by (simp add: fun_eq_iff rule_matches_def workspace_root_def split: option.splits)
  with assms show ?thesis by (simp add: check_path_def match_path_rules_def unrestricted_def)
qed

theorem ask_rule_loosens_readonly_witness:
  "check_path demo_perm_env (demo_engine\<lparr>e_mode := ''readonly'', ask_paths := [''*.md'']\<rparr>) ''a.md'' ''write'' None = ASK"
proof -
  let ?e = "demo_engine\<lparr>e_mode := ''readonly'', ask_paths := [''*.md'']\<rparr>"
  have "list_ex (rule_matches demo_perm_env ?e ''a.md'' None) (ask_paths ?e)" by code_simp
  from ask_rule_loosens_readonly [OF _ this] show ?thesis by (simp add: demo_engine_def)
qed

end
