(* ===== verification/Session_State.thy ===== *)
theory Session_State
  imports Ownership
begin

text \<open>
  The four facts of a session record (\<open>garuda/runtime/session_state.py\<close>): process, work, outcome
  and verification. Stored words are strings, as in the record, and a missing key is \<open>None\<close>;
  \<open>validate\<close> says which combinations are possible. What a reader sees is \<open>effective_state\<close>, which
  never raises: an impossible stored state falls back to the legacy status word, and a process
  recorded as running is checked against the liveness of its owner.
\<close>

definition PROCESS :: "string list" where
  "PROCESS = [''starting'', ''live'', ''exited'', ''missing'', ''unknown'']"

definition WORK :: "string list" where
  "WORK = [''queued'', ''working'', ''waiting'', ''done'', ''stopped'']"

definition ACTIVE_WORK :: "string list" where
  "ACTIVE_WORK = [''queued'', ''working'', ''waiting'']"

definition OUTCOME :: "string list" where
  "OUTCOME = [''completed'', ''failed'', ''refused'', ''cancelled'']"

definition VERIFICATION :: "string list" where
  "VERIFICATION = [''passed'', ''failed'', ''unavailable'', ''invalidated'']"

definition SELF_CHECK :: "string list" where
  "SELF_CHECK = [''passed'', ''failed'']"

record verification_record =
  vr_status :: "string option"
  vr_authority :: "string option"

record self_check_record =
  chk_status :: "string option"
  chk_source :: string

record session_state =
  st_process :: "string option"
  st_work :: "string option"
  st_outcome :: "string option"
  st_verification :: "verification_record option"
  st_self_check :: "self_check_record option"
  st_owner :: "owner option"
  st_legacy_status :: "string option"

datatype session_error = Bad_process | Bad_work | Outcome_while_active | Missing_outcome
  | Stopped_outcome | Bad_verification | Missing_authority | Bad_self_check

definition one_of :: "string option \<Rightarrow> string list \<Rightarrow> bool" where
  "one_of x xs = (case x of None \<Rightarrow> False | Some s \<Rightarrow> s \<in> set xs)"

definition no_verification :: verification_record where
  "no_verification = \<lparr>vr_status = Some ''unavailable'', vr_authority = None\<rparr>"

definition validate :: "session_state \<Rightarrow> session_error + session_state" where
  "validate s =
     (let v = (case st_verification s of None \<Rightarrow> \<lparr>vr_status = None, vr_authority = None\<rparr> | Some r \<Rightarrow> r) in
      if \<not> one_of (st_process s) PROCESS then Inl Bad_process
      else if \<not> one_of (st_work s) WORK then Inl Bad_work
      else if one_of (st_work s) ACTIVE_WORK \<and> st_outcome s \<noteq> None then Inl Outcome_while_active
      else if \<not> one_of (st_work s) ACTIVE_WORK \<and> \<not> one_of (st_outcome s) OUTCOME then Inl Missing_outcome
      else if st_work s = Some ''stopped'' \<and> \<not> one_of (st_outcome s) [''cancelled'', ''refused'']
      then Inl Stopped_outcome
      else if \<not> one_of (vr_status v) VERIFICATION then Inl Bad_verification
      else if one_of (vr_status v) [''passed'', ''failed''] \<and> (vr_authority v = None \<or> vr_authority v = Some [])
      then Inl Missing_authority
      else if (case st_self_check s of None \<Rightarrow> False | Some c \<Rightarrow> \<not> one_of (chk_status c) SELF_CHECK)
      then Inl Bad_self_check
      else Inr s)"

definition fresh_state :: "string \<Rightarrow> owner option \<Rightarrow> session_state" where
  "fresh_state work ow =
     \<lparr>st_process = Some ''live'', st_work = Some work, st_outcome = None,
      st_verification = Some no_verification, st_self_check = None, st_owner = ow, st_legacy_status = None\<rparr>"

definition started :: "owner option \<Rightarrow> session_error + session_state" where
  "started ow = validate (fresh_state ''working'' ow)"

definition queued :: "owner option \<Rightarrow> session_error + session_state" where
  "queued ow = validate (fresh_state ''queued'' ow)"

text \<open>The two facts \<open>finished\<close> reads of the completion gate.\<close>

record completion_gate =
  authoritative_grader :: bool
  verifier :: bool

definition finished :: "bool \<Rightarrow> completion_gate option \<Rightarrow> verification_record option \<Rightarrow> session_error + session_state" where
  "finished success gate verification =
     (let g = (case gate of None \<Rightarrow> \<lparr>authoritative_grader = False, verifier = False\<rparr> | Some x \<Rightarrow> x);
          derived = (if success \<and> authoritative_grader g
                     then \<lparr>vr_status = Some ''passed'', vr_authority = Some ''user-config''\<rparr> else no_verification);
          final = (case verification of None \<Rightarrow> derived | Some v \<Rightarrow> v);
          check = (if verifier g
                   then Some \<lparr>chk_status = Some (if success then ''passed'' else ''failed''),
                              chk_source = ''native-completion-gate''\<rparr> else None) in
      validate \<lparr>st_process = Some ''exited'', st_work = Some ''done'',
        st_outcome = Some (if success then ''completed'' else ''failed''),
        st_verification = Some final, st_self_check = check, st_owner = None, st_legacy_status = None\<rparr>)"

definition interrupted :: "bool \<Rightarrow> session_error + session_state" where
  "interrupted cancelled =
     validate \<lparr>st_process = Some ''exited'', st_work = Some (if cancelled then ''stopped'' else ''done''),
       st_outcome = Some (if cancelled then ''cancelled'' else ''failed''),
       st_verification = Some no_verification, st_self_check = None, st_owner = None, st_legacy_status = None\<rparr>"

definition LEGACY :: "(string \<times> string \<times> string option) dict" where
  "LEGACY =
     [(''running'', (''unknown'', ''working'', None)),
      (''success'', (''exited'', ''done'', Some ''completed'')),
      (''completed'', (''exited'', ''done'', Some ''completed'')),
      (''finished'', (''exited'', ''done'', Some ''completed'')),
      (''failed'', (''exited'', ''done'', Some ''failed''))]"

text \<open>The parts of a session record that are read here.\<close>

record worker =
  wk_pid :: "int option"
  wk_identity :: string
  wk_pgid :: "int option"

record session_meta =
  meta_status :: "string option"
  meta_state :: "session_state option"
  meta_worker :: "worker option"

definition legacy_fields :: "string option \<Rightarrow> string \<times> string \<times> string option" where
  "legacy_fields raw =
     (case raw of None \<Rightarrow> (''unknown'', ''done'', Some ''failed'')
      | Some r \<Rightarrow> (case dict_get LEGACY r of None \<Rightarrow> (''unknown'', ''done'', Some ''failed'') | Some f \<Rightarrow> f))"

definition from_legacy :: "session_meta \<Rightarrow> session_error + session_state" where
  "from_legacy m =
     (case legacy_fields (meta_status m) of (process, work, outcome) \<Rightarrow>
        validate \<lparr>st_process = Some process, st_work = Some work, st_outcome = outcome,
          st_verification = Some no_verification,
          st_self_check = (if meta_status m = Some ''success''
                           then Some \<lparr>chk_status = Some ''passed'', chk_source = ''legacy-status''\<rparr> else None),
          st_owner = None, st_legacy_status = meta_status m\<rparr>)"

definition worker_owner :: "session_meta \<Rightarrow> owner option" where
  "worker_owner m =
     (case meta_worker m of None \<Rightarrow> None
      | Some w \<Rightarrow>
          (case wk_pid w of None \<Rightarrow> None
           | Some p \<Rightarrow> if wk_identity w = [] then None
                       else Some \<lparr>pid = p, identity = wk_identity w,
                              pgid = (case wk_pgid w of None \<Rightarrow> p | Some g \<Rightarrow> g), epoch = []\<rparr>))"

text \<open>The state that is read: the stored one if it is possible, else the legacy one.\<close>

definition readable_state :: "session_meta \<Rightarrow> session_error + session_state" where
  "readable_state m =
     (case meta_state m of
        None \<Rightarrow> from_legacy m
      | Some s \<Rightarrow> (case validate s of Inl _ \<Rightarrow> from_legacy m | Inr t \<Rightarrow> Inr t))"

definition effective_state :: "(owner \<Rightarrow> bool option) \<Rightarrow> session_meta \<Rightarrow> session_error + session_state" where
  "effective_state liveness m =
     (case readable_state m of
        Inl e \<Rightarrow> Inl e
      | Inr s \<Rightarrow>
          if one_of (st_process s) [''starting'', ''live''] then
            (case (case st_owner s of Some ow \<Rightarrow> Some ow | None \<Rightarrow> worker_owner m) of
               None \<Rightarrow> Inr (s\<lparr>st_process := Some ''unknown''\<rparr>)
             | Some ow \<Rightarrow>
                 Inr (s\<lparr>st_process := Some (case liveness ow of
                     Some True \<Rightarrow> ''live'' | Some False \<Rightarrow> ''missing'' | None \<Rightarrow> ''unknown'')\<rparr>))
          else Inr s)"

definition is_crashed :: "session_state \<Rightarrow> bool" where
  "is_crashed s \<longleftrightarrow> one_of (st_process s) [''exited'', ''missing''] \<and> one_of (st_work s) ACTIVE_WORK
     \<and> st_outcome s = None"

definition summary_label :: "session_state \<Rightarrow> string" where
  "summary_label s =
     (if is_crashed s then ''crashed''
      else if one_of (st_work s) ACTIVE_WORK then the (st_work s)
      else case st_outcome s of
          Some x \<Rightarrow> if x \<noteq> [] then x else (case st_work s of None \<Rightarrow> ''?'' | Some w \<Rightarrow> w)
        | None \<Rightarrow> (case st_work s of None \<Rightarrow> ''?'' | Some w \<Rightarrow> w))"

subsection \<open>Possible states\<close>

definition valid_state :: "session_state \<Rightarrow> bool" where
  "valid_state s \<longleftrightarrow> validate s = Inr s"

lemma validate_Inr: "validate s = Inr t \<Longrightarrow> t = s \<and> valid_state s"
  by (auto simp: validate_def valid_state_def Let_def split: if_splits)

lemmas word_tables = PROCESS_def WORK_def ACTIVE_WORK_def OUTCOME_def VERIFICATION_def SELF_CHECK_def

lemma valid_state_iff:
  "valid_state s \<longleftrightarrow>
     one_of (st_process s) PROCESS \<and> one_of (st_work s) WORK
     \<and> (one_of (st_work s) ACTIVE_WORK \<longrightarrow> st_outcome s = None)
     \<and> (\<not> one_of (st_work s) ACTIVE_WORK \<longrightarrow> one_of (st_outcome s) OUTCOME)
     \<and> (st_work s = Some ''stopped'' \<longrightarrow> one_of (st_outcome s) [''cancelled'', ''refused''])
     \<and> (let v = (case st_verification s of None \<Rightarrow> \<lparr>vr_status = None, vr_authority = None\<rparr> | Some r \<Rightarrow> r) in
        one_of (vr_status v) VERIFICATION
        \<and> (one_of (vr_status v) [''passed'', ''failed''] \<longrightarrow> vr_authority v \<noteq> None \<and> vr_authority v \<noteq> Some []))
     \<and> (case st_self_check s of None \<Rightarrow> True | Some c \<Rightarrow> one_of (chk_status c) SELF_CHECK)"
  unfolding valid_state_def validate_def Let_def
  by (cases "st_self_check s") simp_all

text \<open>Whether another process word is possible does not depend on the rest of the state.\<close>

lemma valid_state_process: "valid_state s \<Longrightarrow> p \<in> set PROCESS \<Longrightarrow> valid_state (s\<lparr>st_process := Some p\<rparr>)"
  by (simp add: valid_state_iff one_of_def)

lemma one_of_None [simp]: "\<not> one_of None xs"
  by (simp add: one_of_def)

lemma valid_stateD:
  assumes "valid_state s"
  shows "one_of (st_process s) PROCESS" "one_of (st_work s) WORK"
    "one_of (st_work s) ACTIVE_WORK \<longleftrightarrow> st_outcome s = None" "st_outcome s = None \<or> one_of (st_outcome s) OUTCOME"
  using assms unfolding valid_state_iff by auto

lemma from_legacy_valid: "\<exists>s. from_legacy m = Inr s \<and> valid_state s"
proof (cases "legacy_fields (meta_status m)")
  case (fields process work outcome)
  then have "(process, work, outcome) \<in> {(''unknown'', ''working'', None), (''exited'', ''done'', Some ''completed''),
      (''exited'', ''done'', Some ''failed''), (''unknown'', ''done'', Some ''failed'')}"
    by (auto simp: legacy_fields_def LEGACY_def split: option.splits if_splits)
  then have "\<exists>s. from_legacy m = Inr s"
    unfolding from_legacy_def fields
    by (auto simp: validate_def no_verification_def Let_def one_of_def word_tables)
  then obtain s where s: "from_legacy m = Inr s" ..
  moreover have "valid_state s" using s validate_Inr by (fastforce simp: from_legacy_def fields)
  ultimately show ?thesis by blast
qed

lemma readable_state_valid: "\<exists>s. readable_state m = Inr s \<and> valid_state s"
  using from_legacy_valid [of m] by (auto simp: readable_state_def dest: validate_Inr split: option.splits sum.splits)

lemma effective_state_cases:
  obtains s p where "readable_state m = Inr s" "valid_state s" "effective_state liveness m = Inr (s\<lparr>st_process := p\<rparr>)"
    "p = st_process s \<and> \<not> one_of p [''starting'', ''live'']
     \<or> (p = Some ''live'' \<or> p = Some ''unknown'')
     \<or> p = Some ''missing'' \<and> (\<exists>ow. liveness ow = Some False \<and>
          (st_owner s = Some ow \<or> st_owner s = None \<and> worker_owner m = Some ow))"
proof -
  obtain s where s: "readable_state m = Inr s" "valid_state s" using readable_state_valid by blast
  show thesis
  proof (cases "one_of (st_process s) [''starting'', ''live'']")
    case False
    show thesis
      by (rule that [of s "st_process s"]) (use s False in \<open>simp_all add: effective_state_def\<close>)
  next
    case True
    show thesis
    proof (cases "case st_owner s of Some ow \<Rightarrow> Some ow | None \<Rightarrow> worker_owner m")
      case None
      show thesis
        by (rule that [of s "Some ''unknown''"]) (use s True None in \<open>simp_all add: effective_state_def\<close>)
    next
      case (Some ow)
      let ?p = "case liveness ow of Some True \<Rightarrow> ''live'' | Some False \<Rightarrow> ''missing'' | None \<Rightarrow> ''unknown''"
      have "effective_state liveness m = Inr (s\<lparr>st_process := Some ?p\<rparr>)"
        using s True Some by (simp add: effective_state_def)
      moreover have "st_owner s = Some ow \<or> st_owner s = None \<and> worker_owner m = Some ow"
        using Some by (auto split: option.splits)
      ultimately show thesis
        by (intro that [of s "Some ?p"] s) (auto split: option.splits bool.splits)
    qed
  qed
qed

subsection \<open>Properties\<close>


text \<open>A crash is reported only on evidence: if what a reader sees is a crash, then the record
  itself says that the process ended, or the liveness check of the recorded owner (or of the
  background worker when no owner is recorded) confirmed its death; an owner that cannot be
  checked never makes a crash.\<close>

lemma crash_needs_evidence:
  assumes "effective_state liveness m = Inr s" "is_crashed s"
  shows "st_outcome s = None \<and> (\<exists>r. readable_state m = Inr r \<and>
    (one_of (st_process r) [''exited'', ''missing'']
     \<or> (\<exists>ow. liveness ow = Some False \<and>
          (st_owner r = Some ow \<or> st_owner r = None \<and> worker_owner m = Some ow))))"
proof -
  obtain r p where rp: "readable_state m = Inr r" "effective_state liveness m = Inr (r\<lparr>st_process := p\<rparr>)"
    "p = st_process r \<and> \<not> one_of p [''starting'', ''live'']
     \<or> (p = Some ''live'' \<or> p = Some ''unknown'')
     \<or> p = Some ''missing'' \<and> (\<exists>ow. liveness ow = Some False \<and>
          (st_owner r = Some ow \<or> st_owner r = None \<and> worker_owner m = Some ow))"
    by (rule effective_state_cases [of m liveness]) blast
  from assms(1) rp(2) have s: "s = r\<lparr>st_process := p\<rparr>" by simp
  from assms(2) have "one_of p [''exited'', ''missing'']" "st_outcome s = None"
    by (simp_all add: is_crashed_def s)
  with rp show ?thesis by (auto simp: one_of_def)
qed

definition demo_meta :: session_meta where
  "demo_meta = \<lparr>meta_status = Some ''running'',
     meta_state = Some (fresh_state ''working'' (Some \<lparr>pid = 7, identity = ''x'', pgid = 7, epoch = ''e''\<rparr>)),
     meta_worker = None\<rparr>"

text \<open>A self-check is never a verification: a run that finishes without an authoritative grader
  and without an external verdict is recorded as unverified, whether its own checks passed or
  not, and a recorded pass or failure always names its authority.\<close>

lemma verification_needs_authority:
  "(\<exists>s. finished success (Some \<lparr>authoritative_grader = False, verifier = v\<rparr>) None = Inr s
      \<and> st_verification s = Some no_verification
      \<and> (st_self_check s \<noteq> None \<longleftrightarrow> v))
   \<and> (finished success gate (Some \<lparr>vr_status = Some ''passed'', vr_authority = None\<rparr>) = Inl Missing_authority)"
  by (auto simp: finished_def validate_def no_verification_def one_of_def word_tables Let_def split: option.splits)

end
