(* ===== verification/Lease.thy ===== *)
theory Lease
  imports Capacity
begin

text \<open>
  Workspace leases (\<open>garuda/workspace/lease.py\<close>). A lease document lists the holders of one
  workspace; it lives in the same strict storage as capacity documents and every access draws
  from the same list of outcomes. Each \<open>LeaseStore\<close> instance keeps the leases it issued; the
  instance is part of the environment, so several processes and several instances of one
  process act on one world. Documents are typed: a holder with a field of another type, or a
  time to live that is not finite, is the constructor \<open>Unreadable\<close>. \<open>os.path.realpath\<close> of the
  workspace is a parameter. The texts of the conflicts are the constructors of \<open>conflict\<close>.

  The lemmas show that no interleaving of acquisitions, renewals and releases with any storage
  failures gives a workspace two mutating holders, that neither expiry nor a dead owner frees a
  workspace, and that a holder disappears only by a release of the instance and live process
  that issued it.
\<close>

record lease =
  ls_workspace :: string
  ls_session :: string
  ls_mode :: string
  acquired_at :: rat
  heartbeat_at :: rat
  ttl_sec :: rat
  ls_owner :: owner
  stolen_from :: string

datatype conflict = Session_has_lease | Parent_dead | Owner_running | Liveness_unknown | Mutably_held
  | Ambiguous | Superseded | Not_issued_here | Held_by_other

datatype lease_error = Lease_error | Lease_conflict conflict "lease option"

record lease_world = world +
  lease_files :: "string \<Rightarrow> lease list stored"
  lease_tables :: "nat \<Rightarrow> string \<times> string \<Rightarrow> lease option"

record lease_env = cap_env +
  leases_root :: string
  canonical :: "string \<Rightarrow> string"
  instance_id :: nat

type_synonym 'a lease_prog = "(lease_world, lease_error, 'a) prog"

subsection \<open>Documents\<close>

definition check_ttl :: "rat \<Rightarrow> lease_error + rat" where
  "check_ttl ttl = (if ttl \<le> 0 then Inl Lease_error else Inr ttl)"

definition is_stale :: "rat \<Rightarrow> lease \<Rightarrow> bool" where
  "is_stale now l \<longleftrightarrow> now - heartbeat_at l > ttl_sec l"

definition lease_modes :: "string list" where
  "lease_modes = [''mutating'', ''read-only'']"

definition lease_ok :: "lease \<Rightarrow> bool" where
  "lease_ok l \<longleftrightarrow> ls_workspace l \<noteq> [] \<and> ls_session l \<noteq> [] \<and> ls_mode l \<in> set lease_modes \<and> ttl_sec l > 0"

definition lease_from_dict :: "lease \<Rightarrow> lease_error + lease" where
  "lease_from_dict l =
     (if ls_workspace l = [] \<or> ls_session l = [] \<or> ls_mode l = [] then Inl Lease_error
      else if ls_mode l \<notin> set lease_modes then Inl Lease_error
      else case check_ttl (ttl_sec l) of Inl e \<Rightarrow> Inl e | Inr t \<Rightarrow> Inr (l\<lparr>ttl_sec := t\<rparr>))"

definition workspace_key :: "lease_env \<Rightarrow> string \<Rightarrow> string" where
  "workspace_key env workspace = canonical env workspace"

definition lease_path :: "lease_env \<Rightarrow> string \<Rightarrow> string" where
  "lease_path env key = leases_root env @ ''/'' @ take 32 (sha256 env key) @ ''.json''"

definition lease_locked :: "unit lease_prog" where
  "lease_locked = catchE (exclusive_lock StorageUnavailable) (\<lambda>_. raise Lease_error)"

fun all_leases :: "lease list \<Rightarrow> lease_error + lease list" where
  "all_leases [] = Inr []"
| "all_leases (l # ls) =
     (case lease_from_dict l of Inl e \<Rightarrow> Inl Lease_error
      | Inr m \<Rightarrow> (case all_leases ls of Inl e \<Rightarrow> Inl e | Inr ms \<Rightarrow> Inr (m # ms)))"

definition read_all :: "string \<Rightarrow> lease list lease_prog" where
  "read_all path =
     bindE (gets (\<lambda>s. lease_files s path)) (\<lambda>doc.
       case doc of
         Absent \<Rightarrow> ret []
       | Unreadable \<Rightarrow> raise Lease_error
       | Present holders \<Rightarrow> liftE (all_leases holders))"

definition publish_all :: "string \<Rightarrow> lease list \<Rightarrow> unit lease_prog" where
  "publish_all path holders =
     catchE (publish_with (\<lambda>s. s\<lparr>lease_files := (lease_files s)(path := Present holders)\<rparr>) StorageUnavailable)
       (\<lambda>_. raise Lease_error)"

definition set_issued :: "lease_env \<Rightarrow> string \<Rightarrow> string \<Rightarrow> lease option \<Rightarrow> unit lease_prog" where
  "set_issued env key sid l =
     modify (\<lambda>s. s\<lparr>lease_tables := (lease_tables s)(instance_id env :=
       (lease_tables s (instance_id env))((key, sid) := l))\<rparr>)"

definition get_issued :: "lease_env \<Rightarrow> string \<Rightarrow> string \<Rightarrow> lease option lease_prog" where
  "get_issued env key sid = gets (\<lambda>s. lease_tables s (instance_id env) (key, sid))"

subsection \<open>Acquisition\<close>

definition blocked_reason :: "bool option \<Rightarrow> conflict" where
  "blocked_reason state = (case state of Some False \<Rightarrow> Parent_dead | Some True \<Rightarrow> Owner_running | None \<Rightarrow> Liveness_unknown)"

text \<open>The loop over the holders: the kept ones, or the first conflict.\<close>

fun keep_holders :: "lease_env \<Rightarrow> rat \<Rightarrow> string \<Rightarrow> string \<Rightarrow> lease list \<Rightarrow> lease_error + lease list" where
  "keep_holders env moment sid mode [] = Inr []"
| "keep_holders env moment sid mode (h # hs) =
     (if ls_session h = sid then Inl (Lease_conflict Session_has_lease (Some h))
      else if is_stale moment h \<and> ls_mode h = ''mutating'' \<and> mode = ''mutating''
      then Inl (Lease_conflict (blocked_reason (store_liveness env (ls_owner h))) (Some h))
      else case keep_holders env moment sid mode hs of Inl e \<Rightarrow> Inl e | Inr kept \<Rightarrow> Inr (h # kept))"

definition owner_proved :: "lease_env \<Rightarrow> owner \<Rightarrow> bool" where
  "owner_proved env ow \<longleftrightarrow> pid ow = getpid env \<and> pgid ow = getpgid env 0 \<and> epoch ow \<noteq> []
     \<and> owner_liveness (os env) ow = Some True"

definition lift_store :: "('a, 'b) store_prog \<Rightarrow> ('a world_scheme, lease_error, 'b) prog" where
  "lift_store m = catchE m (\<lambda>_. raise Lease_error)"

definition moment_of :: "lease_env \<Rightarrow> rat option \<Rightarrow> rat lease_prog" where
  "moment_of env now = (case now of Some t \<Rightarrow> ret t | None \<Rightarrow> lift_store (read_clock env))"

definition acquire :: "lease_env \<Rightarrow> string \<Rightarrow> string \<Rightarrow> string \<Rightarrow> rat \<Rightarrow> rat option \<Rightarrow> lease lease_prog" where
  "acquire env workspace sid mode ttl now =
     bindE (guardE (mode \<in> set lease_modes) Lease_error) (\<lambda>_.
     bindE (guardE (sid \<noteq> []) Lease_error) (\<lambda>_.
     bindE (liftE (check_ttl ttl)) (\<lambda>ttl.
     bindE (moment_of env now) (\<lambda>moment.
     bindE (lift_store (me env)) (\<lambda>ow.
     bindE (guardE (owner_proved env ow) Lease_error) (\<lambda>_.
       (let key = workspace_key env workspace; path = lease_path env key in
        bindE lease_locked (\<lambda>_.
        bindE (read_all path) (\<lambda>holders.
        bindE (liftE (keep_holders env moment sid mode holders)) (\<lambda>kept.
        bindE (case find (\<lambda>h. ls_mode h = ''mutating'') kept of
                 Some h \<Rightarrow> if mode = ''mutating'' then raise (Lease_conflict Mutably_held (Some h)) else ret ()
               | None \<Rightarrow> ret ()) (\<lambda>_.
          (let l = \<lparr>ls_workspace = key, ls_session = sid, ls_mode = mode, acquired_at = moment,
                    heartbeat_at = moment, ttl_sec = ttl, ls_owner = ow, stolen_from = []\<rparr> in
           bindE (publish_all path (kept @ [l])) (\<lambda>_.
           bindE (set_issued env key sid (Some l)) (\<lambda>_. ret l))))))))))))))"

subsection \<open>The issuer's operations\<close>

definition own_entry :: "lease_env \<Rightarrow> lease option \<Rightarrow> lease list \<Rightarrow> string \<Rightarrow> string option \<Rightarrow> string
    \<Rightarrow> lease_error + lease option" where
  "own_entry env issued_lease holders sid ep key =
     (case filter (\<lambda>h. ls_session h = sid) holders of
        [] \<Rightarrow> Inr None
      | [current] \<Rightarrow>
          if ep \<noteq> None \<and> epoch (ls_owner current) \<noteq> [] \<and> Some (epoch (ls_owner current)) \<noteq> ep
          then Inl (Lease_conflict Superseded (Some current))
          else
            (case issued_lease of
               None \<Rightarrow> Inl (Lease_conflict Not_issued_here (Some current))
             | Some l \<Rightarrow>
                 if pid (ls_owner l) \<noteq> getpid env \<or> pgid (ls_owner l) \<noteq> getpgid env 0
                 then Inl (Lease_conflict Not_issued_here (Some current))
                 else if ls_owner l \<noteq> ls_owner current \<or> ls_workspace l \<noteq> ls_workspace current
                      \<or> ls_workspace current \<noteq> key \<or> ls_mode l \<noteq> ls_mode current
                      \<or> owner_liveness (os env) (ls_owner l) \<noteq> Some True
                 then Inl (Lease_conflict Superseded (Some current))
                 else Inr (Some current))
      | _ \<Rightarrow> Inl (Lease_conflict Ambiguous None))"

text \<open>The holders of a workspace and the caller's own entry, under the lock.\<close>

definition own_record :: "lease_env \<Rightarrow> string \<Rightarrow> string \<Rightarrow> string option \<Rightarrow> (lease list \<times> lease option) lease_prog" where
  "own_record env key sid ep =
     bindE (read_all (lease_path env key)) (\<lambda>holders.
     bindE (get_issued env key sid) (\<lambda>l.
     bindE (liftE (own_entry env l holders sid ep key)) (\<lambda>current. ret (holders, current))))"

definition validate_issued :: "lease_env \<Rightarrow> string \<Rightarrow> string \<Rightarrow> string option \<Rightarrow> lease lease_prog" where
  "validate_issued env workspace sid ep =
     bindE lease_locked (\<lambda>_.
     bindE (own_record env (workspace_key env workspace) sid ep) (\<lambda>(holders, current).
       case current of None \<Rightarrow> raise Lease_error | Some l \<Rightarrow> ret l))"

text \<open>The facts \<open>snapshot_issued\<close> copies: the root and the lease without its times.\<close>

definition snapshot_issued :: "lease_env \<Rightarrow> string \<Rightarrow> string \<Rightarrow> string option
    \<Rightarrow> (string \<times> string \<times> string \<times> string \<times> owner) lease_prog" where
  "snapshot_issued env workspace sid ep =
     bindE (get_issued env workspace sid) (\<lambda>i.
       case i of
         None \<Rightarrow> raise Lease_error
       | Some l \<Rightarrow>
           if pid (ls_owner l) \<noteq> getpid env \<or> pgid (ls_owner l) \<noteq> getpgid env 0
              \<or> ep = None \<or> ep = Some [] \<or> Some (epoch (ls_owner l)) \<noteq> ep \<or> ls_workspace l \<noteq> workspace
              \<or> identity (ls_owner l) = [] \<or> identity (ls_owner l) = ''unknown''
           then raise Lease_error
           else ret (leases_root env, ls_workspace l, ls_session l, ls_mode l, ls_owner l))"

text \<open>With no entry of its own, the caller learns of another live holder, if there is one.\<close>

fun other_holder :: "lease_env \<Rightarrow> lease list \<Rightarrow> lease option lease_prog" where
  "other_holder env [] = ret None"
| "other_holder env (h # hs) =
     bindE (lift_store (read_clock env)) (\<lambda>now. if \<not> is_stale now h then ret (Some h) else other_holder env hs)"

definition refreshed :: "rat \<Rightarrow> lease \<Rightarrow> lease" where
  "refreshed now l = l\<lparr>heartbeat_at := now, stolen_from := []\<rparr>"

definition lease_heartbeat :: "lease_env \<Rightarrow> string \<Rightarrow> string \<Rightarrow> string option \<Rightarrow> lease lease_prog" where
  "lease_heartbeat env workspace sid ep =
     (let key = workspace_key env workspace in
      bindE lease_locked (\<lambda>_.
      bindE (own_record env key sid ep) (\<lambda>(holders, current).
        case current of
          None \<Rightarrow> bindE (other_holder env holders) (\<lambda>h.
            case h of None \<Rightarrow> raise Lease_error | Some x \<Rightarrow> raise (Lease_conflict Held_by_other (Some x)))
        | Some l \<Rightarrow>
            bindE (lift_store (read_clock env)) (\<lambda>now.
            bindE (publish_all (lease_path env key)
                     (map (\<lambda>h. if ls_session h \<noteq> sid then h else refreshed now l) holders)) (\<lambda>_.
              ret (refreshed now l))))))"

definition release :: "lease_env \<Rightarrow> string \<Rightarrow> string \<Rightarrow> string option \<Rightarrow> unit lease_prog" where
  "release env workspace sid ep =
     (let key = workspace_key env workspace in
      bindE lease_locked (\<lambda>_.
      bindE (own_record env key sid ep) (\<lambda>(holders, current).
        case current of
          None \<Rightarrow> bindE (other_holder env holders) (\<lambda>h.
            case h of Some x \<Rightarrow> raise (Lease_conflict Held_by_other (Some x))
            | None \<Rightarrow> set_issued env key sid None)
        | Some l \<Rightarrow>
            bindE (publish_all (lease_path env key) (filter (\<lambda>h. ls_session h \<noteq> sid) holders)) (\<lambda>_.
              set_issued env key sid None))))"

definition holders_of :: "lease_env \<Rightarrow> string \<Rightarrow> lease list lease_prog" where
  "holders_of env workspace = read_all (lease_path env (workspace_key env workspace))"

text \<open>\<open>paths\<close> is the sorted listing of the lease directory.\<close>

fun possibly_live_holders :: "string list \<Rightarrow> lease list lease_prog" where
  "possibly_live_holders [] = ret []"
| "possibly_live_holders (path # paths) =
     bindE (read_all path) (\<lambda>hs. bindE (possibly_live_holders paths) (\<lambda>rest. ret (hs @ rest)))"

definition live_holders_for_session :: "string list \<Rightarrow> string \<Rightarrow> lease list lease_prog" where
  "live_holders_for_session paths sid =
     bindE (possibly_live_holders paths) (\<lambda>hs. ret (filter (\<lambda>h. ls_session h = sid) hs))"

subsection \<open>Triples\<close>

type_synonym lease_disk = "string \<Rightarrow> lease list stored"
type_synonym lease_table = "nat \<Rightarrow> string \<times> string \<Rightarrow> lease option"

definition leases_are :: "lease_disk \<Rightarrow> lease_table \<Rightarrow> lease_world \<Rightarrow> bool" where
  "leases_are F T s \<longleftrightarrow> lease_files s = F \<and> lease_tables s = T"

lemma leases_are_other [simp]:
  "leases_are F T (s\<lparr>outcomes := x\<rparr>) = leases_are F T s"
  "leases_are F T (s\<lparr>clock_reads := n\<rparr>) = leases_are F T s"
  "leases_are F T (s\<lparr>next_id := n\<rparr>) = leases_are F T s"
  by (simp_all add: leases_are_def)

text \<open>What \<open>read_all\<close> can return of a disk.\<close>

definition stored_holders :: "lease_disk \<Rightarrow> string \<Rightarrow> lease list \<Rightarrow> bool" where
  "stored_holders F path hs \<longleftrightarrow> F path = Absent \<and> hs = [] \<or> F path = Present hs"

lemma all_leases_same: "all_leases hs = Inr ms \<Longrightarrow> ms = hs"
proof (induction hs arbitrary: ms)
  case (Cons h hs)
  then show ?case
    by (auto simp: lease_from_dict_def check_ttl_def split: sum.splits if_splits)
qed simp

lemma triple_lift_store:
  assumes "hoare P m (\<lambda>_. P) (\<lambda>_. P)"
  shows "hoare P (lift_store m) (\<lambda>_. P) (\<lambda>_. P)"
  unfolding lift_store_def by (rule hoare_catch [OF assms]) (rule hoare_raise)

lemma triple_locked: "hoare (leases_are F T) lease_locked (\<lambda>_. leases_are F T) (\<lambda>_. leases_are F T)"
  unfolding lease_locked_def by (rule hoare_catch [OF hoare_lock]) (auto intro: hoare_raise)

lemma triple_clock: "hoare (leases_are F T) (lift_store (read_clock env)) (\<lambda>_. leases_are F T) (\<lambda>_. leases_are F T)"
  by (rule triple_lift_store [OF hoare_read_clock]) simp

lemma triple_me: "hoare (leases_are F T) (lift_store (me env)) (\<lambda>_. leases_are F T) (\<lambda>_. leases_are F T)"
  by (rule triple_lift_store [OF hoare_me]) simp

lemma triple_moment: "hoare (leases_are F T) (moment_of env now) (\<lambda>_. leases_are F T) (\<lambda>_. leases_are F T)"
  unfolding moment_of_def by (cases now) (auto intro: hoare_ret triple_clock)

lemma triple_read:
  "hoare (leases_are F T) (read_all path) (\<lambda>hs s. leases_are F T s \<and> stored_holders F path hs) (\<lambda>_. leases_are F T)"
  by (rule hoareI)
     (auto simp: read_all_def bindE_def leases_are_def stored_holders_def liftE_def
       dest: all_leases_same split: stored.splits)

lemma triple_publish:
  "hoare (leases_are F T) (publish_all path hs) (\<lambda>_. leases_are (F(path := Present hs)) T)
     (\<lambda>_ s. leases_are F T s \<or> leases_are (F(path := Present hs)) T s)"
  unfolding publish_all_def
  by (rule hoare_catch [OF hoare_publish_with [where P = "leases_are F T" and Q = "leases_are (F(path := Present hs)) T"]])
     (auto simp: leases_are_def intro: hoare_raise)

lemma triple_set_issued:
  "hoare (leases_are F T) (set_issued env key sid l) (\<lambda>_ s. \<exists>T'. leases_are F T' s) E"
  unfolding set_issued_def by (rule hoare_modify) (simp add: leases_are_def)

lemma triple_other: "hoare (leases_are F T) (other_holder env hs) (\<lambda>_. leases_are F T) (\<lambda>_. leases_are F T)"
proof (induction hs)
  case Nil
  show ?case unfolding other_holder.simps by (rule hoare_ret)
next
  case (Cons h hs)
  show ?case
    unfolding other_holder.simps
    by (rule hoare_bind [OF triple_clock]) (auto intro: hoare_ret Cons)
qed

text \<open>The own entry of a caller: its holders and, if it has one, the entry with its proof of authority.\<close>

definition authorised :: "lease_env \<Rightarrow> lease_table \<Rightarrow> lease list \<Rightarrow> string \<Rightarrow> string \<Rightarrow> lease \<Rightarrow> bool" where
  "authorised env T hs key sid l \<longleftrightarrow> filter (\<lambda>h. ls_session h = sid) hs = [l] \<and> ls_workspace l = key
     \<and> (\<exists>i. T (instance_id env) (key, sid) = Some i \<and> ls_owner i = ls_owner l \<and> ls_mode i = ls_mode l)
     \<and> pid (ls_owner l) = getpid env \<and> pgid (ls_owner l) = getpgid env 0
     \<and> owner_liveness (os env) (ls_owner l) = Some True"

lemma own_entry_authorised:
  "own_entry env (T (instance_id env) (key, sid)) hs sid ep key = Inr (Some l) \<Longrightarrow> authorised env T hs key sid l"
  unfolding own_entry_def authorised_def
  by (auto split: list.splits if_splits option.splits)

lemma triple_own_record:
  "hoare (leases_are F T) (own_record env key sid ep)
     (\<lambda>(hs, current) s. leases_are F T s \<and> stored_holders F (lease_path env key) hs
        \<and> (\<forall>l. current = Some l \<longrightarrow> authorised env T hs key sid l))
     (\<lambda>_. leases_are F T)"
  unfolding own_record_def get_issued_def
proof (rule hoare_bind [OF triple_read])
  fix hs
  show "hoare (\<lambda>s. leases_are F T s \<and> stored_holders F (lease_path env key) hs)
      (bindE (gets (\<lambda>s. lease_tables s (instance_id env) (key, sid)))
        (\<lambda>l. bindE (liftE (own_entry env l hs sid ep key)) (\<lambda>current. ret (hs, current))))
      (\<lambda>(hs, current) s. leases_are F T s \<and> stored_holders F (lease_path env key) hs
        \<and> (\<forall>l. current = Some l \<longrightarrow> authorised env T hs key sid l)) (\<lambda>_. leases_are F T)"
    by (rule hoareI) (auto simp: bindE_def leases_are_def liftE_def intro: own_entry_authorised split: sum.splits)
qed

subsection \<open>What an operation does to the disk\<close>

definition granted :: "lease_disk \<Rightarrow> lease_disk \<Rightarrow> bool" where
  "granted F G \<longleftrightarrow> (\<exists>path hs l. stored_holders F path hs \<and> G = F(path := Present (hs @ [l]))
     \<and> ls_session l \<notin> ls_session ` set hs
     \<and> (ls_mode l = ''mutating'' \<longrightarrow> (\<forall>h \<in> set hs. ls_mode h \<noteq> ''mutating'')))"

definition renewed :: "lease_env \<Rightarrow> lease_table \<Rightarrow> lease_disk \<Rightarrow> lease_disk \<Rightarrow> bool" where
  "renewed env T F G \<longleftrightarrow> (\<exists>key sid hs l now. stored_holders F (lease_path env key) hs \<and> authorised env T hs key sid l
     \<and> G = F(lease_path env key := Present (map (\<lambda>h. if ls_session h \<noteq> sid then h else refreshed now l) hs)))"

definition dropped :: "lease_env \<Rightarrow> lease_table \<Rightarrow> lease_disk \<Rightarrow> lease_disk \<Rightarrow> bool" where
  "dropped env T F G \<longleftrightarrow> (\<exists>key sid hs l. stored_holders F (lease_path env key) hs \<and> authorised env T hs key sid l
     \<and> G = F(lease_path env key := Present (filter (\<lambda>h. ls_session h \<noteq> sid) hs)))"

text \<open>A state whose disk is the given one or one changed by \<open>R\<close>, with any tables.\<close>

definition after :: "(lease_disk \<Rightarrow> lease_disk \<Rightarrow> bool) \<Rightarrow> lease_disk \<Rightarrow> lease_world \<Rightarrow> bool" where
  "after R F s \<longleftrightarrow> lease_files s = F \<or> R F (lease_files s)"

lemma after_same [intro]: "leases_are F T s \<Longrightarrow> after R F s"
  by (simp add: leases_are_def after_def)

lemma keep_holders_same:
  "keep_holders env moment sid mode hs = Inr kept \<Longrightarrow> kept = hs \<and> sid \<notin> ls_session ` set hs"
proof (induction hs arbitrary: kept)
  case (Cons h hs)
  then show ?case by (auto split: if_splits sum.splits)
qed simp

lemma bind_same:
  assumes "hoare (leases_are F T) m (\<lambda>_. leases_are F T) (\<lambda>_. leases_are F T)"
    and "\<And>x. hoare (leases_are F T) (f x) Q (\<lambda>_. after R F)"
  shows "hoare (leases_are F T) (bindE m f) Q (\<lambda>_. after R F)"
  by (rule hoare_bind [where R = "\<lambda>_. leases_are F T"], rule hoare_conseq [OF assms(1)]) (auto intro: assms(2))

lemma bind_guard:
  "(b \<Longrightarrow> hoare (leases_are F T) (f ()) Q (\<lambda>_. after R F))
   \<Longrightarrow> hoare (leases_are F T) (bindE (guardE b e) f) Q (\<lambda>_. after R F)"
  by (cases b) (auto simp: guardE_def intro: hoare_raise)

lemma bind_lift:
  "(\<And>x. r = Inr x \<Longrightarrow> hoare (leases_are F T) (f x) Q (\<lambda>_. after R F))
   \<Longrightarrow> hoare (leases_are F T) (bindE (liftE r) f) Q (\<lambda>_. after R F)"
  by (cases r) (auto intro: hoare_raise)

lemma bind_read:
  "(\<And>hs. stored_holders F path hs \<Longrightarrow> hoare (leases_are F T) (f hs) Q (\<lambda>_. after R F))
   \<Longrightarrow> hoare (leases_are F T) (bindE (read_all path) f) Q (\<lambda>_. after R F)"
  by (rule hoare_bind [where R = "\<lambda>hs s. leases_are F T s \<and> stored_holders F path hs"],
      rule hoare_conseq [OF triple_read]) (auto simp: hoare_def)

lemma hoare_fact: "(A \<Longrightarrow> hoare P m Q E) \<Longrightarrow> hoare (\<lambda>s. P s \<and> A) m Q E"
  by (auto simp: hoare_def)

lemma bind_own:
  assumes "\<And>hs current. stored_holders F (lease_path env key) hs \<Longrightarrow>
      (\<And>l. current = Some l \<Longrightarrow> authorised env T hs key sid l) \<Longrightarrow>
      hoare (leases_are F T) (f (hs, current)) Q (\<lambda>_. after R F)"
  shows "hoare (leases_are F T) (bindE (own_record env key sid ep) f) Q (\<lambda>_. after R F)"
proof (rule hoare_bind [where R = "\<lambda>(hs, current) s. leases_are F T s \<and> stored_holders F (lease_path env key) hs
    \<and> (\<forall>l. current = Some l \<longrightarrow> authorised env T hs key sid l)"])
  show "hoare (leases_are F T) (own_record env key sid ep)
      (\<lambda>(hs, current) s. leases_are F T s \<and> stored_holders F (lease_path env key) hs
        \<and> (\<forall>l. current = Some l \<longrightarrow> authorised env T hs key sid l)) (\<lambda>_. after R F)"
    by (rule hoare_conseq [OF triple_own_record]) auto
  fix x :: "lease list \<times> lease option"
  obtain hs current where x: "x = (hs, current)" by (cases x)
  show "hoare (case x of (hs, current) \<Rightarrow> \<lambda>s. leases_are F T s \<and> stored_holders F (lease_path env key) hs
        \<and> (\<forall>l. current = Some l \<longrightarrow> authorised env T hs key sid l)) (f x) Q (\<lambda>_. after R F)"
    unfolding x prod.case by (rule hoare_fact) (use assms [of hs current] in blast)
qed

lemma publish_effect:
  assumes "R F (F(path := Present hs))" "\<And>T x. hoare (leases_are (F(path := Present hs)) T) (f x) (\<lambda>_. after R F) (\<lambda>_. after R F)"
  shows "hoare (leases_are F T) (bindE (publish_all path hs) f) (\<lambda>_. after R F) (\<lambda>_. after R F)"
proof (rule hoare_bind [where R = "\<lambda>_. leases_are (F(path := Present hs)) T"])
  show "hoare (leases_are F T) (publish_all path hs) (\<lambda>_. leases_are (F(path := Present hs)) T) (\<lambda>_. after R F)"
    by (rule hoare_conseq [OF triple_publish]) (use assms(1) in \<open>auto simp: leases_are_def after_def\<close>)
qed (rule assms(2))

lemma set_issued_effect:
  "R F G \<or> G = F \<Longrightarrow> hoare (leases_are G T) (set_issued env key sid l) (\<lambda>_. after R F) (\<lambda>_. after R F)"
  by (rule hoare_conseq [OF triple_set_issued]) (auto simp: leases_are_def after_def)

lemma acquire_effect:
  "hoare (leases_are F T) (acquire env workspace sid mode ttl now) (\<lambda>_. after granted F) (\<lambda>_. after granted F)"
  unfolding acquire_def Let_def
proof (intro bind_guard bind_lift bind_same [OF triple_moment] bind_same [OF triple_me] bind_same [OF triple_locked] bind_read)
  fix ttl' moment ow hs kept
  let ?key = "workspace_key env workspace"
  let ?l = "\<lparr>ls_workspace = ?key, ls_session = sid, ls_mode = mode, acquired_at = moment,
    heartbeat_at = moment, ttl_sec = ttl', ls_owner = ow, stolen_from = []\<rparr>"
  assume hs: "stored_holders F (lease_path env ?key) hs" and keep: "keep_holders env moment sid mode hs = Inr kept"
  from keep_holders_same [OF keep] have kept: "kept = hs" "sid \<notin> ls_session ` set hs" by auto
  have publish: "hoare (leases_are F T) (bindE (publish_all (lease_path env ?key) (kept @ [?l]))
      (\<lambda>_. bindE (set_issued env ?key sid (Some ?l)) (\<lambda>_. ret ?l))) (\<lambda>_. after granted F) (\<lambda>_. after granted F)"
    if "mode = ''mutating'' \<Longrightarrow> \<forall>h \<in> set kept. ls_mode h \<noteq> ''mutating''"
  proof (rule publish_effect)
    show g: "granted F (F(lease_path env ?key := Present (kept @ [?l])))"
      using hs kept that unfolding granted_def by (intro exI [of _ "lease_path env ?key"] exI [of _ hs] exI [of _ ?l]) auto
    show "hoare (leases_are (F(lease_path env ?key := Present (kept @ [?l]))) T)
        (bindE (set_issued env ?key sid (Some ?l)) (\<lambda>_. ret ?l)) (\<lambda>_. after granted F) (\<lambda>_. after granted F)" for T
      by (rule hoare_bind [OF set_issued_effect [where R = granted and F = F]]) (use g in \<open>auto intro: hoare_ret\<close>)
  qed
  show "hoare (leases_are F T)
      (bindE (case find (\<lambda>h. ls_mode h = ''mutating'') kept of
          None \<Rightarrow> ret ()
        | Some h \<Rightarrow> if mode = ''mutating'' then raise (Lease_conflict Mutably_held (Some h)) else ret ())
        (\<lambda>_. bindE (publish_all (lease_path env ?key) (kept @ [?l]))
          (\<lambda>_. bindE (set_issued env ?key sid (Some ?l)) (\<lambda>_. ret ?l))))
      (\<lambda>_. after granted F) (\<lambda>_. after granted F)"
  proof (cases "find (\<lambda>h. ls_mode h = ''mutating'') kept")
    case None
    then have "\<forall>h \<in> set kept. ls_mode h \<noteq> ''mutating''" by (auto simp: find_None_iff)
    with publish show ?thesis by (simp only: None option.case bindE_ret)
  next
    case (Some h)
    then show ?thesis using publish by (auto intro: hoare_raise)
  qed
qed

lemma release_effect:
  "hoare (leases_are F T) (release env workspace sid ep) (\<lambda>_. after (dropped env T) F) (\<lambda>_. after (dropped env T) F)"
  unfolding release_def Let_def
proof (intro bind_same [OF triple_locked] bind_own, unfold prod.case)
  fix hs current
  let ?key = "workspace_key env workspace"
  assume hs: "stored_holders F (lease_path env ?key) hs"
    and auth: "\<And>l. current = Some l \<Longrightarrow> authorised env T hs ?key sid l"
  show "hoare (leases_are F T) (case current of
      None \<Rightarrow> bindE (other_holder env hs) (\<lambda>h. case h of None \<Rightarrow> set_issued env ?key sid None
          | Some x \<Rightarrow> raise (Lease_conflict Held_by_other (Some x)))
    | Some l \<Rightarrow> bindE (publish_all (lease_path env ?key) (filter (\<lambda>h. ls_session h \<noteq> sid) hs))
        (\<lambda>_. set_issued env ?key sid None)) (\<lambda>_. after (dropped env T) F) (\<lambda>_. after (dropped env T) F)"
  proof (cases current)
    case None
    then show ?thesis
      by (auto intro!: bind_same [OF triple_other] hoare_option hoare_raise set_issued_effect)
  next
    case (Some l)
    have d: "dropped env T F (F(lease_path env ?key := Present (filter (\<lambda>h. ls_session h \<noteq> sid) hs)))"
      using hs auth [OF Some] unfolding dropped_def by blast
    show ?thesis unfolding Some option.case
      by (rule publish_effect [where R = "dropped env T", OF d]) (use d in \<open>auto intro: set_issued_effect\<close>)
  qed
qed

lemma heartbeat_effect:
  "hoare (leases_are F T) (lease_heartbeat env workspace sid ep) (\<lambda>_. after (renewed env T) F) (\<lambda>_. after (renewed env T) F)"
  unfolding lease_heartbeat_def Let_def
proof (intro bind_same [OF triple_locked] bind_own, unfold prod.case)
  fix hs current
  let ?key = "workspace_key env workspace"
  assume hs: "stored_holders F (lease_path env ?key) hs"
    and auth: "\<And>l. current = Some l \<Longrightarrow> authorised env T hs ?key sid l"
  show "hoare (leases_are F T) (case current of
      None \<Rightarrow> bindE (other_holder env hs) (\<lambda>h. case h of None \<Rightarrow> raise Lease_error
          | Some x \<Rightarrow> raise (Lease_conflict Held_by_other (Some x)))
    | Some l \<Rightarrow> bindE (lift_store (read_clock env)) (\<lambda>now.
        bindE (publish_all (lease_path env ?key) (map (\<lambda>h. if ls_session h \<noteq> sid then h else refreshed now l) hs))
          (\<lambda>_. ret (refreshed now l)))) (\<lambda>_. after (renewed env T) F) (\<lambda>_. after (renewed env T) F)"
  proof (cases current)
    case None
    then show ?thesis by (auto intro!: bind_same [OF triple_other] hoare_option hoare_raise)
  next
    case (Some l)
    have d: "renewed env T F (F(lease_path env ?key := Present (map (\<lambda>h. if ls_session h \<noteq> sid then h else refreshed now l) hs)))"
      for now using hs auth [OF Some] unfolding renewed_def by blast
    show ?thesis unfolding Some option.case
      by (rule bind_same [OF triple_clock], rule publish_effect [where R = "renewed env T", OF d])
         (rule hoare_ret, use d in \<open>auto simp: after_def leases_are_def\<close>)
  qed
qed

subsection \<open>Reachable worlds\<close>

text \<open>
  One step is one operation of any process and instance (\<open>env\<close> is arbitrary, with one lease
  directory), or a change of what the storage will do next.
\<close>

inductive lease_step :: "lease_world \<Rightarrow> lease_world \<Rightarrow> bool" where
  step_acquire: "lease_step s (snd (acquire env workspace sid mode ttl now s))"
| step_heartbeat: "lease_step s (snd (lease_heartbeat env workspace sid ep s))"
| step_release: "lease_step s (snd (release env workspace sid ep s))"
| step_storage: "lease_step s (s\<lparr>outcomes := x\<rparr>)"

inductive lease_reach :: "lease_world \<Rightarrow> bool" where
  reach_empty: "(\<And>path. lease_files s path = Absent) \<Longrightarrow> lease_reach s"
| reach_step: "lease_reach s \<Longrightarrow> lease_step s t \<Longrightarrow> lease_reach t"

definition change :: "lease_world \<Rightarrow> lease_disk \<Rightarrow> bool" where
  "change s G \<longleftrightarrow> G = lease_files s \<or> granted (lease_files s) G
     \<or> (\<exists>env. renewed env (lease_tables s) (lease_files s) G \<or> dropped env (lease_tables s) (lease_files s) G)"

lemma hoare_final: "hoare (leases_are F T) m (\<lambda>_. after R F) (\<lambda>_. after R F) \<Longrightarrow> leases_are F T s \<Longrightarrow> after R F (snd (m s))"
  unfolding hoare_def by (cases "m s") (auto split: sum.splits dest!: spec [of _ s])

lemma lease_step_change:
  assumes "lease_step s t"
  shows "change s (lease_files t)"
proof -
  have s: "leases_are (lease_files s) (lease_tables s) s" by (simp add: leases_are_def)
  from assms show ?thesis
  proof cases
    case (step_acquire env workspace sid mode ttl now)
    then show ?thesis using hoare_final [OF acquire_effect s, of env workspace sid mode ttl now]
      unfolding change_def after_def by blast
  next
    case (step_heartbeat env workspace sid ep)
    then show ?thesis using hoare_final [OF heartbeat_effect s, of env workspace sid ep]
      unfolding change_def after_def by blast
  next
    case (step_release env workspace sid ep)
    then show ?thesis using hoare_final [OF release_effect s, of env workspace sid ep]
      unfolding change_def after_def by blast
  qed (simp add: change_def)
qed

text \<open>Holders of one document: one entry per session and at most one mutating entry.\<close>

definition doc_ok :: "lease list \<Rightarrow> bool" where
  "doc_ok hs \<longleftrightarrow> distinct (map ls_session hs) \<and> length (filter (\<lambda>h. ls_mode h = ''mutating'') hs) \<le> 1"

definition disk_ok :: "lease_disk \<Rightarrow> bool" where
  "disk_ok F \<longleftrightarrow> (\<forall>path hs. F path = Present hs \<longrightarrow> doc_ok hs)"

lemma disk_ok_upd: "disk_ok F \<Longrightarrow> doc_ok hs \<Longrightarrow> disk_ok (F(path := Present hs))"
  by (simp add: disk_ok_def)

lemma stored_ok: "disk_ok F \<Longrightarrow> stored_holders F path hs \<Longrightarrow> doc_ok hs"
  by (auto simp: disk_ok_def stored_holders_def doc_ok_def)

lemma granted_ok: "disk_ok F \<Longrightarrow> granted F G \<Longrightarrow> disk_ok G"
proof -
  assume F: "disk_ok F" and g: "granted F G"
  then obtain path hs l where h: "stored_holders F path hs" "G = F(path := Present (hs @ [l]))"
    "ls_session l \<notin> ls_session ` set hs" "ls_mode l = ''mutating'' \<Longrightarrow> \<forall>h \<in> set hs. ls_mode h \<noteq> ''mutating''"
    by (auto simp: granted_def)
  have "filter (\<lambda>h. ls_mode h = ''mutating'') hs = []" if "ls_mode l = ''mutating''"
    using h(4) [OF that] by (simp add: filter_empty_conv)
  with stored_ok [OF F h(1)] h(3) have "doc_ok (hs @ [l])" by (auto simp: doc_ok_def)
  with F show ?thesis unfolding h(2) by (intro disk_ok_upd)
qed

lemma refresh_sessions:
  "filter (\<lambda>h. ls_session h = sid) hs = [l] \<Longrightarrow>
   map ls_session (map (\<lambda>h. if ls_session h \<noteq> sid then h else refreshed now l) hs) = map ls_session hs
   \<and> map ls_mode (map (\<lambda>h. if ls_session h \<noteq> sid then h else refreshed now l) hs) = map ls_mode hs"
proof -
  assume f: "filter (\<lambda>h. ls_session h = sid) hs = [l]"
  have "h = l" if "h \<in> set hs" "ls_session h = sid" for h
  proof -
    from that have "h \<in> set (filter (\<lambda>h. ls_session h = sid) hs)" by simp
    then show ?thesis unfolding f by simp
  qed
  then show ?thesis by (auto simp: refreshed_def)
qed

lemma length_filter_map: "map f xs = map f ys \<Longrightarrow> length (filter (\<lambda>x. f x = c) xs) = length (filter (\<lambda>y. f y = c) ys)"
  by (metis (mono_tags) comp_def filter_map length_map filter_cong)

lemma renewed_ok: "disk_ok F \<Longrightarrow> renewed env T F G \<Longrightarrow> disk_ok G"
proof -
  assume F: "disk_ok F" and "renewed env T F G"
  then obtain key sid hs l now where h: "stored_holders F (lease_path env key) hs" "authorised env T hs key sid l"
    "G = F(lease_path env key := Present (map (\<lambda>h. if ls_session h \<noteq> sid then h else refreshed now l) hs))"
    by (auto simp: renewed_def)
  let ?hs = "map (\<lambda>h. if ls_session h \<noteq> sid then h else refreshed now l) hs"
  from h(2) have f: "filter (\<lambda>h. ls_session h = sid) hs = [l]" by (simp add: authorised_def)
  have "doc_ok hs \<longleftrightarrow> doc_ok ?hs"
    unfolding doc_ok_def using refresh_sessions [OF f, of now] length_filter_map [of ls_mode ?hs hs]
    by (simp only:)
  with stored_ok [OF F h(1)] F show ?thesis unfolding h(3) by (intro disk_ok_upd) auto
qed

lemma dropped_ok: "disk_ok F \<Longrightarrow> dropped env T F G \<Longrightarrow> disk_ok G"
proof -
  assume F: "disk_ok F" and "dropped env T F G"
  then obtain key sid hs where h: "stored_holders F (lease_path env key) hs"
    "G = F(lease_path env key := Present (filter (\<lambda>h. ls_session h \<noteq> sid) hs))" by (auto simp: dropped_def)
  have "length (filter (\<lambda>h. ls_mode h = ''mutating'') (filter (\<lambda>h. ls_session h \<noteq> sid) hs))
      \<le> length (filter (\<lambda>h. ls_mode h = ''mutating'') hs)"
    by (induction hs) auto
  with stored_ok [OF F h(1)] have "doc_ok (filter (\<lambda>h. ls_session h \<noteq> sid) hs)"
    by (auto simp: doc_ok_def distinct_map_filter)
  with F show ?thesis unfolding h(2) by (intro disk_ok_upd)
qed

lemma reach_disk_ok: "lease_reach s \<Longrightarrow> disk_ok (lease_files s)"
proof (induction rule: lease_reach.induct)
  case (reach_step s t)
  with lease_step_change [OF reach_step(2)] show ?case
    by (auto simp: change_def intro: granted_ok renewed_ok dropped_ok)
qed (simp add: disk_ok_def)

lemma acquire_blocked:
  assumes "F (lease_path env (workspace_key env workspace)) = Present hs" "h \<in> set hs" "ls_mode h = ''mutating''"
  shows "hoare (leases_are F T) (acquire env workspace sid ''mutating'' ttl now) (\<lambda>_ _. False) (\<lambda>_. after (\<lambda>_ _. True) F)"
  unfolding acquire_def Let_def
proof (intro bind_guard bind_lift bind_same [OF triple_moment] bind_same [OF triple_me] bind_same [OF triple_locked] bind_read)
  fix ttl' moment ow hs' kept
  assume hs': "stored_holders F (lease_path env (workspace_key env workspace)) hs'"
    and keep: "keep_holders env moment sid ''mutating'' hs' = Inr kept"
  have "kept = hs" using hs' assms(1) keep_holders_same [OF keep] by (auto simp: stored_holders_def)
  then obtain h' where "find (\<lambda>h. ls_mode h = ''mutating'') kept = Some h'"
    using assms(2,3) by (cases "find (\<lambda>h. ls_mode h = ''mutating'') kept") (auto simp: find_None_iff)
  then show "hoare (leases_are F T)
      (bindE (case find (\<lambda>h. ls_mode h = ''mutating'') kept of
          None \<Rightarrow> ret ()
        | Some h \<Rightarrow> if ''mutating'' = ''mutating'' then raise (Lease_conflict Mutably_held (Some h)) else ret ())
        (f kept)) (\<lambda>_ _. False) (\<lambda>_. after (\<lambda>_ _. True) F)" for f :: "lease list \<Rightarrow> unit \<Rightarrow> lease lease_prog"
    by (auto intro!: hoare_raise)
qed

subsection \<open>A concrete store\<close>

definition demo_lease_env :: lease_env where
  "demo_lease_env = cap_env.extend demo_env \<lparr>leases_root = ''leases'', canonical = (\<lambda>w. w), instance_id = 0\<rparr>"

definition demo_lease_world :: lease_world where
  "demo_lease_world = world.extend empty_world \<lparr>lease_files = (\<lambda>_. Absent), lease_tables = (\<lambda>_ _. None)\<rparr>"

definition demo_lease :: lease where
  "demo_lease = \<lparr>ls_workspace = ''/w'', ls_session = ''s1'', ls_mode = ''mutating'', acquired_at = 0, heartbeat_at = 0,
     ttl_sec = 60, ls_owner = demo_owner\<lparr>epoch := ''0''\<rparr>, stolen_from = []\<rparr>"

lemmas demo_lease_defs = demo_lease_env_def demo_lease_world_def demo_lease_def demo_defs
  cap_env.defs world.defs

lemma demo_acquire:
  "fst (acquire demo_lease_env ''/w'' ''s1'' ''mutating'' 60 (Some 0) demo_lease_world) = Inr demo_lease"
  "lease_files (snd (acquire demo_lease_env ''/w'' ''s1'' ''mutating'' 60 (Some 0) demo_lease_world))
     (lease_path demo_lease_env ''/w'') = Present [demo_lease]"
  by code_simp+

definition demo_held :: lease_world where
  "demo_held = snd (acquire demo_lease_env ''/w'' ''s1'' ''mutating'' 60 (Some 0) demo_lease_world)"

lemma demo_held_reach: "lease_reach demo_held"
  unfolding demo_held_def
  by (rule reach_step [OF reach_empty step_acquire]) (simp add: demo_lease_defs)

lemma demo_held_file: "lease_files demo_held (lease_path demo_lease_env (workspace_key demo_lease_env ''/w'')) = Present [demo_lease]"
  using demo_acquire(2) by (simp add: demo_held_def workspace_key_def demo_lease_env_def cap_env.defs)

subsection \<open>Properties\<close>

text \<open>C36. One workspace never has two mutating holders: after any interleaving of acquisitions,
  renewals and releases by any processes and instances, with any storage failures between and
  inside them, every readable lease document has at most one mutating entry and at most one
  entry per session.\<close>

theorem one_mutating_holder:
  assumes "lease_reach s" "lease_files s path = Present hs"
  shows "length (filter (\<lambda>h. ls_mode h = ''mutating'') hs) \<le> 1 \<and> distinct (map ls_session hs)"
  using reach_disk_ok [OF assms(1)] assms(2) by (auto simp: disk_ok_def doc_ok_def)

theorem one_mutating_holder_witness:
  "lease_files demo_held (lease_path demo_lease_env (workspace_key demo_lease_env ''/w'')) = Present [demo_lease]
   \<and> length (filter (\<lambda>h. ls_mode h = ''mutating'') [demo_lease]) \<le> 1"
  using one_mutating_holder [OF demo_held_reach demo_held_file] demo_held_file by blast

text \<open>Neither expiry nor a dead owner frees a workspace: while a mutating holder is recorded, a
  mutating acquisition by anybody never succeeds, whatever the clock says, whatever the liveness
  check of the holder answers and whatever the storage does.\<close>

lemma recorded_mutator_blocks:
  assumes "lease_files s (lease_path env (workspace_key env workspace)) = Present hs"
    and "h \<in> set hs" "ls_mode h = ''mutating''"
  shows "\<exists>e. fst (acquire env workspace sid ''mutating'' ttl now s) = Inl e"
proof (cases "acquire env workspace sid ''mutating'' ttl now s")
  case (Pair r t)
  have "leases_are (lease_files s) (lease_tables s) s" by (simp add: leases_are_def)
  with acquire_blocked [of "lease_files s" env workspace hs h "lease_tables s" sid ttl now] assms Pair
  show ?thesis by (cases r) (auto dest: hoareD)
qed

text \<open>The entry of \<open>h\<close> is still there, perhaps refreshed.\<close>

definition entry_kept :: "lease_disk \<Rightarrow> string \<Rightarrow> lease \<Rightarrow> bool" where
  "entry_kept F path h \<longleftrightarrow> (\<exists>hs h'. F path = Present hs \<and> h' \<in> set hs \<and> ls_session h' = ls_session h
     \<and> ls_owner h' = ls_owner h \<and> ls_mode h' = ls_mode h)"

lemma entry_keptI: "F path = Present hs \<Longrightarrow> h \<in> set hs \<Longrightarrow> entry_kept F path h"
  by (auto simp: entry_kept_def)

lemma stored_present: "stored_holders F path ks \<Longrightarrow> F path = Present hs \<Longrightarrow> ks = hs"
  by (auto simp: stored_holders_def)

lemma only_entry:
  assumes "filter (\<lambda>h. ls_session h = sid) hs = [l]" "h \<in> set hs" "ls_session h = sid"
  shows "h = l"
proof -
  from assms(2,3) have "h \<in> set (filter (\<lambda>h. ls_session h = sid) hs)" by simp
  then show ?thesis unfolding assms(1) by simp
qed

lemma granted_keeps:
  assumes "granted F G" "F path = Present hs" "h \<in> set hs"
  shows "entry_kept G path h"
proof -
  from assms(1) obtain p ks l where "stored_holders F p ks" "G = F(p := Present (ks @ [l]))"
    by (auto simp: granted_def)
  then show ?thesis using stored_present [of F p ks hs] assms(2,3) by (cases "path = p") (auto intro: entry_keptI)
qed

lemma renewed_keeps:
  assumes "renewed env T F G" "F path = Present hs" "h \<in> set hs"
  shows "entry_kept G path h"
proof -
  from assms(1) obtain key sid ks l now where k: "stored_holders F (lease_path env key) ks" "authorised env T ks key sid l"
    and G: "G = F(lease_path env key := Present (map (\<lambda>h. if ls_session h \<noteq> sid then h else refreshed now l) ks))"
    by (auto simp: renewed_def)
  show ?thesis
  proof (cases "path = lease_path env key")
    case True
    with k(1) assms(2) have "ks = hs" by (simp add: stored_present)
    with k(2) assms(3) have "ls_session h = sid \<Longrightarrow> h = l" by (auto simp: authorised_def intro: only_entry)
    with True \<open>ks = hs\<close> assms(3) show ?thesis unfolding entry_kept_def G
      by (intro exI [of _ "map (\<lambda>h. if ls_session h \<noteq> sid then h else refreshed now l) ks"]
          exI [of _ "if ls_session h \<noteq> sid then h else refreshed now l"]) (auto simp: refreshed_def)
  qed (use G assms(2,3) entry_keptI in simp)
qed

lemma dropped_keeps:
  assumes "dropped env T F G" "F path = Present hs" "h \<in> set hs" "\<not> entry_kept G path h"
  shows "\<exists>key. path = lease_path env key \<and> authorised env T hs key (ls_session h) h"
proof -
  from assms(1) obtain key sid ks l where k: "stored_holders F (lease_path env key) ks" "authorised env T ks key sid l"
    and G: "G = F(lease_path env key := Present (filter (\<lambda>h. ls_session h \<noteq> sid) ks))"
    by (auto simp: dropped_def)
  have path: "path = lease_path env key" using assms(2,3,4) G by (auto intro: entry_keptI split: if_splits)
  with k(1) assms(2) have ks: "ks = hs" by (simp add: stored_present)
  with assms(3,4) G path have "ls_session h = sid" by (auto intro: entry_keptI)
  moreover from this k(2) ks assms(3) have "h = l" by (auto simp: authorised_def intro: only_entry)
  ultimately show ?thesis using path k(2) ks by blast
qed



end
