(* ===== verification/Selection_Rules.thy ===== *)
theory Selection_Rules
  imports Permission_Rules "HOL-Library.Product_Lexorder"
begin

text \<open>
  Deterministic runtime selection: its request, rule, candidate and policy types with the checks
  of their constructors (\<open>garuda/runtime/selection/models.py\<close>), and the parsing, ordering and
  matching of declarative rules (\<open>scoring.py\<close>).

  Loaded configuration is a value of \<open>pyval\<close> (Prelude). An error carries the field it names. Patterns of
  \<open>task_regexes\<close> are texts; \<open>re.compile\<close> and \<open>re.search\<close> of a text are the parameter \<open>compile\<close>,
  which gives the pattern, or \<open>None\<close> for \<open>re.error\<close>.
\<close>

subsection \<open>Values\<close>

datatype selection_error = Selection_error string

type_synonym 'a checked = "selection_error + 'a"

definition bindS :: "'a checked \<Rightarrow> ('a \<Rightarrow> 'b checked) \<Rightarrow> 'b checked" where
  "bindS r f = (case r of Inl e \<Rightarrow> Inl e | Inr x \<Rightarrow> f x)"

definition ensure :: "bool \<Rightarrow> string \<Rightarrow> unit checked" where
  "ensure b field = (if b then Inr () else Inl (Selection_error field))"

definition MAX_TASK_CHARS :: nat where "MAX_TASK_CHARS = 8000"
definition MAX_PATTERN_CHARS :: nat where "MAX_PATTERN_CHARS = 500"
definition MAX_PATTERNS_PER_RULE :: nat where "MAX_PATTERNS_PER_RULE = 8"
definition MAX_RULES :: nat where "MAX_RULES = 64"
definition MAX_TRAIT_FILES :: nat where "MAX_TRAIT_FILES = 2000"
definition MAX_TRAIT_ENTRIES :: nat where "MAX_TRAIT_ENTRIES = 5000"
definition MAX_TRAIT_DEPTH :: nat where "MAX_TRAIT_DEPTH = 6"
definition MAX_MARKER_CHECKS :: nat where "MAX_MARKER_CHECKS = 64"
definition MAX_CLASSIFIER_OUTPUT_BUDGET :: int where "MAX_CLASSIFIER_OUTPUT_BUDGET = 1024"
definition MAX_CLASSIFIER_TIMEOUT_SEC :: rat where "MAX_CLASSIFIER_TIMEOUT_SEC = 120"

definition PERMISSION_RANK :: "nat dict" where
  "PERMISSION_RANK = [(''readonly'', 0), (''smart'', 1), (''auto'', 2), (''yolo'', 3)]"

definition known_ceiling :: "string \<Rightarrow> bool" where
  "known_ceiling c \<longleftrightarrow> dict_get PERMISSION_RANK c \<noteq> None"

text \<open>The loop of \<open>_norm_set\<close> over the entries.\<close>

fun norm_entries :: "string \<Rightarrow> string list \<Rightarrow> pyval list \<Rightarrow> string list checked" where
  "norm_entries field out [] = Inr out"
| "norm_entries field out (v # vs) =
     (case v of
        P_str s \<Rightarrow>
          if s = [] then Inl (Selection_error field)
          else norm_entries field (if py_lower s \<in> set out then out else out @ [py_lower s]) vs
      | _ \<Rightarrow> Inl (Selection_error field))"

definition norm_set :: "string \<Rightarrow> pyval \<Rightarrow> string list checked" where
  "norm_set field v =
     (case v of
        P_none \<Rightarrow> Inr []
      | P_str s \<Rightarrow> norm_entries field [] [P_str s]
      | P_list vs \<Rightarrow> norm_entries field [] vs
      | _ \<Rightarrow> Inl (Selection_error field))"

subsection \<open>Requests, rules, candidates\<close>

record initial_request =
  rq_task :: string
  rq_tags :: "string list"
  rq_agent :: string
  rq_mode :: string
  rq_workspace_kind :: string
  rq_permission_ceiling :: string
  rq_explicit_runtime :: "string option"
  rq_profile_pin :: "string option"
  rq_default_runtime :: "string option"
  rq_fallback_runtime :: "string option"
  rq_required_capabilities :: "string list"

definition runtime_id_ok :: "string option \<Rightarrow> bool" where
  "runtime_id_ok r \<longleftrightarrow> r \<noteq> Some []"

text \<open>\<open>InitialRequest.__post_init__\<close>.\<close>

definition make_request :: "initial_request \<Rightarrow> initial_request checked" where
  "make_request r =
     bindS (norm_set ''request.tags'' (P_list (map P_str (rq_tags r)))) (\<lambda>tags.
     bindS (norm_set ''request.required_capabilities'' (P_list (map P_str (rq_required_capabilities r)))) (\<lambda>caps.
     bindS (ensure (known_ceiling (py_lower (rq_permission_ceiling r))) ''request.permission_ceiling'') (\<lambda>_.
     bindS (ensure (rq_workspace_kind r \<noteq> []) ''request.workspace_kind'') (\<lambda>_.
     bindS (ensure (runtime_id_ok (rq_explicit_runtime r)) ''request.explicit_runtime'') (\<lambda>_.
     bindS (ensure (runtime_id_ok (rq_profile_pin r)) ''request.profile_pin'') (\<lambda>_.
     bindS (ensure (runtime_id_ok (rq_default_runtime r)) ''request.default_runtime'') (\<lambda>_.
     bindS (ensure (runtime_id_ok (rq_fallback_runtime r)) ''request.fallback_runtime'') (\<lambda>_.
       Inr (r\<lparr>rq_tags := tags, rq_required_capabilities := caps, rq_agent := py_lower (rq_agent r),
              rq_mode := py_lower (rq_mode r), rq_workspace_kind := py_lower (rq_workspace_kind r),
              rq_permission_ceiling := py_lower (rq_permission_ceiling r)\<rparr>)))))))))"

record repo_traits =
  tr_languages :: "string list"
  tr_marker_files :: "string list"
  tr_files :: "string list"
  tr_file_count :: nat
  tr_truncated :: bool

definition EMPTY_TRAITS :: repo_traits where
  "EMPTY_TRAITS = \<lparr>tr_languages = [], tr_marker_files = [], tr_files = [], tr_file_count = 0, tr_truncated = False\<rparr>"

record selection_rule =
  rule_id :: string
  rl_runtime :: string
  rl_priority :: int
  rl_index :: nat
  rl_trusted :: bool
  rl_agents :: "string list"
  rl_modes :: "string list"
  rl_tags :: "string list"
  rl_capabilities :: "string list"
  rl_workspace_kinds :: "string list"
  rl_permission_ceilings :: "string list"
  rl_languages :: "string list"
  rl_marker_files :: "string list"
  rl_task_substrings :: "string list"
  rl_task_globs :: "string list"
  rl_path_globs :: "string list"
  rl_task_regexes :: "string list"

text \<open>\<open>SelectionRule.__post_init__\<close>.\<close>

definition make_rule :: "(string \<Rightarrow> rx option) \<Rightarrow> selection_rule \<Rightarrow> selection_rule checked" where
  "make_rule compile r =
     bindS (ensure (rule_id r \<noteq> []) ''rule.id'') (\<lambda>_.
     bindS (ensure (rl_runtime r \<noteq> []) ''rule.runtime'') (\<lambda>_.
     bindS (ensure (list_all known_ceiling (rl_permission_ceilings r)) ''rule.permission_ceilings'') (\<lambda>_.
     bindS (ensure (list_all (\<lambda>p. length p \<le> MAX_PATTERN_CHARS \<and> compile p \<noteq> None) (rl_task_regexes r))
              ''rule.task_regexes'') (\<lambda>_. Inr r))))"

record initial_candidate =
  runtime_id :: string
  cd_kind :: string
  cd_available :: bool
  cd_health :: string
  cd_auth :: string
  cd_capabilities :: "string list"
  cd_workspace_kinds :: "string list option"
  cd_permission_ceilings :: "string list option"
  cd_version :: string
  cd_unavailable_reason :: string

definition or_none :: "string list \<Rightarrow> string list option" where
  "or_none xs = (if xs = [] then None else Some xs)"

text \<open>\<open>InitialCandidate.__post_init__\<close>.\<close>

definition make_candidate :: "initial_candidate \<Rightarrow> initial_candidate checked" where
  "make_candidate c =
     (let health = py_lower (cd_health c); auth = py_lower (cd_auth c);
          strs = (\<lambda>xs. P_list (map P_str xs)) in
      bindS (ensure (runtime_id c \<noteq> []) ''candidate.runtime_id'') (\<lambda>_.
      bindS (ensure (health \<in> set [''ok'', ''degraded'', ''unavailable'']) ''candidate.health'') (\<lambda>_.
      bindS (ensure (auth \<in> set [''authenticated'', ''unauthenticated'', ''expired'', ''unknown'']) ''candidate.auth'') (\<lambda>_.
      bindS (norm_set ''candidate.capabilities'' (strs (cd_capabilities c))) (\<lambda>caps.
      bindS (case cd_workspace_kinds c of None \<Rightarrow> Inr None
             | Some ks \<Rightarrow> bindS (norm_set ''candidate.workspace_kinds'' (strs ks)) (\<lambda>ks. Inr (or_none ks))) (\<lambda>kinds.
      bindS (case cd_permission_ceilings c of None \<Rightarrow> Inr None
             | Some ks \<Rightarrow> bindS (norm_set ''candidate.permission_ceilings'' (strs ks)) (\<lambda>ks.
                 bindS (ensure (list_all known_ceiling ks) ''candidate.permission_ceilings'') (\<lambda>_. Inr (or_none ks)))) (\<lambda>ceilings.
        Inr (c\<lparr>cd_health := health, cd_auth := auth, cd_capabilities := caps, cd_workspace_kinds := kinds,
               cd_permission_ceilings := ceilings\<rparr>))))))))"

record classifier_policy =
  cp_enabled :: bool
  cp_model_role :: string
  cp_allow_reasoning_fallback :: bool
  cp_model_binding :: "string option"
  cp_minimum_confidence :: rat
  cp_candidates :: "string list option"
  cp_max_output_tokens :: int
  cp_timeout_sec :: rat
  cp_on_failure :: string

definition default_classifier :: classifier_policy where
  "default_classifier = \<lparr>cp_enabled = False, cp_model_role = ''collection'', cp_allow_reasoning_fallback = False,
     cp_model_binding = None, cp_minimum_confidence = 3 / 4, cp_candidates = None, cp_max_output_tokens = 256,
     cp_timeout_sec = 20, cp_on_failure = ''default''\<rparr>"

definition as_number :: "pyval \<Rightarrow> rat option" where
  "as_number v = (case v of P_int i \<Rightarrow> Some (of_int i) | P_float r \<Rightarrow> Some r | _ \<Rightarrow> None)"

definition get_or :: "pyval \<Rightarrow> pyval dict \<Rightarrow> string \<Rightarrow> pyval" where
  "get_or dflt d k = (case dict_get d k of None \<Rightarrow> dflt | Some v \<Rightarrow> v)"

fun dedupe_ids :: "string list \<Rightarrow> pyval list \<Rightarrow> string list checked" where
  "dedupe_ids out [] = Inr out"
| "dedupe_ids out (v # vs) =
     (case v of
        P_str s \<Rightarrow> if s = [] then Inl (Selection_error ''classifier.candidates'')
                  else dedupe_ids (if s \<in> set out then out else out @ [s]) vs
      | _ \<Rightarrow> Inl (Selection_error ''classifier.candidates''))"

definition classifier_candidates :: "pyval \<Rightarrow> string list option checked" where
  "classifier_candidates v =
     (case v of
        P_none \<Rightarrow> Inr None
      | P_list vs \<Rightarrow> bindS (dedupe_ids [] vs) (\<lambda>ids.
          bindS (ensure (ids \<noteq> []) ''classifier.candidates'') (\<lambda>_. Inr (Some ids)))
      | _ \<Rightarrow> Inl (Selection_error ''classifier.candidates''))"

text \<open>\<open>ClassifierPolicy.__post_init__\<close> on the given fields, the others at their defaults.\<close>

definition make_classifier :: "pyval dict \<Rightarrow> pyval \<Rightarrow> classifier_policy checked" where
  "make_classifier d cands =
     (case get_or (P_bool False) d ''enabled'' of P_bool enabled \<Rightarrow>
       (case get_or (P_str ''collection'') d ''model_role'' of P_str role \<Rightarrow>
         bindS (ensure (role \<in> set [''collection'', ''reasoning'']) ''classifier.model_role'') (\<lambda>_.
         (case get_or (P_bool False) d ''allow_reasoning_fallback'' of P_bool allow \<Rightarrow>
           bindS (case get_or P_none d ''model_binding'' of P_none \<Rightarrow> Inr None
                  | P_str b \<Rightarrow> if b = [] then Inl (Selection_error ''classifier.model_binding'') else Inr (Some b)
                  | _ \<Rightarrow> Inl (Selection_error ''classifier.model_binding'')) (\<lambda>binding.
           (case as_number (get_or (P_float (3 / 4)) d ''minimum_confidence'') of
              None \<Rightarrow> Inl (Selection_error ''classifier.minimum_confidence'')
            | Some confidence \<Rightarrow>
                bindS (ensure (0 \<le> confidence \<and> confidence \<le> 1) ''classifier.minimum_confidence'') (\<lambda>_.
                bindS (classifier_candidates cands) (\<lambda>ids.
                (case get_or (P_int 256) d ''max_output_tokens'' of P_int budget \<Rightarrow>
                  bindS (ensure (0 < budget \<and> budget \<le> MAX_CLASSIFIER_OUTPUT_BUDGET) ''classifier.max_output_tokens'') (\<lambda>_.
                  (case as_number (get_or (P_float 20) d ''timeout_sec'') of
                     None \<Rightarrow> Inl (Selection_error ''classifier.timeout_sec'')
                   | Some timeout \<Rightarrow>
                       bindS (ensure (0 < timeout \<and> timeout \<le> MAX_CLASSIFIER_TIMEOUT_SEC) ''classifier.timeout_sec'') (\<lambda>_.
                       bindS (ensure (get_or (P_str ''default'') d ''on_failure'' = P_str ''default'') ''classifier.on_failure'') (\<lambda>_.
                         Inr \<lparr>cp_enabled = enabled, cp_model_role = role, cp_allow_reasoning_fallback = allow,
                              cp_model_binding = binding, cp_minimum_confidence = confidence, cp_candidates = ids,
                              cp_max_output_tokens = budget, cp_timeout_sec = timeout, cp_on_failure = ''default''\<rparr>))))
                 | _ \<Rightarrow> Inl (Selection_error ''classifier.max_output_tokens''))))))
          | _ \<Rightarrow> Inl (Selection_error ''classifier.allow_reasoning_fallback'')))
        | _ \<Rightarrow> Inl (Selection_error ''classifier.model_role''))
      | _ \<Rightarrow> Inl (Selection_error ''classifier.enabled''))"

record global_selection =
  gs_default_runtime :: "string option"
  gs_fallback_runtime :: "string option"
  gs_trust_project_routes :: bool
  gs_rules :: "selection_rule list"
  gs_classifier :: classifier_policy

record project_selection =
  ps_rules :: "selection_rule list"
  ps_classifier_disabled :: bool

subsection \<open>Parsing\<close>

definition WHEN_ALIASES :: "string list dict" where
  "WHEN_ALIASES =
     [(''agents'', [''agents'', ''agent'']),
      (''modes'', [''modes'', ''mode'']),
      (''tags'', [''tags'', ''tag'', ''task_tags'']),
      (''capabilities'', [''capabilities'', ''capability'', ''required_capabilities'']),
      (''workspace_kinds'', [''workspace_kinds'', ''workspace_kind'']),
      (''permission_ceilings'', [''permission_ceilings'', ''permission_ceiling'', ''ceilings'', ''ceiling'']),
      (''languages'', [''languages'', ''language'']),
      (''marker_files'', [''marker_files'', ''marker_file'', ''markers'', ''marker'']),
      (''task_substrings'', [''task_substrings'', ''task_substring'', ''substrings'', ''substring'']),
      (''task_globs'', [''task_globs'', ''task_glob'', ''globs'', ''glob'']),
      (''path_globs'', [''path_globs'', ''path_glob'', ''file_globs'', ''file_glob'']),
      (''task_regexes'', [''task_regexes'', ''task_regex'', ''regexes'', ''regex'', ''patterns'', ''pattern'',
         ''task_patterns'', ''task_pattern''])]"

definition RULE_TOP_FIELDS :: "string list" where
  "RULE_TOP_FIELDS = [''id'', ''priority'', ''runtime'', ''when'']"

definition FORBIDDEN_RULE_FIELDS :: "string list" where
  "FORBIDDEN_RULE_FIELDS = [''command'', ''executables'', ''api_base'', ''credentials'']"

definition CLASSIFIER_FIELDS :: "string list" where
  "CLASSIFIER_FIELDS = [''enabled'', ''model_role'', ''allow_reasoning_fallback'', ''model_binding'',
     ''minimum_confidence'', ''candidates'', ''max_output_tokens'', ''timeout_sec'', ''on_failure'']"

definition FORBIDDEN_CLASSIFIER_FIELDS :: "string list" where
  "FORBIDDEN_CLASSIFIER_FIELDS = [''model'', ''models'', ''provider'', ''api_base'', ''credentials'', ''command'',
     ''executables'', ''tools'']"

definition canonical_when_key :: "string \<Rightarrow> string option" where
  "canonical_when_key key = map_option fst (find (\<lambda>(_, aliases). key \<in> set aliases) WHEN_ALIASES)"

definition only_keys :: "pyval dict \<Rightarrow> string list \<Rightarrow> bool" where
  "only_keys d ks \<longleftrightarrow> list_all (\<lambda>k. k \<in> set ks) (dict_keys d)"

definition no_keys :: "pyval dict \<Rightarrow> string list \<Rightarrow> bool" where
  "no_keys d ks \<longleftrightarrow> list_all (\<lambda>k. k \<notin> set ks) (dict_keys d)"

text \<open>The loop over the conditions of one rule.\<close>

fun parse_when :: "(string \<Rightarrow> rx option) \<Rightarrow> bool \<Rightarrow> string list dict \<Rightarrow> pyval dict \<Rightarrow> string list dict checked" where
  "parse_when compile trusted buckets [] = Inr buckets"
| "parse_when compile trusted buckets ((raw_key, raw_value) # rest) =
     (case canonical_when_key raw_key of
        None \<Rightarrow> Inl (Selection_error raw_key)
      | Some canonical \<Rightarrow>
          bindS (ensure (dict_get buckets canonical = None) ''when'') (\<lambda>_.
          bindS (ensure (\<not> (canonical = ''task_regexes'' \<and> \<not> trusted)) raw_key) (\<lambda>_.
          bindS (norm_set raw_key raw_value) (\<lambda>values.
          bindS (ensure (canonical = ''task_regexes'' \<longrightarrow>
                   length values \<le> MAX_PATTERNS_PER_RULE
                   \<and> list_all (\<lambda>p. length p \<le> MAX_PATTERN_CHARS \<and> compile p \<noteq> None) values) raw_key) (\<lambda>_.
            parse_when compile trusted (dict_set canonical values buckets) rest)))))"

definition bucket :: "string list dict \<Rightarrow> string \<Rightarrow> string list" where
  "bucket b k = (case dict_get b k of None \<Rightarrow> [] | Some v \<Rightarrow> v)"

definition parse_rule :: "(string \<Rightarrow> rx option) \<Rightarrow> bool \<Rightarrow> nat \<Rightarrow> pyval \<Rightarrow> selection_rule checked" where
  "parse_rule compile trusted n item =
     (case item of P_dict d \<Rightarrow>
       bindS (ensure (no_keys d FORBIDDEN_RULE_FIELDS) ''rule'') (\<lambda>_.
       bindS (ensure (only_keys d RULE_TOP_FIELDS) ''rule'') (\<lambda>_.
       (case get_or (P_str (''rule-'' @ show_nat n)) d ''id'' of P_str rid \<Rightarrow>
         bindS (ensure (rid \<noteq> []) ''rule.id'') (\<lambda>_.
         (case get_or P_none d ''runtime'' of P_str runtime \<Rightarrow>
           bindS (ensure (runtime \<noteq> []) ''rule.runtime'') (\<lambda>_.
           (case get_or (P_int 0) d ''priority'' of P_int priority \<Rightarrow>
             (case get_or (P_dict []) d ''when'' of P_dict w \<Rightarrow>
               bindS (parse_when compile trusted [] w) (\<lambda>b.
                 make_rule compile \<lparr>rule_id = rid, rl_runtime = runtime, rl_priority = priority, rl_index = n,
                   rl_trusted = trusted, rl_agents = bucket b ''agents'', rl_modes = bucket b ''modes'',
                   rl_tags = bucket b ''tags'', rl_capabilities = bucket b ''capabilities'',
                   rl_workspace_kinds = bucket b ''workspace_kinds'',
                   rl_permission_ceilings = bucket b ''permission_ceilings'',
                   rl_languages = bucket b ''languages'', rl_marker_files = map py_lower (bucket b ''marker_files''),
                   rl_task_substrings = bucket b ''task_substrings'', rl_task_globs = bucket b ''task_globs'',
                   rl_path_globs = bucket b ''path_globs'', rl_task_regexes = bucket b ''task_regexes''\<rparr>)
              | _ \<Rightarrow> Inl (Selection_error ''rule.when''))
            | _ \<Rightarrow> Inl (Selection_error ''rule.priority'')))
          | _ \<Rightarrow> Inl (Selection_error ''rule.runtime'')))
        | _ \<Rightarrow> Inl (Selection_error ''rule.id''))))
      | _ \<Rightarrow> Inl (Selection_error ''rule''))"

fun parse_rules :: "(string \<Rightarrow> rx option) \<Rightarrow> bool \<Rightarrow> nat \<Rightarrow> pyval list \<Rightarrow> selection_rule list checked" where
  "parse_rules compile trusted n [] = Inr []"
| "parse_rules compile trusted n (item # items) =
     bindS (parse_rule compile trusted n item) (\<lambda>r.
     bindS (parse_rules compile trusted (Suc n) items) (\<lambda>rs. Inr (r # rs)))"

definition parse_selection_rules :: "(string \<Rightarrow> rx option) \<Rightarrow> pyval \<Rightarrow> bool \<Rightarrow> nat \<Rightarrow> selection_rule list checked" where
  "parse_selection_rules compile data trusted start_index =
     (case data of
        P_none \<Rightarrow> Inr []
      | P_list items \<Rightarrow>
          bindS (ensure (length items \<le> MAX_RULES) ''rules'') (\<lambda>_. parse_rules compile trusted start_index items)
      | _ \<Rightarrow> Inl (Selection_error ''rules''))"

definition parse_classifier_policy :: "pyval \<Rightarrow> classifier_policy checked" where
  "parse_classifier_policy data =
     (case data of
        P_none \<Rightarrow> Inr default_classifier
      | P_bool b \<Rightarrow> Inr (default_classifier\<lparr>cp_enabled := b\<rparr>)
      | P_dict d \<Rightarrow>
          bindS (ensure (no_keys d FORBIDDEN_CLASSIFIER_FIELDS) ''classifier'') (\<lambda>_.
          bindS (ensure (only_keys d CLASSIFIER_FIELDS) ''classifier'') (\<lambda>_.
            make_classifier d (case get_or P_none d ''candidates'' of P_str s \<Rightarrow> P_list [P_str s] | v \<Rightarrow> v)))
      | _ \<Rightarrow> Inl (Selection_error ''classifier''))"

definition parse_project_classifier :: "pyval \<Rightarrow> bool checked" where
  "parse_project_classifier data =
     (case data of
        P_none \<Rightarrow> Inr False
      | P_bool b \<Rightarrow> if b then Inl (Selection_error ''classifier'') else Inr True
      | P_dict d \<Rightarrow> if d = [(''enabled'', P_bool False)] then Inr True else Inl (Selection_error ''classifier'')
      | _ \<Rightarrow> Inl (Selection_error ''classifier''))"

definition sort_selection_rules :: "selection_rule list \<Rightarrow> selection_rule list" where
  "sort_selection_rules rules = sort_key (\<lambda>r. (- rl_priority r, rl_index r)) rules"

definition GLOBAL_FIELDS :: "string list" where
  "GLOBAL_FIELDS = [''default_runtime'', ''fallback_runtime'', ''trust_project_routes'', ''rules'', ''classifier'']"

definition runtime_field :: "pyval dict \<Rightarrow> string \<Rightarrow> string option checked" where
  "runtime_field d k =
     (case get_or P_none d k of
        P_none \<Rightarrow> Inr None
      | P_str s \<Rightarrow> if s = [] then Inl (Selection_error k) else Inr (Some s)
      | _ \<Rightarrow> Inl (Selection_error k))"

definition default_global :: global_selection where
  "default_global = \<lparr>gs_default_runtime = None, gs_fallback_runtime = None, gs_trust_project_routes = False,
     gs_rules = [], gs_classifier = default_classifier\<rparr>"

definition global_block :: "pyval dict \<Rightarrow> pyval dict option" where
  "global_block d =
     (case get_or P_none d ''routing'' of
        P_dict b \<Rightarrow> Some b
      | _ \<Rightarrow> if list_ex (\<lambda>k. dict_get d k \<noteq> None) GLOBAL_FIELDS then Some d else None)"

definition parse_global_selection :: "(string \<Rightarrow> rx option) \<Rightarrow> pyval \<Rightarrow> global_selection checked" where
  "parse_global_selection compile data =
     (case data of
        P_none \<Rightarrow> Inr default_global
      | P_dict d \<Rightarrow>
          (case global_block d of
             None \<Rightarrow> Inr default_global
           | Some b \<Rightarrow>
               bindS (ensure (only_keys b GLOBAL_FIELDS) ''routing'') (\<lambda>_.
               bindS (runtime_field b ''default_runtime'') (\<lambda>dflt.
               bindS (runtime_field b ''fallback_runtime'') (\<lambda>fallback.
               (case get_or (P_bool False) b ''trust_project_routes'' of P_bool trust \<Rightarrow>
                 bindS (parse_selection_rules compile (get_or P_none b ''rules'') True 0) (\<lambda>rules.
                 bindS (parse_classifier_policy (get_or P_none b ''classifier'')) (\<lambda>policy.
                   Inr \<lparr>gs_default_runtime = dflt, gs_fallback_runtime = fallback, gs_trust_project_routes = trust,
                        gs_rules = sort_selection_rules rules, gs_classifier = policy\<rparr>))
                | _ \<Rightarrow> Inl (Selection_error ''trust_project_routes''))))))
      | _ \<Rightarrow> Inl (Selection_error ''global selection''))"

definition parse_project_selection :: "(string \<Rightarrow> rx option) \<Rightarrow> pyval \<Rightarrow> project_selection checked" where
  "parse_project_selection compile data =
     (case data of
        P_none \<Rightarrow> Inr \<lparr>ps_rules = [], ps_classifier_disabled = False\<rparr>
      | P_dict d \<Rightarrow>
          (case (case dict_get d ''routing'' of Some v \<Rightarrow> Some v
                 | None \<Rightarrow> if only_keys d [''rules''] then Some (P_dict d) else None) of
             None \<Rightarrow> Inr \<lparr>ps_rules = [], ps_classifier_disabled = False\<rparr>
           | Some (P_dict b) \<Rightarrow>
               bindS (ensure (no_keys b FORBIDDEN_RULE_FIELDS) ''routing'') (\<lambda>_.
               bindS (ensure (only_keys b [''rules'', ''classifier'']) ''routing'') (\<lambda>_.
               bindS (parse_selection_rules compile (get_or P_none b ''rules'') False 0) (\<lambda>rules.
               bindS (parse_project_classifier (get_or P_none b ''classifier'')) (\<lambda>off.
                 Inr \<lparr>ps_rules = sort_selection_rules rules, ps_classifier_disabled = off\<rparr>))))
           | Some _ \<Rightarrow> Inl (Selection_error ''routing''))
      | _ \<Rightarrow> Inl (Selection_error ''project selection''))"

subsection \<open>Matching\<close>

datatype match_detail = Matches | Agent_not_listed | Mode_not_listed | No_common_tag | Workspace_not_listed
  | Ceiling_not_listed | No_common_language | Markers_missing | No_substring | No_task_glob | No_path_glob
  | Pattern_failed | No_pattern

definition meets :: "string list \<Rightarrow> string list \<Rightarrow> bool" where
  "meets xs ys \<longleftrightarrow> list_ex (\<lambda>x. x \<in> set ys) xs"

text \<open>\<open>any(re.search(...))\<close>; \<open>None\<close> is the \<open>re.error\<close> of the first pattern that does not compile.\<close>

fun any_regex :: "(string \<Rightarrow> rx option) \<Rightarrow> string \<Rightarrow> string list \<Rightarrow> bool option" where
  "any_regex compile text0 [] = Some False"
| "any_regex compile text0 (p # ps) =
     (case compile p of None \<Rightarrow> None
      | Some r \<Rightarrow> if search r text0 then Some True else any_regex compile text0 ps)"

definition rule_matches_request :: "(string \<Rightarrow> rx option) \<Rightarrow> selection_rule \<Rightarrow> initial_request \<Rightarrow> repo_traits
    \<Rightarrow> bool \<times> match_detail" where
  "rule_matches_request compile rule request traits =
     (let head = take MAX_TASK_CHARS (rq_task request); task_head = py_lower head in
      if rl_agents rule \<noteq> [] \<and> py_lower (rq_agent request) \<notin> set (rl_agents rule) then (False, Agent_not_listed)
      else if rl_modes rule \<noteq> [] \<and> rq_mode request \<notin> set (rl_modes rule) then (False, Mode_not_listed)
      else if rl_tags rule \<noteq> [] \<and> \<not> meets (rl_tags rule) (rq_tags request) then (False, No_common_tag)
      else if rl_workspace_kinds rule \<noteq> [] \<and> rq_workspace_kind request \<notin> set (rl_workspace_kinds rule)
      then (False, Workspace_not_listed)
      else if rl_permission_ceilings rule \<noteq> [] \<and> rq_permission_ceiling request \<notin> set (rl_permission_ceilings rule)
      then (False, Ceiling_not_listed)
      else if rl_languages rule \<noteq> [] \<and> \<not> meets (rl_languages rule) (tr_languages traits) then (False, No_common_language)
      else if rl_marker_files rule \<noteq> [] \<and> \<not> list_all (\<lambda>m. m \<in> set (tr_marker_files traits)) (rl_marker_files rule)
      then (False, Markers_missing)
      else if rl_task_substrings rule \<noteq> [] \<and> \<not> list_ex (contains task_head) (rl_task_substrings rule)
      then (False, No_substring)
      else if rl_task_globs rule \<noteq> [] \<and> \<not> list_ex (fnmatch task_head) (rl_task_globs rule) then (False, No_task_glob)
      else if rl_path_globs rule \<noteq> [] \<and> \<not> list_ex (\<lambda>pattern. list_ex (\<lambda>path.
                fnmatch path pattern \<or> fnmatch (py_lower (path_name path)) pattern) (tr_files traits)) (rl_path_globs rule)
      then (False, No_path_glob)
      else if rl_task_regexes rule \<noteq> [] then
        (case any_regex compile head (rl_task_regexes rule) of
           None \<Rightarrow> (False, Pattern_failed)
         | Some False \<Rightarrow> (False, No_pattern)
         | Some True \<Rightarrow> (True, Matches))
      else (True, Matches))"

subsection \<open>What parsing guarantees\<close>

lemma bindS_Inr: "bindS r f = Inr y \<longleftrightarrow> (\<exists>x. r = Inr x \<and> f x = Inr y)"
  by (cases r) (simp_all add: bindS_def)

lemma ensure_Inr: "ensure b e = Inr x \<longleftrightarrow> b"
  by (simp add: ensure_def)

lemma norm_entries_out: "norm_entries e out vs = Inr xs \<Longrightarrow> distinct out \<Longrightarrow> distinct xs"
  by (induction vs arbitrary: out) (auto split: pyval.splits if_splits)

lemma parse_when_regexes:
  "parse_when compile trusted b w = Inr b' \<Longrightarrow> \<not> trusted \<Longrightarrow> dict_get b' ''task_regexes'' = dict_get b ''task_regexes''"
proof (induction compile trusted b w rule: parse_when.induct)
  case (2 compile trusted buckets k v rest)
  then show ?case
    by (auto simp: bindS_Inr ensure_Inr dict_simps split: option.splits)
qed simp

lemma parse_when_regex_count:
  "parse_when compile trusted b w = Inr b' \<Longrightarrow> length (bucket b ''task_regexes'') \<le> MAX_PATTERNS_PER_RULE
   \<Longrightarrow> length (bucket b' ''task_regexes'') \<le> MAX_PATTERNS_PER_RULE"
proof (induction compile trusted b w rule: parse_when.induct)
  case (2 compile trusted buckets k v rest)
  then show ?case
    by (auto simp: bindS_Inr ensure_Inr dict_simps bucket_def split: option.splits if_splits)
qed simp

text \<open>One parsed rule: its position, its trust and the limits on its patterns.\<close>

lemma make_rule_Inr: "make_rule compile r = Inr r' \<Longrightarrow> r' = r \<and> rule_id r \<noteq> [] \<and> rl_runtime r \<noteq> []
    \<and> list_all (\<lambda>p. length p \<le> MAX_PATTERN_CHARS \<and> compile p \<noteq> None) (rl_task_regexes r)"
  by (auto simp: make_rule_def bindS_Inr ensure_Inr)

lemma parse_rule_Inr:
  assumes "parse_rule compile trusted n item = Inr r"
  shows "rl_index r = n \<and> rl_trusted r = trusted \<and> rule_id r \<noteq> [] \<and> rl_runtime r \<noteq> []
    \<and> (trusted \<or> rl_task_regexes r = []) \<and> length (rl_task_regexes r) \<le> MAX_PATTERNS_PER_RULE
    \<and> list_all (\<lambda>p. length p \<le> MAX_PATTERN_CHARS \<and> compile p \<noteq> None) (rl_task_regexes r)"
proof -
  from assms obtain b w rid runtime priority where
    w: "parse_when compile trusted [] w = Inr b"
    and r: "make_rule compile \<lparr>rule_id = rid, rl_runtime = runtime, rl_priority = priority, rl_index = n,
                   rl_trusted = trusted, rl_agents = bucket b ''agents'', rl_modes = bucket b ''modes'',
                   rl_tags = bucket b ''tags'', rl_capabilities = bucket b ''capabilities'',
                   rl_workspace_kinds = bucket b ''workspace_kinds'',
                   rl_permission_ceilings = bucket b ''permission_ceilings'',
                   rl_languages = bucket b ''languages'', rl_marker_files = map py_lower (bucket b ''marker_files''),
                   rl_task_substrings = bucket b ''task_substrings'', rl_task_globs = bucket b ''task_globs'',
                   rl_path_globs = bucket b ''path_globs'', rl_task_regexes = bucket b ''task_regexes''\<rparr> = Inr r"
    by (auto simp: parse_rule_def bindS_Inr ensure_Inr split: pyval.splits)
  have "length (bucket b ''task_regexes'') \<le> MAX_PATTERNS_PER_RULE"
    by (rule parse_when_regex_count [OF w]) (simp add: bucket_def)
  moreover have "trusted \<or> bucket b ''task_regexes'' = []"
    using parse_when_regexes [OF w] by (cases trusted) (simp_all add: bucket_def)
  ultimately show ?thesis using make_rule_Inr [OF r] by auto
qed

lemma parse_rules_Inr:
  "parse_rules compile trusted n items = Inr rs \<Longrightarrow> length rs = length items \<and> map rl_index rs = [n..<n + length items]
     \<and> (\<forall>r \<in> set rs. rl_trusted r = trusted \<and> (trusted \<or> rl_task_regexes r = [])
          \<and> length (rl_task_regexes r) \<le> MAX_PATTERNS_PER_RULE
          \<and> list_all (\<lambda>p. length p \<le> MAX_PATTERN_CHARS \<and> compile p \<noteq> None) (rl_task_regexes r))"
proof (induction items arbitrary: n rs)
  case (Cons item items)
  then obtain r rs' where r: "parse_rule compile trusted n item = Inr r" "rs = r # rs'"
    and rs': "parse_rules compile trusted (Suc n) items = Inr rs'" by (auto simp: bindS_Inr)
  have "[n..<n + length (item # items)] = n # [Suc n..<Suc n + length items]" by (simp add: upt_conv_Cons del: upt_Suc)
  with parse_rule_Inr [OF r(1)] Cons.IH [OF rs'] r(2) show ?case by (simp del: upt_Suc)
qed simp

lemma sort_selection_rules_set [simp]: "set (sort_selection_rules rs) = set rs" "length (sort_selection_rules rs) = length rs"
  by (simp_all add: sort_selection_rules_def)

lemma sort_selection_rules_sorted: "sorted (map (\<lambda>r. (- rl_priority r, rl_index r)) (sort_selection_rules rs))"
  by (simp add: sort_selection_rules_def)

subsection \<open>Properties\<close>

text \<open>What a project may configure is bounded and harmless: parsed project rules are at most
  \<open>MAX_RULES\<close>, marked untrusted, carry no regular expression, and are ordered by descending
  priority and then by declaration.\<close>

lemma project_rules_bounded:
  assumes "parse_project_selection compile data = Inr cfg"
  shows "length (ps_rules cfg) \<le> MAX_RULES
    \<and> (\<forall>r \<in> set (ps_rules cfg). \<not> rl_trusted r \<and> rl_task_regexes r = [])
    \<and> sorted (map (\<lambda>r. (- rl_priority r, rl_index r)) (ps_rules cfg))"
proof (cases "ps_rules cfg = []")
  case False
  with assms obtain b rules where rules: "parse_selection_rules compile (get_or P_none b ''rules'') False 0 = Inr rules"
    "ps_rules cfg = sort_selection_rules rules"
    by (auto simp: parse_project_selection_def bindS_Inr ensure_Inr split: pyval.splits option.splits if_splits)
  have "length rules \<le> MAX_RULES \<and> (\<forall>r \<in> set rules. \<not> rl_trusted r \<and> rl_task_regexes r = [])"
    using rules(1)
    by (auto simp: parse_selection_rules_def bindS_Inr ensure_Inr MAX_RULES_def dest!: parse_rules_Inr split: pyval.splits)
  then show ?thesis by (simp add: rules(2) sort_selection_rules_sorted)
qed simp

definition demo_project :: pyval where
  "demo_project = P_dict [(''rules'', P_list
     [P_dict [(''runtime'', P_str ''codex''), (''when'', P_dict [(''tag'', P_str ''Docs'')])],
      P_dict [(''runtime'', P_str ''native''), (''priority'', P_int 5)]])]"

text \<open>A configured task pattern is lowered but the task is not: a trusted rule whose regular
  expression contains a capital letter never matches a task that contains exactly that text, for
  every reading of the pattern texts in which the lowered literal stands for itself.\<close>

lemma capital_task_pattern_never_matches:
  assumes "compile ''todo'' = Some (lit ''todo'')"
  shows "\<exists>rule. parse_selection_rules compile (P_list [P_dict [(''runtime'', P_str ''codex''),
      (''when'', P_dict [(''task_regex'', P_str ''TODO'')])]]) True 0 = Inr [rule]
    \<and> rl_task_regexes rule = [''todo'']
    \<and> (\<forall>request. rq_task request = ''fix TODO'' \<longrightarrow>
         rule_matches_request compile rule request EMPTY_TRAITS = (False, No_pattern))"
proof -
  let ?data = "P_list [P_dict [(''runtime'', P_str ''codex''), (''when'', P_dict [(''task_regex'', P_str ''TODO'')])]]"
  have low: "py_lower ''TODO'' = ''todo''" by code_simp
  have none: "\<not> search (lit ''todo'') ''fix TODO''" by code_simp
  obtain rule where rule: "parse_selection_rules compile ?data True 0 = Inr [rule]" "rl_task_regexes rule = [''todo'']"
    "rl_agents rule = []" "rl_modes rule = []" "rl_tags rule = []" "rl_workspace_kinds rule = []"
    "rl_permission_ceilings rule = []" "rl_languages rule = []" "rl_marker_files rule = []"
    "rl_task_substrings rule = []" "rl_task_globs rule = []" "rl_path_globs rule = []"
    by (simp add: parse_selection_rules_def parse_rule_def bindS_def ensure_def MAX_RULES_def no_keys_def only_keys_def
        FORBIDDEN_RULE_FIELDS_def RULE_TOP_FIELDS_def get_or_def canonical_when_key_def WHEN_ALIASES_def norm_set_def
        low MAX_PATTERNS_PER_RULE_def MAX_PATTERN_CHARS_def assms make_rule_def bucket_def)
  have "rule_matches_request compile rule request EMPTY_TRAITS = (False, No_pattern)" if "rq_task request = ''fix TODO''" for request
    using none by (simp add: rule_matches_request_def rule that assms MAX_TASK_CHARS_def)
  with rule show ?thesis by blast
qed

end
