(* ===== verification/Selection.thy ===== *)
theory Selection
  imports Selection_Rules
begin

text \<open>
  Pre-start safety and the precedence chain of initial runtime selection
  (\<open>garuda/runtime/selection/constraints.py\<close> and the synchronous path of \<open>facade.py\<close>): the bounded
  walk that detects repository traits, the validation of a candidate, the chain explicit, profile
  pin, trusted rules, authorized project rules, default, native, and the single startup fallback.

  What a directory read answers is a record of functions. The texts of the explanation are
  constructors of \<open>sel_note\<close>. The change set that \<open>garuda/workspace/diff.py\<close> computes for the
  startup fallback is an argument.
\<close>

subsection \<open>Repository traits\<close>

definition SKIPPED_DIRS :: "string list" where
  "SKIPPED_DIRS = [''.git'', ''node_modules'', ''__pycache__'', ''.venv'', ''venv'', ''target'', ''dist'', ''build'',
     ''.tox'', ''.mypy_cache'', ''.pytest_cache'']"

definition EXTENSION_LANGUAGES :: "string dict" where
  "EXTENSION_LANGUAGES =
     [(''.py'', ''python''), (''.js'', ''javascript''), (''.jsx'', ''javascript''), (''.ts'', ''typescript''),
      (''.tsx'', ''typescript''), (''.mjs'', ''javascript''), (''.cjs'', ''javascript''), (''.go'', ''go''),
      (''.rs'', ''rust''), (''.java'', ''java''), (''.rb'', ''ruby''), (''.php'', ''php''), (''.cs'', ''csharp''),
      (''.cpp'', ''cpp''), (''.cc'', ''cpp''), (''.cxx'', ''cpp''), (''.h'', ''c''), (''.hpp'', ''cpp''), (''.c'', ''c''),
      (''.swift'', ''swift''), (''.kt'', ''kotlin''), (''.scala'', ''scala''), (''.sh'', ''shell''), (''.bash'', ''shell''),
      (''.ps1'', ''powershell''), (''.sql'', ''sql''), (''.r'', ''r''), (''.lua'', ''lua''), (''.ex'', ''elixir''),
      (''.exs'', ''elixir''), (''.erl'', ''erlang''), (''.hs'', ''haskell''), (''.ml'', ''ocaml''),
      (''.tf'', ''terraform''), (''.yaml'', ''yaml''), (''.yml'', ''yaml''), (''.toml'', ''toml''), (''.json'', ''json''),
      (''.md'', ''markdown''), (''.html'', ''html''), (''.css'', ''css'')]"

definition FILENAME_LANGUAGES :: "string dict" where
  "FILENAME_LANGUAGES = [(''dockerfile'', ''docker''), (''makefile'', ''make''), (''cmakelists.txt'', ''cmake'')]"

text \<open>
  A workspace: whether the root is a directory; the entries of a directory given by its components
  below the root, each with whether it is a directory (\<open>None\<close> is an \<open>OSError\<close>); and whether a name
  in the root is a file.
\<close>

record workspace_fs =
  root_is_dir :: bool
  scandir :: "string list \<Rightarrow> (string \<times> bool option) list option"
  is_file :: "string \<Rightarrow> bool option"

record walk_state =
  wk_languages :: "string list"
  wk_markers :: "string list"
  wk_files :: "string list"
  wk_entries :: nat
  wk_truncated :: bool
  wk_stack :: "(string list \<times> nat) list"

text \<open>\<open>Path(name).suffix\<close> of a single component.\<close>

definition name_suffix :: "string \<Rightarrow> string" where
  "name_suffix name =
     (let ext = after_last (CHR ''.'') name in
      if CHR ''.'' \<in> set name \<and> ext \<noteq> [] \<and> length ext + 1 < length name then CHR ''.'' # ext else [])"

definition language_of :: "string \<Rightarrow> string option" where
  "language_of lowered =
     (case dict_get EXTENSION_LANGUAGES (name_suffix lowered) of
        Some l \<Rightarrow> Some l
      | None \<Rightarrow> dict_get FILENAME_LANGUAGES lowered)"

definition add_file :: "string list \<Rightarrow> nat \<Rightarrow> string \<Rightarrow> walk_state \<Rightarrow> walk_state" where
  "add_file cur depth name st =
     (let lowered = py_lower name in
      st\<lparr>wk_files := wk_files st @ [join_path (cur @ [name])],
         wk_markers := (if depth = 0 then List.insert lowered (wk_markers st) else wk_markers st),
         wk_languages := (case language_of lowered of None \<Rightarrow> wk_languages st | Some l \<Rightarrow> List.insert l (wk_languages st))\<rparr>)"

fun walk_names :: "nat \<Rightarrow> nat \<Rightarrow> nat \<Rightarrow> string list \<Rightarrow> nat \<Rightarrow> (string \<times> bool option) list \<Rightarrow> walk_state \<Rightarrow> walk_state" where
  "walk_names max_files max_entries max_depth cur depth [] st = st"
| "walk_names max_files max_entries max_depth cur depth ((name, is_dir) # names) st =
     (let st1 = st\<lparr>wk_entries := Suc (wk_entries st)\<rparr> in
      if wk_entries st1 > max_entries \<or> length (wk_files st1) \<ge> max_files then st1\<lparr>wk_truncated := True\<rparr>
      else walk_names max_files max_entries max_depth cur depth names
             (case is_dir of
                None \<Rightarrow> st1
              | Some True \<Rightarrow>
                  if depth < max_depth \<and> name \<notin> set SKIPPED_DIRS
                  then st1\<lparr>wk_stack := (cur @ [name], Suc depth) # wk_stack st1\<rparr> else st1
              | Some False \<Rightarrow> add_file cur depth name st1))"

lemma add_file_other [simp]:
  "wk_entries (add_file cur depth name st) = wk_entries st" "wk_stack (add_file cur depth name st) = wk_stack st"
  "length (wk_files (add_file cur depth name st)) = Suc (length (wk_files st))"
  by (simp_all add: add_file_def Let_def)

lemma walk_names_entries: "wk_entries st \<le> wk_entries (walk_names mf me md cur d names st)"
proof (induction mf me md cur d names st rule: walk_names.induct)
  case (2 mf me md cur d name is_dir names st)
  then show ?case
    by (auto simp: Let_def split: option.splits bool.splits if_splits intro: Suc_leD)
qed simp

lemma walk_names_progress:
  "names \<noteq> [] \<Longrightarrow> wk_entries st < wk_entries (walk_names mf me md cur d names st)"
proof (cases names)
  case (Cons n ns)
  obtain name is_dir where n: "n = (name, is_dir)" by (cases n)
  let ?st1 = "st\<lparr>wk_entries := Suc (wk_entries st)\<rparr>"
  have "wk_entries st < wk_entries (walk_names mf me md cur d ns s)" if "wk_entries s = Suc (wk_entries st)" for s
    using walk_names_entries [of s mf me md cur d ns] that by simp
  then show ?thesis by (simp add: Cons n Let_def split: option.split bool.split)
qed simp

text \<open>The walk ends: a directory read counts entries, or the stack shrinks.\<close>

function walk :: "workspace_fs \<Rightarrow> nat \<Rightarrow> nat \<Rightarrow> nat \<Rightarrow> walk_state \<Rightarrow> walk_state" where
  "walk fs max_files max_entries max_depth st =
     (case wk_stack st of
        [] \<Rightarrow> st
      | (cur, depth) # rest \<Rightarrow>
          if length (wk_files st) < max_files \<and> wk_entries st < max_entries then
            (case scandir fs cur of
               None \<Rightarrow> walk fs max_files max_entries max_depth (st\<lparr>wk_stack := rest\<rparr>)
             | Some names \<Rightarrow>
                 walk fs max_files max_entries max_depth
                   (walk_names max_files max_entries max_depth cur depth (sort_key fst names) (st\<lparr>wk_stack := rest\<rparr>)))
          else st)"
  by pat_completeness auto

termination
proof (relation "measures [\<lambda>(fs, mf, me, md, st). me - wk_entries st, \<lambda>(fs, mf, me, md, st). length (wk_stack st)]", simp)
  fix fs mf me md and st :: walk_state and e rest cur depth
  assume "wk_stack st = e # rest" "(cur, depth) = e"
  then show "((fs, mf, me, md, st\<lparr>wk_stack := rest\<rparr>), fs, mf, me, md, st)
      \<in> measures [\<lambda>(fs, mf, me, md, st). me - wk_entries st, \<lambda>(fs, mf, me, md, st). length (wk_stack st)]" by simp
next
  fix fs mf me md and st :: walk_state and e rest cur depth and names :: "(string \<times> bool option) list"
  assume a: "wk_stack st = e # rest" "(cur, depth) = e" "length (wk_files st) < mf \<and> wk_entries st < me"
  let ?st = "walk_names mf me md cur depth (sort_key fst names) (st\<lparr>wk_stack := rest\<rparr>)"
  show "((fs, mf, me, md, ?st), fs, mf, me, md, st)
      \<in> measures [\<lambda>(fs, mf, me, md, st). me - wk_entries st, \<lambda>(fs, mf, me, md, st). length (wk_stack st)]"
  proof (cases "names = []")
    case True
    with a show ?thesis by simp
  next
    case False
    then have "sort_key fst names \<noteq> []" by (metis length_sort length_0_conv)
    from walk_names_progress [OF this, of "st\<lparr>wk_stack := rest\<rparr>" mf me md cur depth] a(3)
    have "me - wk_entries ?st < me - wk_entries st" by (simp add: diff_less_mono2)
    then show ?thesis by simp
  qed
qed

declare walk.simps [simp del]

definition probe_marker :: "workspace_fs \<Rightarrow> string list \<Rightarrow> string \<Rightarrow> string list" where
  "probe_marker fs markers marker =
     (let parts = path_parts marker in
      if marker = [] \<or> isabs marker \<or> ''..'' \<in> set parts \<or> length parts \<noteq> 1 then []
      else if py_lower marker \<in> set markers then []
      else if is_file fs marker = Some True then [py_lower marker] else [])"

definition detect_repo_traits :: "workspace_fs \<Rightarrow> string list \<Rightarrow> nat \<Rightarrow> nat \<Rightarrow> nat \<Rightarrow> repo_traits checked" where
  "detect_repo_traits fs markers max_files max_entries max_depth =
     bindS (ensure (length markers \<le> MAX_MARKER_CHECKS) ''trait detection'') (\<lambda>_.
       (let start = \<lparr>wk_languages = [], wk_markers = [], wk_files = [], wk_entries = 0, wk_truncated = False, wk_stack = []\<rparr>;
            st = (if root_is_dir fs then walk fs max_files max_entries max_depth (start\<lparr>wk_stack := [([], 0)]\<rparr>) else start);
            probed = concat (map (probe_marker fs (wk_markers st)) markers);
            files = sort (take max_files (wk_files st)) in
        Inr \<lparr>tr_languages = sort (wk_languages st), tr_marker_files = sort (remdups (wk_markers st @ probed)),
             tr_files = files, tr_file_count = length files,
             tr_truncated = (wk_truncated st \<or> wk_stack st \<noteq> [])\<rparr>))"

subsection \<open>Candidates\<close>

datatype refusal = Unavailable | Unhealthy | Not_authenticated | Lacks_capabilities "string list"
  | Workspace_unsupported | Ceiling_unsupported

definition missing_capabilities :: "string list \<Rightarrow> initial_candidate \<Rightarrow> string list" where
  "missing_capabilities wanted c = sort (remdups (filter (\<lambda>x. x \<notin> set (cd_capabilities c)) wanted))"

definition validate_candidate :: "initial_candidate \<Rightarrow> initial_request \<Rightarrow> refusal option" where
  "validate_candidate c request =
     (if \<not> cd_available c then Some Unavailable
      else if cd_health c = ''unavailable'' then Some Unhealthy
      else if cd_auth c = ''unauthenticated'' \<or> cd_auth c = ''expired'' then Some Not_authenticated
      else if missing_capabilities (rq_required_capabilities request) c \<noteq> []
      then Some (Lacks_capabilities (missing_capabilities (rq_required_capabilities request) c))
      else if (case cd_workspace_kinds c of None \<Rightarrow> False | Some ks \<Rightarrow> rq_workspace_kind request \<notin> set ks)
      then Some Workspace_unsupported
      else if (case cd_permission_ceilings c of None \<Rightarrow> False | Some ks \<Rightarrow> rq_permission_ceiling request \<notin> set ks)
      then Some Ceiling_unsupported
      else None)"

fun candidate_table :: "initial_candidate dict \<Rightarrow> initial_candidate list \<Rightarrow> initial_candidate dict checked" where
  "candidate_table table [] = Inr table"
| "candidate_table table (c # cs) =
     (if dict_get table (runtime_id c) \<noteq> None then Inl (Selection_error (runtime_id c))
      else candidate_table (dict_set (runtime_id c) c table) cs)"

text \<open>\<open>workspace_unchanged\<close>: the commit of the baseline and the change set, \<open>None\<close> if it cannot be computed.\<close>

definition workspace_unchanged :: "string \<Rightarrow> string list option \<Rightarrow> bool" where
  "workspace_unchanged commit delta \<longleftrightarrow> commit \<noteq> [] \<and> delta = Some []"

subsection \<open>The chain\<close>

datatype source = Explicit | Profile | Rule | Default | Native | Fallback

datatype sel_note = Unknown_runtime string string | Refused string refusal | Selected source string
  | Chosen source string | Rule_unknown string | Rule_incapable string "string list" | Rule_skipped string
  | Rule_selected string int string | Rules_considered nat | Project_authorized string
  | Project_selected string int string | Project_advisory | Default_refused | Unclassified string
  | Fallback_from string | Fallback_to string

record selection_run =
  rn_matches :: "(string \<times> string \<times> bool \<times> match_detail) list"
  rn_rejections :: "sel_note list"
  rn_rationale :: "sel_note list"
  rn_recommendations :: "(bool \<times> string \<times> string \<times> match_detail) list"

record initial_selection =
  sel_selected :: string
  sel_source :: source
  sel_rule_id :: "string option"
  sel_capabilities :: "string list"
  sel_candidates :: "string list"
  sel_run :: selection_run
  sel_classifier :: string
  sel_fallback_from :: "string option"

definition reject :: "sel_note \<Rightarrow> selection_run \<Rightarrow> selection_run" where
  "reject n run = run\<lparr>rn_rejections := rn_rejections run @ [n]\<rparr>"

definition reason :: "sel_note \<Rightarrow> selection_run \<Rightarrow> selection_run" where
  "reason n run = run\<lparr>rn_rationale := rn_rationale run @ [n]\<rparr>"

definition validated :: "initial_candidate dict \<Rightarrow> initial_request \<Rightarrow> string \<Rightarrow> string \<Rightarrow> selection_run
    \<Rightarrow> initial_candidate option \<times> selection_run" where
  "validated table request rid place run =
     (case dict_get table rid of
        None \<Rightarrow> (None, reason (Unknown_runtime place rid) (reject (Unknown_runtime place rid) run))
      | Some c \<Rightarrow>
          (case validate_candidate c request of
             Some why \<Rightarrow> (None, reason (Refused place why) (reject (Refused place why) run))
           | None \<Rightarrow> (Some c, run)))"

definition finish :: "initial_candidate dict \<Rightarrow> initial_candidate \<Rightarrow> source \<Rightarrow> string option \<Rightarrow> string
    \<Rightarrow> selection_run \<Rightarrow> initial_selection" where
  "finish table c src rid classifier run =
     \<lparr>sel_selected = runtime_id c, sel_source = src, sel_rule_id = rid, sel_capabilities = sort (cd_capabilities c),
      sel_candidates = sort (dict_keys table), sel_run = reason (Selected src (runtime_id c)) run,
      sel_classifier = classifier, sel_fallback_from = None\<rparr>"

text \<open>Why a rule's target cannot be used for the capabilities the rule asks for.\<close>

definition target_problem :: "initial_candidate dict \<Rightarrow> selection_rule \<Rightarrow> sel_note option" where
  "target_problem table rule =
     (if rl_capabilities rule = [] then None
      else case dict_get table (rl_runtime rule) of
          None \<Rightarrow> Some (Rule_unknown (rule_id rule))
        | Some c \<Rightarrow>
            (let missing = missing_capabilities (rl_capabilities rule) c in
             if missing \<noteq> [] then Some (Rule_incapable (rule_id rule) missing) else None))"

fun rule_loop :: "(string \<Rightarrow> rx option) \<Rightarrow> initial_candidate dict \<Rightarrow> initial_request \<Rightarrow> repo_traits
    \<Rightarrow> selection_rule list \<Rightarrow> selection_run \<Rightarrow> (initial_candidate \<times> selection_rule) option \<times> selection_run" where
  "rule_loop compile table request traits [] run = (None, run)"
| "rule_loop compile table request traits (rule # rules) run =
     (let (matched, detail) = rule_matches_request compile rule request traits;
          run1 = run\<lparr>rn_matches := rn_matches run @ [(rule_id rule, rl_runtime rule, matched, detail)]\<rparr> in
      if \<not> matched then rule_loop compile table request traits rules run1
      else case target_problem table rule of
          Some n \<Rightarrow> rule_loop compile table request traits rules (reason (Rule_skipped (rule_id rule)) (reject n run1))
        | None \<Rightarrow>
            (case validated table request (rl_runtime rule) (rule_id rule) run1 of
               (None, run2) \<Rightarrow> rule_loop compile table request traits rules run2
             | (Some c, run2) \<Rightarrow>
                 (Some (c, rule), reason (Rule_selected (rule_id rule) (rl_priority rule) (runtime_id c)) run2)))"

fun project_loop :: "(string \<Rightarrow> rx option) \<Rightarrow> bool \<Rightarrow> initial_candidate dict \<Rightarrow> initial_request \<Rightarrow> repo_traits
    \<Rightarrow> selection_rule list \<Rightarrow> selection_run \<Rightarrow> (initial_candidate \<times> selection_rule) option \<times> selection_run" where
  "project_loop compile trust table request traits [] run = (None, run)"
| "project_loop compile trust table request traits (rule # rules) run =
     (let (matched, detail) = rule_matches_request compile rule request traits;
          run1 = run\<lparr>rn_recommendations := rn_recommendations run @ [(matched, rule_id rule, rl_runtime rule, detail)]\<rparr> in
      if \<not> matched \<or> \<not> trust then project_loop compile trust table request traits rules run1
      else
        (let run2 = reason (Project_authorized (rule_id rule)) run1 in
         case target_problem table rule of
           Some n \<Rightarrow> project_loop compile trust table request traits rules (reject n run2)
         | None \<Rightarrow>
             (case validated table request (rl_runtime rule) (rule_id rule) run2 of
                (None, run3) \<Rightarrow> project_loop compile trust table request traits rules run3
              | (Some c, run3) \<Rightarrow>
                  (Some (c, rule), reason (Project_selected (rule_id rule) (rl_priority rule) (runtime_id c)) run3))))"

text \<open>A pinned runtime, explicit or by profile: it is used or the selection fails.\<close>

definition pinned :: "initial_candidate dict \<Rightarrow> initial_request \<Rightarrow> source \<Rightarrow> string \<Rightarrow> selection_run \<Rightarrow> initial_selection checked" where
  "pinned table request src rid run =
     (case dict_get table rid of
        None \<Rightarrow> Inl (Selection_error rid)
      | Some c \<Rightarrow>
          (case validate_candidate c request of
             Some why \<Rightarrow> Inl (Selection_error rid)
           | None \<Rightarrow> Inr (finish table c src None ''not_invoked'' (reason (Chosen src rid) run))))"

definition deterministic :: "(string \<Rightarrow> rx option) \<Rightarrow> initial_request \<Rightarrow> initial_candidate dict \<Rightarrow> selection_rule list
    \<Rightarrow> selection_rule list \<Rightarrow> repo_traits \<Rightarrow> bool \<Rightarrow> selection_run \<Rightarrow> (initial_selection option \<times> selection_run) checked" where
  "deterministic compile request table ordered ordered_project traits trust run =
     (case rq_explicit_runtime request of
        Some rid \<Rightarrow> bindS (pinned table request Explicit rid run) (\<lambda>sel. Inr (Some sel, run))
      | None \<Rightarrow>
          (case rq_profile_pin request of
             Some rid \<Rightarrow> bindS (pinned table request Profile rid run) (\<lambda>sel. Inr (Some sel, run))
           | None \<Rightarrow>
               (case rule_loop compile table request traits ordered run of
                  (Some (c, rule), run1) \<Rightarrow> Inr (Some (finish table c Rule (Some (rule_id rule)) ''not_invoked'' run1), run1)
                | (None, run1) \<Rightarrow>
                    (let run2 = reason (Rules_considered (length ordered)) run1 in
                     case project_loop compile trust table request traits ordered_project run2 of
                       (Some (c, rule), run3) \<Rightarrow> Inr (Some (finish table c Rule (Some (rule_id rule)) ''not_invoked'' run3), run3)
                     | (None, run3) \<Rightarrow>
                         Inr (None, if ordered_project \<noteq> [] \<and> \<not> trust then reason Project_advisory run3 else run3)))))"

definition native_tail :: "initial_candidate dict \<Rightarrow> initial_request \<Rightarrow> string \<Rightarrow> selection_run \<Rightarrow> initial_selection checked" where
  "native_tail table request classifier run =
     (case dict_get table ''native'' of
        None \<Rightarrow> Inl (Selection_error ''native'')
      | Some c \<Rightarrow>
          (case validate_candidate c request of
             Some why \<Rightarrow> Inl (Selection_error ''native'')
           | None \<Rightarrow> Inr (finish table c Native None classifier (reason (Chosen Native ''native'') run))))"

definition tail :: "initial_candidate dict \<Rightarrow> initial_request \<Rightarrow> string \<Rightarrow> selection_run \<Rightarrow> initial_selection checked" where
  "tail table request classifier run =
     (case rq_default_runtime request of
        None \<Rightarrow> native_tail table request classifier run
      | Some rid \<Rightarrow>
          (case validated table request rid ''default'' run of
             (Some c, run1) \<Rightarrow> Inr (finish table c Default None classifier (reason (Chosen Default rid) run1))
           | (None, run1) \<Rightarrow> native_tail table request classifier (reason Default_refused run1)))"

definition select_initial :: "(string \<Rightarrow> rx option) \<Rightarrow> initial_request \<Rightarrow> initial_candidate list \<Rightarrow> selection_rule list
    \<Rightarrow> selection_rule list \<Rightarrow> repo_traits option \<Rightarrow> bool \<Rightarrow> initial_selection checked" where
  "select_initial compile request candidates rules project_rules traits trust =
     bindS (ensure (candidates \<noteq> []) ''candidates'') (\<lambda>_.
     bindS (candidate_table [] candidates) (\<lambda>table.
       (let run0 = \<lparr>rn_matches = [], rn_rejections = [], rn_rationale = [], rn_recommendations = []\<rparr>;
            tr = (case traits of None \<Rightarrow> EMPTY_TRAITS | Some t \<Rightarrow> t) in
        bindS (deterministic compile request table (sort_selection_rules rules) (sort_selection_rules project_rules)
                 tr trust run0) (\<lambda>(decided, run).
          case decided of
            Some sel \<Rightarrow> Inr sel
          | None \<Rightarrow> tail table request ''not_configured'' (reason (Unclassified ''not_configured'') run)))))"

definition select_startup_fallback :: "initial_selection \<Rightarrow> initial_request \<Rightarrow> initial_candidate list \<Rightarrow> string
    \<Rightarrow> string list option \<Rightarrow> initial_selection checked" where
  "select_startup_fallback selection request candidates commit delta =
     bindS (ensure (workspace_unchanged commit delta) ''startup fallback'') (\<lambda>_.
     bindS (candidate_table [] candidates) (\<lambda>table.
       (let target = (case rq_fallback_runtime request of None \<Rightarrow> ''native'' | Some r \<Rightarrow> if r = [] then ''native'' else r) in
        bindS (ensure (target \<noteq> sel_selected selection) target) (\<lambda>_.
          (case dict_get table target of
             None \<Rightarrow> Inl (Selection_error target)
           | Some c \<Rightarrow>
               (case validate_candidate c request of
                  Some why \<Rightarrow> Inl (Selection_error target)
                | None \<Rightarrow>
                    Inr (selection\<lparr>sel_selected := runtime_id c, sel_source := Fallback, sel_rule_id := None,
                      sel_capabilities := sort (cd_capabilities c), sel_candidates := sort (dict_keys table),
                      sel_run := reason (Fallback_to target) (reason (Fallback_from (sel_selected selection)) (sel_run selection)),
                      sel_fallback_from := Some (sel_selected selection)\<rparr>)))))))"

subsection \<open>Bounds of the walk\<close>

lemma walk_names_bounds:
  "length (wk_files st) \<le> mf \<Longrightarrow> wk_entries st \<le> Suc me \<Longrightarrow>
   length (wk_files (walk_names mf me md cur d names st)) \<le> mf
   \<and> wk_entries (walk_names mf me md cur d names st) \<le> max (Suc me) (Suc (wk_entries st))"
proof (induction mf me md cur d names st rule: walk_names.induct)
  case (2 mf me md cur d name is_dir names st)
  let ?st1 = "st\<lparr>wk_entries := Suc (wk_entries st)\<rparr>"
  show ?case
  proof (cases "wk_entries ?st1 > me \<or> length (wk_files ?st1) \<ge> mf")
    case True
    with 2 show ?thesis by (simp add: Let_def max_def)
  next
    case False
    have "length (wk_files s) \<le> mf \<Longrightarrow> wk_entries s = Suc (wk_entries st) \<Longrightarrow>
        s = (case is_dir of None \<Rightarrow> ?st1
              | Some True \<Rightarrow> if d < md \<and> name \<notin> set SKIPPED_DIRS then ?st1\<lparr>wk_stack := (cur @ [name], Suc d) # wk_stack ?st1\<rparr> else ?st1
              | Some False \<Rightarrow> add_file cur d name ?st1) \<Longrightarrow>
        length (wk_files (walk_names mf me md cur d names s)) \<le> mf \<and> wk_entries (walk_names mf me md cur d names s) \<le> Suc me" for s
      using "2.IH" [OF refl False] False by (auto simp: max_def split: if_splits)
    with False "2.prems" show ?thesis
      by (auto simp: Let_def max_def split: option.split bool.split)
  qed
qed simp

lemma walk_bounds:
  "length (wk_files st) \<le> mf \<Longrightarrow> wk_entries st \<le> Suc me \<Longrightarrow>
   length (wk_files (walk fs mf me md st)) \<le> mf \<and> wk_entries (walk fs mf me md st) \<le> Suc me"
proof (induction fs mf me md st rule: walk.induct)
  case (1 fs mf me md st)
  show ?case
  proof (cases "wk_stack st")
    case Nil
    with "1.prems" show ?thesis by (subst (1 2) walk.simps) simp
  next
    case (Cons e rest)
    obtain cur d where e: "e = (cur, d)" by (cases e)
    show ?thesis
    proof (cases "length (wk_files st) < mf \<and> wk_entries st < me")
      case False
      then have "walk fs mf me md st = st" by (subst walk.simps) (auto simp: Cons e)
      with "1.prems" show ?thesis by simp
    next
      case True
      show ?thesis
      proof (cases "scandir fs cur")
        case None
        with 1(1) [OF Cons e [symmetric] True None] "1.prems" True Cons e show ?thesis by (subst (1 2) walk.simps) simp
      next
        case (Some names)
        have "length (wk_files (walk_names mf me md cur d (sort_key fst names) (st\<lparr>wk_stack := rest\<rparr>))) \<le> mf
            \<and> wk_entries (walk_names mf me md cur d (sort_key fst names) (st\<lparr>wk_stack := rest\<rparr>)) \<le> Suc me"
          using walk_names_bounds [of "st\<lparr>wk_stack := rest\<rparr>" mf me md cur d "sort_key fst names"] True
          by (auto simp: max_def split: if_splits)
        with 1(2) [OF Cons e [symmetric] True Some] True Some Cons e show ?thesis by (subst (1 2) walk.simps) simp
      qed
    qed
  qed
qed

lemma detect_repo_traits_bounds:
  assumes "detect_repo_traits fs markers mf me md = Inr tr"
  shows "length (tr_files tr) \<le> mf \<and> tr_file_count tr = length (tr_files tr) \<and> sorted (tr_files tr)
    \<and> length markers \<le> MAX_MARKER_CHECKS"
  using assms by (auto simp: detect_repo_traits_def bindS_Inr ensure_Inr Let_def)

subsection \<open>Laws of the chain\<close>

lemma candidate_table_get:
  "candidate_table t cs = Inr t' \<Longrightarrow> dict_get t' rid = Some c \<Longrightarrow>
   dict_get t rid = Some c \<or> (c \<in> set cs \<and> runtime_id c = rid)"
proof (induction t cs rule: candidate_table.induct)
  case (2 t d cs)
  then show ?case by (auto simp: dict_simps split: if_splits)
qed simp

text \<open>A candidate the chain may return: in the table under its id, and startable for the request.\<close>

definition startable :: "initial_candidate dict \<Rightarrow> initial_request \<Rightarrow> string \<Rightarrow> initial_candidate \<Rightarrow> bool" where
  "startable table request rid c \<longleftrightarrow> dict_get table rid = Some c \<and> validate_candidate c request = None"

lemma validated_startable: "validated table request rid place run = (Some c, run') \<Longrightarrow> startable table request rid c"
  by (auto simp: validated_def startable_def split: option.splits)

lemma rule_loop_startable:
  "rule_loop compile table request traits rules run = (Some (c, rule), run') \<Longrightarrow>
   rule \<in> set rules \<and> startable table request (rl_runtime rule) c"
proof (induction compile table request traits rules run rule: rule_loop.induct)
  case (2 compile table request traits r rules run)
  then show ?case
    by (auto simp: Let_def dest: validated_startable split: prod.splits if_splits option.splits)
qed simp

lemma project_loop_startable:
  "project_loop compile trust table request traits rules run = (Some (c, rule), run') \<Longrightarrow>
   trust \<and> rule \<in> set rules \<and> startable table request (rl_runtime rule) c"
proof (induction compile trust table request traits rules run rule: project_loop.induct)
  case (2 compile trust table request traits r rules run)
  then show ?case
    by (auto simp: Let_def dest: validated_startable split: prod.splits if_splits option.splits)
qed simp

lemma project_loop_untrusted: "fst (project_loop compile False table request traits rules run) = None"
  using project_loop_startable [of compile False table request traits rules run]
  by (cases "project_loop compile False table request traits rules run"; cases "fst (project_loop compile False table request traits rules run)") auto

lemma pinned_Inr:
  "pinned table request src rid run = Inr sel \<longleftrightarrow>
     (\<exists>c. startable table request rid c \<and> sel = finish table c src None ''not_invoked'' (reason (Chosen src rid) run))"
  by (auto simp: pinned_def startable_def split: option.splits)

lemma native_tail_Inr:
  "native_tail table request k run = Inr sel \<Longrightarrow> \<exists>c. startable table request ''native'' c \<and> sel_selected sel = runtime_id c \<and> sel_source sel = Native"
  by (auto simp: native_tail_def startable_def finish_def split: option.splits)

lemma tail_Inr:
  "tail table request k run = Inr sel \<Longrightarrow>
   \<exists>rid c. startable table request rid c \<and> sel_selected sel = runtime_id c \<and> sel_source sel \<in> {Default, Native}"
  by (auto simp: tail_def finish_def dest!: native_tail_Inr split: option.splits prod.splits)
     (blast dest: validated_startable)+

lemma deterministic_Inr:
  assumes "deterministic compile request table ordered project traits trust run = Inr (Some sel, run')"
  shows "\<exists>rid c. startable table request rid c \<and> sel_selected sel = runtime_id c
    \<and> (rq_explicit_runtime request = Some r \<longrightarrow> sel_source sel = Explicit \<and> rid = r)
    \<and> (rq_explicit_runtime request = None \<and> rq_profile_pin request = Some p \<longrightarrow> sel_source sel = Profile \<and> rid = p)"
  using assms unfolding deterministic_def
  by (auto simp: bindS_Inr pinned_Inr finish_def Let_def dest!: rule_loop_startable project_loop_startable
      split: option.splits prod.splits) blast+

lemma deterministic_None:
  assumes "deterministic compile request table ordered project traits trust run = Inr (None, run')"
  shows "rq_explicit_runtime request = None \<and> rq_profile_pin request = None"
  using assms unfolding deterministic_def by (auto simp: bindS_Inr split: option.splits)

definition outcome :: "initial_selection checked \<Rightarrow> (string \<times> source \<times> string option) checked" where
  "outcome r = map_sum id (\<lambda>s. (sel_selected s, sel_source s, sel_rule_id s)) r"

lemma outcome_finish [simp]:
  "outcome (Inr (finish table c src rid k run)) = Inr (runtime_id c, src, rid)"
  "outcome (Inl e) = Inl e"
  by (simp_all add: outcome_def finish_def)

lemma outcome_tail: "outcome (tail table request k run) = outcome (tail table request k run')"
  by (auto simp: tail_def native_tail_def validated_def split: option.splits)

lemma deterministic_project_inert:
  "map_sum id (\<lambda>(d, _). map_option (\<lambda>s. (sel_selected s, sel_source s, sel_rule_id s)) d)
     (deterministic compile request table ordered project traits False run)
   = map_sum id (\<lambda>(d, _). map_option (\<lambda>s. (sel_selected s, sel_source s, sel_rule_id s)) d)
     (deterministic compile request table ordered [] traits False run)"
proof -
  obtain found r1 where loop: "rule_loop compile table request traits ordered run = (found, r1)" by fastforce
  obtain r2 where project: "project_loop compile False table request traits project
      (reason (Rules_considered (length ordered)) r1) = (None, r2)"
    using project_loop_untrusted [of compile table request traits project "reason (Rules_considered (length ordered)) r1"]
    by (metis prod.collapse)
  show ?thesis
  proof (cases "rq_explicit_runtime request")
    case None
    then show ?thesis
      by (cases "rq_profile_pin request"; cases found) (simp_all add: deterministic_def loop project Let_def split: prod.splits)
  qed (simp add: deterministic_def)
qed

lemma select_outcome:
  "outcome (select_initial compile request candidates rules project_rules traits trust) =
     bindS (ensure (candidates \<noteq> []) ''candidates'') (\<lambda>_. bindS (candidate_table [] candidates) (\<lambda>table.
       bindS (map_sum id (\<lambda>(d, _). map_option (\<lambda>s. (sel_selected s, sel_source s, sel_rule_id s)) d)
         (deterministic compile request table (sort_selection_rules rules) (sort_selection_rules project_rules)
           (case traits of None \<Rightarrow> EMPTY_TRAITS | Some t \<Rightarrow> t) trust
           \<lparr>rn_matches = [], rn_rejections = [], rn_rationale = [], rn_recommendations = []\<rparr>))
       (\<lambda>d. case d of Some out \<Rightarrow> Inr out
          | None \<Rightarrow> outcome (tail table request ''not_configured''
              \<lparr>rn_matches = [], rn_rejections = [], rn_rationale = [], rn_recommendations = []\<rparr>))))"
  unfolding select_initial_def Let_def
  by (auto simp: bindS_def split: sum.splits prod.splits option.splits)
     (auto simp: outcome_def intro: outcome_tail [unfolded outcome_def])

subsection \<open>Properties\<close>

text \<open>C38. What is selected can start, and pins are obeyed: a successful selection names a given
  candidate that passes validation for the request; an explicit runtime, or without one a profile
  pin, is what is selected, never something else.\<close>

theorem selected_runtime_can_start:
  assumes "select_initial compile request candidates rules project_rules traits trust = Inr sel"
  shows "(\<exists>c \<in> set candidates. runtime_id c = sel_selected sel \<and> validate_candidate c request = None)
    \<and> (rq_explicit_runtime request = Some r \<longrightarrow> sel_selected sel = r \<and> sel_source sel = Explicit)
    \<and> (rq_explicit_runtime request = None \<and> rq_profile_pin request = Some p
         \<longrightarrow> sel_selected sel = p \<and> sel_source sel = Profile)"
proof -
  obtain table decided run where table: "candidate_table [] candidates = Inr table"
    and det: "deterministic compile request table (sort_selection_rules rules) (sort_selection_rules project_rules)
        (case traits of None \<Rightarrow> EMPTY_TRAITS | Some t \<Rightarrow> t) trust
        \<lparr>rn_matches = [], rn_rejections = [], rn_rationale = [], rn_recommendations = []\<rparr> = Inr (decided, run)"
    and sel: "(case decided of Some s \<Rightarrow> Inr s
      | None \<Rightarrow> tail table request ''not_configured'' (reason (Unclassified ''not_configured'') run)) = Inr sel"
    using assms by (auto simp: select_initial_def bindS_Inr Let_def split: prod.splits)
  have listed: "c \<in> set candidates \<and> runtime_id c = rid \<and> validate_candidate c request = None"
    if "startable table request rid c" for rid c
    using candidate_table_get [OF table] that by (auto simp: startable_def)
  show ?thesis
  proof (cases decided)
    case None
    with sel have "tail table request ''not_configured'' (reason (Unclassified ''not_configured'') run) = Inr sel" by simp
    from tail_Inr [OF this] obtain rid c where c: "startable table request rid c" "sel_selected sel = runtime_id c" by blast
    have "rq_explicit_runtime request = None" "rq_profile_pin request = None"
      using deterministic_None [OF det [unfolded None]] by simp_all
    with listed [OF c(1)] c(2) show ?thesis by auto
  next
    case (Some s)
    with sel have "s = sel" by simp
    from deterministic_Inr [OF det [unfolded Some], of r p] obtain rid c
      where c: "startable table request rid c" "sel_selected s = runtime_id c"
        and e: "rq_explicit_runtime request = Some r \<Longrightarrow> sel_source s = Explicit \<and> rid = r"
        and p: "rq_explicit_runtime request = None \<Longrightarrow> rq_profile_pin request = Some p \<Longrightarrow> sel_source s = Profile \<and> rid = p"
      by blast
    from listed [OF c(1)] c(2) have l: "c \<in> set candidates" "runtime_id c = rid" "validate_candidate c request = None"
      "sel_selected s = rid" by simp_all
    show ?thesis unfolding \<open>s = sel\<close> [symmetric]
      using l e p by (intro conjI impI bexI [of _ c]) simp_all
  qed
qed

definition demo_candidate :: "string \<Rightarrow> initial_candidate" where
  "demo_candidate rid = \<lparr>runtime_id = rid, cd_kind = ''acp'', cd_available = True, cd_health = ''ok'', cd_auth = ''unknown'',
     cd_capabilities = [], cd_workspace_kinds = None, cd_permission_ceilings = None, cd_version = ''unknown'',
     cd_unavailable_reason = []\<rparr>"

definition demo_request :: initial_request where
  "demo_request = \<lparr>rq_task = ''fix it'', rq_tags = [], rq_agent = [], rq_mode = [], rq_workspace_kind = ''local'',
     rq_permission_ceiling = ''smart'', rq_explicit_runtime = Some ''codex'', rq_profile_pin = None,
     rq_default_runtime = None, rq_fallback_runtime = None, rq_required_capabilities = []\<rparr>"

theorem selected_runtime_can_start_witness:
  "\<exists>sel. select_initial (\<lambda>_. None) demo_request [demo_candidate ''native'', demo_candidate ''codex''] [] [] None False = Inr sel
     \<and> sel_selected sel = ''codex''"
proof -
  let ?r = "select_initial (\<lambda>_. None) demo_request [demo_candidate ''native'', demo_candidate ''codex''] [] [] None False"
  have "\<not> isl ?r" by code_simp
  then obtain sel where sel: "?r = Inr sel" by (cases ?r) auto
  have "rq_explicit_runtime demo_request = Some ''codex''" by (simp add: demo_request_def)
  with selected_runtime_can_start [OF sel, of "''codex''"] have "sel_selected sel = ''codex''" by blast
  with sel show ?thesis by blast
qed


text \<open>C40. Selection never gets stuck while the built-in runtime can start: with distinct candidates,
  no explicit runtime and no profile pin, and a native candidate that passes validation, a runtime
  is selected whatever the rules, the traits and the configured default are.\<close>

theorem native_makes_selection_total:
  assumes "rq_explicit_runtime request = None" "rq_profile_pin request = None"
    and "candidate_table [] candidates = Inr table" "dict_get table ''native'' = Some c" "validate_candidate c request = None"
  shows "\<exists>sel. select_initial compile request candidates rules project_rules traits trust = Inr sel"
proof -
  let ?run = "\<lparr>rn_matches = [], rn_rejections = [], rn_rationale = [], rn_recommendations = []\<rparr>"
  let ?tr = "case traits of None \<Rightarrow> EMPTY_TRAITS | Some t \<Rightarrow> t"
  have "candidates \<noteq> []" using assms(3,4) by (cases candidates) auto
  moreover obtain decided run where "deterministic compile request table (sort_selection_rules rules)
      (sort_selection_rules project_rules) ?tr trust ?run = Inr (decided, run)"
    using assms(1,2) by (fastforce simp: deterministic_def Let_def split: option.splits prod.splits)
  moreover obtain sel where "tail table request ''not_configured'' (reason (Unclassified ''not_configured'') run) = Inr sel"
    using assms(4,5) by (fastforce simp: tail_def native_tail_def split: option.splits prod.splits)
  ultimately show ?thesis
    using assms(3) by (cases decided) (simp_all add: select_initial_def bindS_def ensure_def Let_def)
qed

theorem native_makes_selection_total_witness:
  "\<exists>sel. select_initial (\<lambda>_. None) (demo_request\<lparr>rq_explicit_runtime := None, rq_default_runtime := Some ''gone''\<rparr>)
     [demo_candidate ''native''] [] [] None True = Inr sel"
  by (rule native_makes_selection_total [where table = "[(''native'', demo_candidate ''native'')]" and c = "demo_candidate ''native''"])
     (simp_all add: demo_request_def demo_candidate_def validate_candidate_def missing_capabilities_def)

end
