(* ===== verification/Transcript.thy ===== *)
theory Transcript
  imports Prelude "HOL-Library.Multiset"
begin

text \<open>
  The conversation of a run and the order in which a provider accepts it
  (\<open>garuda/types.py\<close> and \<open>order_tool_results\<close> of \<open>garuda/context/manager.py\<close>).

  A message carries the identity of its Python object (\<open>oid\<close>), because the condensers compare
  messages by identity and rewrite some of them in place.

  \<open>answered\<close> is what the rest of the harness maintains: every call of an assistant message has a
  tool message with its id before the next assistant or system message. \<open>valid_request\<close> is what a
  provider demands: those tool messages follow the call immediately. \<open>order_tool_results\<close> turns the
  first into the second without losing or duplicating a message.
\<close>

subsection \<open>Messages\<close>

datatype role = SYSTEM | USER | ASSISTANT | TOOL

record tool_call =
  call_id :: string
  call_name :: string
  arguments :: "pyval dict"

record message =
  oid :: nat
  role :: role
  content :: string
  message_name :: "string option"
  tool_call_id :: "string option"
  tool_calls :: "tool_call list"
  metadata :: "pyval dict"
  images :: "string list"

definition plain_message :: "nat \<Rightarrow> role \<Rightarrow> string \<Rightarrow> message" where
  "plain_message n r txt = \<lparr>oid = n, role = r, content = txt, message_name = None, tool_call_id = None,
     tool_calls = [], metadata = [], images = []\<rparr>"

definition tool_message :: "nat \<Rightarrow> string \<Rightarrow> tool_call \<Rightarrow> message" where
  "tool_message n txt call = \<lparr>oid = n, role = TOOL, content = txt, message_name = Some (call_name call),
     tool_call_id = Some (call_id call), tool_calls = [], metadata = [], images = []\<rparr>"

subsection \<open>\<open>order_tool_results\<close>\<close>

definition boundary :: "message \<Rightarrow> bool" where
  "boundary m \<longleftrightarrow> role m = ASSISTANT \<or> role m = SYSTEM"

definition calls_tools :: "message \<Rightarrow> bool" where
  "calls_tools m \<longleftrightarrow> role m = ASSISTANT \<and> tool_calls m \<noteq> []"

definition expected :: "message \<Rightarrow> string list" where
  "expected m = map call_id (tool_calls m)"

definition answers :: "string list \<Rightarrow> message \<Rightarrow> bool" where
  "answers ids m \<longleftrightarrow> role m = TOOL \<and> (case tool_call_id m of None \<Rightarrow> False | Some i \<Rightarrow> i \<in> set ids)"

text \<open>The inner loop of \<open>_has_displaced_tool_result\<close>, over the messages up to the next boundary.\<close>

fun interrupted_answer :: "string list \<Rightarrow> bool \<Rightarrow> message list \<Rightarrow> bool" where
  "interrupted_answer ids interrupted [] = False"
| "interrupted_answer ids interrupted (m # ms) =
     (if answers ids m then interrupted \<or> interrupted_answer ids interrupted ms
      else interrupted_answer ids True ms)"

fun has_displaced_tool_result :: "message list \<Rightarrow> bool" where
  "has_displaced_tool_result [] = False"
| "has_displaced_tool_result (m # ms) =
     ((calls_tools m \<and> interrupted_answer (expected m) False (takeWhile (\<lambda>x. \<not> boundary x) ms))
      \<or> has_displaced_tool_result ms)"

function order_walk :: "message list \<Rightarrow> message list" where
  "order_walk [] = []"
| "order_walk (m # ms) =
     (if \<not> calls_tools m then m # order_walk ms
      else m # filter (answers (expected m)) (takeWhile (\<lambda>x. \<not> boundary x) ms)
             @ filter (\<lambda>x. \<not> answers (expected m) x) (takeWhile (\<lambda>x. \<not> boundary x) ms)
             @ order_walk (dropWhile (\<lambda>x. \<not> boundary x) ms))"
  by pat_completeness auto
termination by (relation "measure length") (auto simp: le_imp_less_Suc length_dropWhile_le)

definition order_tool_results :: "message list \<Rightarrow> message list" where
  "order_tool_results ms = (if has_displaced_tool_result ms then order_walk ms else ms)"

subsection \<open>Answered calls\<close>

text \<open>One pass from the left: whether every earlier call was answered in its block, and the ids the
  current block still owes.\<close>

definition scan_message :: "message \<Rightarrow> bool \<times> string set \<Rightarrow> bool \<times> string set" where
  "scan_message m st =
     (if boundary m then (fst st \<and> snd st = {}, if role m = ASSISTANT then set (expected m) else {})
      else if role m = TOOL then (fst st, snd st - set_option (tool_call_id m))
      else st)"

definition scan :: "message list \<Rightarrow> bool \<times> string set" where
  "scan ms = fold scan_message ms (True, {})"

definition owed :: "message list \<Rightarrow> string set" where
  "owed ms = snd (scan ms)"

definition answered_before :: "message list \<Rightarrow> bool" where
  "answered_before ms \<longleftrightarrow> fst (scan ms)"

definition answered :: "message list \<Rightarrow> bool" where
  "answered ms \<longleftrightarrow> scan ms = (True, {})"

text \<open>The provider's rule.\<close>

fun valid_request :: "message list \<Rightarrow> bool" where
  "valid_request [] = True"
| "valid_request (m # ms) =
     ((calls_tools m \<longrightarrow>
        set (expected m) \<subseteq> set (List.map_filter tool_call_id (takeWhile (\<lambda>x. role x = TOOL) ms)))
      \<and> valid_request ms)"

named_theorems scan_simps \<open>effect of one appended message on the scan\<close>

lemma scan_Nil [scan_simps]: "scan [] = (True, {})"
  by (simp add: scan_def)

lemma scan_snoc [scan_simps]: "scan (ms @ [m]) = scan_message m (scan ms)"
  by (simp add: scan_def)

lemma answered_iff: "answered ms \<longleftrightarrow> answered_before ms \<and> owed ms = {}"
  by (simp add: answered_def answered_before_def owed_def prod_eq_iff)

lemma answered_Nil [simp]: "answered []"
  by (simp add: answered_def scan_simps)

lemma role_simps [simp]:
  "role (plain_message n r txt) = r" "role (tool_message n txt c) = TOOL"
  "tool_call_id (tool_message n txt c) = Some (call_id c)" "tool_calls (plain_message n r txt) = []"
  "oid (plain_message n r txt) = n" "oid (tool_message n txt c) = n" "content (plain_message n r txt) = txt"
  by (simp_all add: plain_message_def tool_message_def)

lemma scan_user [scan_simps]: "role m = USER \<Longrightarrow> scan (ms @ [m]) = scan ms"
  by (simp add: scan_snoc scan_message_def boundary_def)

lemma scan_users: "\<forall>m \<in> set us. role m = USER \<Longrightarrow> scan (ms @ us) = scan ms"
proof (induction us rule: rev_induct)
  case (snoc u us)
  then show ?case by (simp add: scan_user flip: append_assoc)
qed simp

lemma scan_tool [scan_simps]:
  "role m = TOOL \<Longrightarrow> scan (ms @ [m]) = (fst (scan ms), snd (scan ms) - set_option (tool_call_id m))"
  by (simp add: scan_snoc scan_message_def boundary_def)

lemma scan_assistant [scan_simps]:
  "role m = ASSISTANT \<Longrightarrow> scan (ms @ [m]) = (answered ms, set (expected m))"
  by (cases "scan ms") (simp add: scan_snoc scan_message_def boundary_def answered_def)

lemma scan_system:
  "role m = SYSTEM \<Longrightarrow> scan (ms @ [m]) = (answered ms, {})"
  by (cases "scan ms") (simp add: scan_snoc scan_message_def boundary_def answered_def)

lemma scan_message_tool: "role m = TOOL \<Longrightarrow> scan_message m st = (fst st, snd st - set_option (tool_call_id m))"
  by (simp add: scan_message_def boundary_def)

lemma scan_message_plain: "\<not> boundary m \<Longrightarrow> role m \<noteq> TOOL \<Longrightarrow> scan_message m st = st"
  by (simp add: scan_message_def)

text \<open>A failed scan stays failed, and a boundary demands that nothing is owed.\<close>

lemma fold_scan_False: "\<not> fst st \<Longrightarrow> \<not> fst (fold scan_message ms st)"
  by (induction ms arbitrary: st) (auto simp: scan_message_def)

lemma fold_scan_boundary:
  assumes "fold scan_message (m # ms) st = (True, {})" "boundary m"
  shows "fst st \<and> snd st = {} \<and> fold scan_message (m # ms) (True, {}) = (True, {})"
proof -
  from assms have ok: "fst st \<and> snd st = {}"
    using fold_scan_False [of "scan_message m st" ms] by (auto simp: scan_message_def)
  then have "scan_message m st = scan_message m (True, {})" using assms(2) by (simp add: scan_message_def)
  with assms(1) ok show ?thesis by simp
qed

text \<open>The part of an answered conversation from a boundary on is answered, and so is a part before one.\<close>

lemma answered_suffix: "answered (ms @ m # ns) \<Longrightarrow> boundary m \<Longrightarrow> answered ms \<and> answered (m # ns)"
  using fold_scan_boundary [of m ns "scan ms"] by (cases "scan ms") (auto simp: answered_def scan_def)

lemma fold_scan_fewer:
  "fold scan_message ms (True, S') = (True, {}) \<Longrightarrow> S \<subseteq> S' \<Longrightarrow> fold scan_message ms (True, S) = (True, {})"
proof (induction ms arbitrary: S S')
  case (Cons m ms)
  show ?case
  proof (cases "boundary m")
    case True
    from fold_scan_boundary [OF Cons.prems(1) this] Cons.prems(2) have "S = S'" by simp
    with Cons.prems(1) show ?thesis by simp
  next
    case False
    show ?thesis
    proof (cases "role m = TOOL")
      case True
      with Cons.prems(1) have "fold scan_message ms (True, S' - set_option (tool_call_id m)) = (True, {})"
        by (simp add: scan_message_tool)
      from Cons.IH [OF this, of "S - set_option (tool_call_id m)"] Cons.prems(2) True
      show ?thesis by (auto simp: scan_message_tool)
    qed (use False Cons in \<open>simp add: scan_message_plain\<close>)
  qed
qed simp

lemma answered_tail: "answered (m # ms) \<Longrightarrow> answered ms"
proof -
  assume a: "answered (m # ms)"
  obtain b S where st: "scan_message m (True, {}) = (b, S)" by fastforce
  with a have f: "fold scan_message ms (b, S) = (True, {})" by (simp add: answered_def scan_def)
  then have b using fold_scan_False [of "(b, S)" ms] by (cases b) auto
  with f show ?thesis using fold_scan_fewer [of ms S "{}"] by (simp add: answered_def scan_def)
qed

text \<open>What may be dropped or inserted anywhere: user messages, and system messages may be dropped.\<close>

lemma fold_scan_filter:
  assumes "\<And>m. m \<in> set ms \<Longrightarrow> \<not> P m \<Longrightarrow> role m = USER \<or> role m = SYSTEM"
    and "fold scan_message ms st = (True, {})" "fst st"
  shows "fold scan_message (filter P ms) st = (True, {})"
  using assms
proof (induction ms arbitrary: st)
  case (Cons m ms)
  have later: "fold scan_message ms (scan_message m st) = (True, {})" using Cons.prems(2) by simp
  have fst: "fst (scan_message m st)"
    using later fold_scan_False [of "scan_message m st" ms] by (metis fst_conv)
  have IH: "fold scan_message (filter P ms) (scan_message m st) = (True, {})"
    using Cons.IH [OF _ later fst] Cons.prems(1) by simp
  show ?case
  proof (cases "P m")
    case False
    with Cons.prems(1) have r: "role m = USER \<or> role m = SYSTEM" by simp
    have "scan_message m st = st"
    proof (cases "role m = USER")
      case True
      then show ?thesis by (simp add: scan_message_def boundary_def)
    next
      case False
      with r have sys: "role m = SYSTEM" "boundary m" by (simp_all add: boundary_def)
      from fold_scan_boundary [OF Cons.prems(2) sys(2)] have "fst st" "snd st = {}" by blast+
      with sys show ?thesis by (cases st) (simp add: scan_message_def)
    qed
    with IH False show ?thesis by simp
  qed (use IH in simp)
qed simp

lemma answered_filter:
  "answered ms \<Longrightarrow> (\<And>m. m \<in> set ms \<Longrightarrow> \<not> P m \<Longrightarrow> role m = USER \<or> role m = SYSTEM) \<Longrightarrow> answered (filter P ms)"
  by (simp add: answered_def scan_def fold_scan_filter)

lemma answered_insert_user: "answered (ms @ ns) \<Longrightarrow> role m = USER \<Longrightarrow> answered (ms @ m # ns)"
  by (simp add: answered_def scan_def scan_message_def boundary_def)

lemma answered_prepend:
  "answered ns \<Longrightarrow> (\<And>m. m \<in> set us \<Longrightarrow> role m = USER \<or> role m = SYSTEM) \<Longrightarrow> answered (us @ ns)"
proof (induction us)
  case (Cons u us)
  have "role u = USER \<or> role u = SYSTEM" by (rule Cons.prems(2)) simp
  then have "scan_message u (True, {}) = (True, {})" by (auto simp: scan_message_def boundary_def)
  with Cons show ?case by (simp add: answered_def scan_def)
qed simp

lemma answered_drop_tools: "answered ms \<Longrightarrow> answered (dropWhile (\<lambda>m. role m = TOOL) ms)"
  by (induction ms) (auto simp: answered_def scan_def scan_message_def boundary_def)

lemma scan_message_cong:
  "role m = role m' \<Longrightarrow> tool_call_id m = tool_call_id m' \<Longrightarrow> expected m = expected m'
   \<Longrightarrow> scan_message m = scan_message m'"
  by (simp add: scan_message_def boundary_def fun_eq_iff)

subsection \<open>Correctness of the reordering\<close>

lemma mset_order_walk: "mset (order_walk ms) = mset ms"
proof (induction ms rule: order_walk.induct)
  case (2 m ms)
  have "mset ms = mset (takeWhile (\<lambda>x. \<not> boundary x) ms) + mset (dropWhile (\<lambda>x. \<not> boundary x) ms)"
    by (metis mset_append takeWhile_dropWhile_id)
  moreover have "mset (filter P xs) + mset (filter (\<lambda>x. \<not> P x) xs) = mset xs" for P and xs :: "message list"
    by (simp add: multiset_partition [symmetric])
  ultimately show ?case using 2 by (auto simp: ac_simps)
qed simp

lemma interrupted_answer_True: "interrupted_answer ids True ms \<longleftrightarrow> list_ex (answers ids) ms"
  by (induction ms) auto

lemma interrupted_answer_append:
  "list_all (answers ids) xs \<Longrightarrow> interrupted_answer ids False (xs @ ys) = interrupted_answer ids False ys"
  by (induction xs) auto

lemma not_interrupted_answer: "list_all (\<lambda>m. \<not> answers ids m) ms \<Longrightarrow> \<not> interrupted_answer ids b ms"
  by (induction ms arbitrary: b) auto

lemma order_walk_boundary:
  "takeWhile (\<lambda>x. \<not> boundary x) (xs @ ys) = xs @ takeWhile (\<lambda>x. \<not> boundary x) ys"
  if "list_all (\<lambda>x. \<not> boundary x) xs"
  using that by (simp add: list_all_iff)

lemma takeWhile_order_walk:
  "ms = [] \<or> boundary (hd ms) \<Longrightarrow> takeWhile (\<lambda>x. \<not> boundary x) (order_walk ms) = []"
  by (cases ms) auto

lemma dropWhile_starts: "dropWhile (\<lambda>x. \<not> P x) ms = [] \<or> P (hd (dropWhile (\<lambda>x. \<not> P x) ms))"
  using hd_dropWhile [of "\<lambda>x. \<not> P x" ms] by blast

lemma has_displaced_plain:
  "list_all (\<lambda>x. \<not> boundary x) xs \<Longrightarrow> has_displaced_tool_result (xs @ ys) = has_displaced_tool_result ys"
  by (induction xs) (auto simp: calls_tools_def boundary_def)

lemma order_walk_ordered: "\<not> has_displaced_tool_result (order_walk ms)"
proof (induction ms rule: order_walk.induct)
  case (2 m ms)
  let ?block = "takeWhile (\<lambda>x. \<not> boundary x) ms" and ?rest = "dropWhile (\<lambda>x. \<not> boundary x) ms"
  let ?yes = "filter (answers (expected m)) ?block" and ?no = "filter (\<lambda>x. \<not> answers (expected m) x) ?block"
  show ?case
  proof (cases "calls_tools m")
    case False
    with 2(1) show ?thesis by simp
  next
    case True
    have block: "list_all (\<lambda>x. \<not> boundary x) (?yes @ ?no)"
      by (auto simp: list_all_iff dest: set_takeWhileD)
    have tail: "takeWhile (\<lambda>x. \<not> boundary x) (order_walk ?rest) = []"
      by (rule takeWhile_order_walk [OF dropWhile_starts])
    have "takeWhile (\<lambda>x. \<not> boundary x) ((?yes @ ?no) @ order_walk ?rest) = ?yes @ ?no"
      using order_walk_boundary [OF block, of "order_walk ?rest"] tail by simp
    moreover have "\<not> interrupted_answer (expected m) False (?yes @ ?no)"
      using not_interrupted_answer [of "expected m" ?no False] by (simp add: interrupted_answer_append list_all_iff)
    moreover have "has_displaced_tool_result ((?yes @ ?no) @ order_walk ?rest) = has_displaced_tool_result (order_walk ?rest)"
      by (rule has_displaced_plain [OF block])
    ultimately show ?thesis using True 2(2) by simp
  qed
qed simp

lemma uninterrupted_split:
  "\<not> interrupted_answer ids False ms \<Longrightarrow> filter (answers ids) ms @ filter (\<lambda>x. \<not> answers ids x) ms = ms"
proof (induction ms)
  case (Cons m ms)
  show ?case
  proof (cases "answers ids m")
    case False
    with Cons.prems have "\<not> list_ex (answers ids) ms" by (simp add: interrupted_answer_True)
    then have "filter (answers ids) ms = []" "filter (\<lambda>x. \<not> answers ids x) ms = ms"
      by (simp_all add: list_ex_iff filter_empty_conv filter_id_conv)
    with False show ?thesis by simp
  qed (use Cons in simp)
qed simp

lemma order_walk_id: "\<not> has_displaced_tool_result ms \<Longrightarrow> order_walk ms = ms"
proof (induction ms rule: order_walk.induct)
  case (2 m ms)
  let ?block = "takeWhile (\<lambda>x. \<not> boundary x) ms" and ?rest = "dropWhile (\<lambda>x. \<not> boundary x) ms"
  show ?case
  proof (cases "calls_tools m")
    case False
    with 2 show ?thesis by simp
  next
    case True
    with "2.prems" have "\<not> interrupted_answer (expected m) False ?block" "\<not> has_displaced_tool_result ms" by simp_all
    moreover from this(2) have "\<not> has_displaced_tool_result ?rest"
      using has_displaced_plain [of ?block ?rest] set_takeWhileD [of _ "\<lambda>x. \<not> boundary x" ms]
      by (auto simp: list_all_iff)
    ultimately have "order_walk ?rest = ?rest"
      "filter (answers (expected m)) ?block @ filter (\<lambda>x. \<not> answers (expected m) x) ?block = ?block"
      using 2(2) [OF _] True uninterrupted_split by simp_all
    moreover from this(2) have "filter (answers (expected m)) ?block
        @ filter (\<lambda>x. \<not> answers (expected m) x) ?block @ ?rest = ms"
      by (metis append_assoc takeWhile_dropWhile_id)
    ultimately show ?thesis using True by simp
  qed
qed simp

text \<open>In an answered conversation without displaced results every call is followed by its results.\<close>

lemma uninterrupted_prefix:
  "\<not> interrupted_answer ids False ms \<Longrightarrow>
     filter (answers ids) ms = takeWhile (answers ids) ms"
  by (induction ms) (auto simp: interrupted_answer_True list_ex_iff filter_empty_conv)

lemma takeWhile_answers_tools:
  "set (takeWhile (answers ids) (takeWhile (\<lambda>x. \<not> boundary x) ms)) \<subseteq> set (takeWhile (\<lambda>x. role x = TOOL) ms)"
  by (induction ms) (auto simp: answers_def)

lemma owed_block:
  "fold scan_message ms (True, S) = (True, {}) \<Longrightarrow>
     S \<subseteq> set (List.map_filter tool_call_id (filter (\<lambda>x. role x = TOOL) (takeWhile (\<lambda>x. \<not> boundary x) ms)))"
proof (induction ms arbitrary: S)
  case (Cons m ms)
  show ?case
  proof (cases "boundary m")
    case True
    from fold_scan_boundary [OF Cons.prems this] show ?thesis by simp
  next
    case False
    with Cons.prems Cons.IH [of "if role m = TOOL then S - set_option (tool_call_id m) else S"]
    show ?thesis by (cases "tool_call_id m") (auto simp: scan_message_def map_filter_simps split: if_splits)
  qed
qed simp

lemma answered_valid: "answered ms \<Longrightarrow> \<not> has_displaced_tool_result ms \<Longrightarrow> valid_request ms"
proof (induction ms)
  case (Cons m ms)
  let ?block = "takeWhile (\<lambda>x. \<not> boundary x) ms"
  have fold: "fold scan_message ms (scan_message m (True, {})) = (True, {})"
    using Cons.prems(1) by (simp add: answered_def scan_def)
  have here: "set (expected m) \<subseteq> set (List.map_filter tool_call_id (takeWhile (\<lambda>x. role x = TOOL) ms))" if c: "calls_tools m"
  proof
    fix i assume i: "i \<in> set (expected m)"
    from c have "scan_message m (True, {}) = (True, set (expected m))"
      by (simp add: calls_tools_def scan_message_def boundary_def)
    with owed_block [of ms "set (expected m)"] fold i obtain t
      where t: "t \<in> set ?block" "role t = TOOL" "tool_call_id t = Some i" by (auto simp: map_filter_def)
    with i have "t \<in> set (filter (answers (expected m)) ?block)" by (simp add: answers_def)
    also from Cons.prems(2) c have "filter (answers (expected m)) ?block = takeWhile (answers (expected m)) ?block"
      by (simp add: uninterrupted_prefix)
    finally have "t \<in> set (takeWhile (\<lambda>x. role x = TOOL) ms)" using takeWhile_answers_tools by blast
    with t(3) show "i \<in> set (List.map_filter tool_call_id (takeWhile (\<lambda>x. role x = TOOL) ms))"
      by (force simp: map_filter_def)
  qed
  have "valid_request ms" using Cons.IH [OF answered_tail [OF Cons.prems(1)]] Cons.prems(2) by simp
  with here show ?case by simp
qed simp

lemma fold_scan_block:
  "list_all (\<lambda>x. \<not> boundary x) ms \<Longrightarrow>
     fold scan_message ms st = (fst st, snd st - set (List.map_filter tool_call_id (filter (\<lambda>x. role x = TOOL) ms)))"
proof (induction ms arbitrary: st)
  case (Cons m ms)
  then show ?case
    by (cases "tool_call_id m") (auto simp: scan_message_def map_filter_simps Cons.IH)
qed (simp add: map_filter_simps)

lemma fold_scan_order_walk: "fold scan_message (order_walk ms) st = fold scan_message ms st"
proof (induction ms arbitrary: st rule: order_walk.induct)
  case (2 m ms)
  let ?block = "takeWhile (\<lambda>x. \<not> boundary x) ms" and ?rest = "dropWhile (\<lambda>x. \<not> boundary x) ms"
  let ?yes = "filter (answers (expected m)) ?block" and ?no = "filter (\<lambda>x. \<not> answers (expected m) x) ?block"
  show ?case
  proof (cases "calls_tools m")
    case False
    with 2(1) show ?thesis by simp
  next
    case True
    have plain: "list_all (\<lambda>x. \<not> boundary x) ?block" "list_all (\<lambda>x. \<not> boundary x) (?yes @ ?no)"
      by (auto simp: list_all_iff dest: set_takeWhileD)
    have same: "set (List.map_filter tool_call_id (filter (\<lambda>x. role x = TOOL) (?yes @ ?no)))
        = set (List.map_filter tool_call_id (filter (\<lambda>x. role x = TOOL) ?block))"
      by (auto simp: map_filter_def)
    have "fold scan_message (?yes @ ?no) u = fold scan_message ?block u" for u
      unfolding fold_scan_block [OF plain(1)] fold_scan_block [OF plain(2)] same ..
    then have "fold scan_message (order_walk (m # ms)) st
        = fold scan_message (order_walk ?rest) (fold scan_message ?block (scan_message m st))"
      using True by simp
    also have "\<dots> = fold scan_message (?block @ ?rest) (scan_message m st)"
    proof -
      have "fold scan_message (order_walk ?rest) u = fold scan_message ?rest u" for u using 2(2) True by simp
      then show ?thesis by (simp only: fold_append comp_apply)
    qed
    finally show ?thesis by (simp only: takeWhile_dropWhile_id fold.simps comp_apply)
  qed
qed simp

lemma answered_order_walk: "answered (order_walk ms) = answered ms"
  by (simp add: answered_def scan_def fold_scan_order_walk)

lemma answered_order: "answered (order_tool_results ms) = answered ms"
  by (simp add: order_tool_results_def answered_order_walk)

subsection \<open>Property\<close>

text \<open>C13. \<open>order_tool_results\<close> never loses, adds or changes a message, leaves a conversation alone that has
  no displaced result, and from any conversation whose calls are all answered before the next
  assistant or system message it makes one a provider accepts: every call is followed immediately
  by its results.\<close>

theorem order_tool_results_correct:
  "mset (order_tool_results ms) = mset ms
   \<and> (has_displaced_tool_result ms \<or> order_tool_results ms = ms)
   \<and> \<not> has_displaced_tool_result (order_tool_results ms)
   \<and> (\<not> answered ms \<or> valid_request (order_tool_results ms))"
proof -
  have ordered: "\<not> has_displaced_tool_result (order_tool_results ms)"
    by (simp add: order_tool_results_def order_walk_ordered)
  moreover have "valid_request (order_tool_results ms)" if "answered ms"
    using answered_valid [OF _ ordered] that by (simp add: answered_order)
  ultimately show ?thesis by (auto simp: order_tool_results_def mset_order_walk)
qed

definition demo_call :: tool_call where
  "demo_call = \<lparr>call_id = ''1'', call_name = ''bash'', arguments = []\<rparr>"

definition demo_transcript :: "message list" where
  "demo_transcript =
     [plain_message 0 SYSTEM ''s'', (plain_message 1 ASSISTANT [])\<lparr>tool_calls := [demo_call]\<rparr>,
      plain_message 2 USER ''note'', tool_message 3 ''done'' demo_call]"

theorem order_tool_results_correct_witness:
  "map oid (order_tool_results demo_transcript) = [0, 1, 3, 2] \<and> valid_request (order_tool_results demo_transcript)
    \<and> \<not> valid_request demo_transcript"
proof -
  have "answered demo_transcript" by code_simp
  then have "valid_request (order_tool_results demo_transcript)" using order_tool_results_correct [of demo_transcript] by blast
  moreover have "map oid (order_tool_results demo_transcript) = [0, 1, 3, 2]" by code_simp
  moreover have "\<not> valid_request demo_transcript" by code_simp
  ultimately show ?thesis by blast
qed

end
