(* ===== verification/Context.thy ===== *)
theory Context
  imports Transcript
begin

text \<open>
  What keeps a conversation inside the model's window: the condensers
  (\<open>garuda/context/condenser.py\<close>) and the token gauge, the proactive and the forced compaction of
  \<open>ContextManager\<close> (\<open>garuda/context/manager.py\<close>).

  The numbers a tokenizer or \<open>json.dumps\<close> gives, the text of a summary the model wrote (\<open>None\<close> is a
  failed call), the text left in place of a pruned output and the text of an archive pointer are
  parameters of the environment; \<open>fresh\<close> numbers the calls that may answer differently each time
  and the objects the code creates. Fractions are exact rationals.

  The lemmas show that compaction keeps every answered call answered, keeps the system prompt and
  the task, and never reuses an object identity.
\<close>

subsection \<open>Environment\<close>

record context_env =
  max_context_tokens :: int
  reserved_output_tokens :: int
  safety_margin_tokens :: int
  proactive_threshold :: int
  keep_recent_turns :: int
  three_step_summary :: bool
  has_buffer :: bool
  json_chars :: "pyval \<Rightarrow> int"
  args_text :: "pyval dict \<Rightarrow> string"
  repr_text :: "string \<Rightarrow> string"
  count_request :: "message list \<Rightarrow> int"
  tools_tokens :: int
  summary_call :: "nat \<Rightarrow> string \<Rightarrow> message list \<Rightarrow> string option"
  prune_stub :: "nat \<Rightarrow> message \<Rightarrow> string \<times> pyval option"
  archive_pointer :: "nat \<Rightarrow> message list \<Rightarrow> string \<times> pyval"

subsection \<open>Pruning\<close>

definition PRUNE_MIN_CHARS :: nat where "PRUNE_MIN_CHARS = 500"

text \<open>\<open>_window_boundary\<close>: the index of the assistant message that is \<open>keep\<close> turns from the end, or 0.\<close>

fun window_scan :: "int \<Rightarrow> int \<Rightarrow> (nat \<times> message) list \<Rightarrow> nat" where
  "window_scan keep turns [] = 0"
| "window_scan keep turns ((i, m) # rest) =
     (if role m = ASSISTANT
      then (if turns + 1 \<ge> keep then i else window_scan keep (turns + 1) rest)
      else window_scan keep turns rest)"

definition window_boundary :: "message list \<Rightarrow> int \<Rightarrow> nat" where
  "window_boundary ms keep = window_scan keep 0 (rev (enumerate 0 ms))"

fun oversized :: "nat \<Rightarrow> pyval \<Rightarrow> bool" where
  "oversized maxlen (P_str v) = (length v > maxlen)"
| "oversized maxlen v = False"

fun prune_value :: "context_env \<Rightarrow> nat \<Rightarrow> string \<Rightarrow> string \<times> pyval \<Rightarrow> string \<times> pyval" where
  "prune_value env maxlen tool (key, P_str v) =
     (key, if length v > maxlen
           then P_str (''[pruned to save context: '' @ show_nat (length v) @ '' chars of '' @ repr_text env key
                       @ '' passed to '' @ tool @ '']'')
           else P_str v)"
| "prune_value env maxlen tool (key, v) = (key, v)"

definition prune_call :: "context_env \<Rightarrow> nat \<Rightarrow> tool_call \<Rightarrow> tool_call" where
  "prune_call env maxlen c = c\<lparr>arguments := map (prune_value env maxlen (call_name c)) (arguments c)\<rparr>"

definition prune_tool_call_arguments :: "context_env \<Rightarrow> nat \<Rightarrow> message \<Rightarrow> message \<times> bool" where
  "prune_tool_call_arguments env maxlen m =
     (if flag_set ''args_pruned'' (metadata m) then (m, False)
      else if list_ex (\<lambda>c. list_ex (\<lambda>(_, v). oversized maxlen v) (arguments c)) (tool_calls m)
      then (m\<lparr>tool_calls := map (prune_call env maxlen) (tool_calls m),
              metadata := dict_set ''args_pruned'' (P_bool True) (metadata m)\<rparr>, True)
      else (m, False))"

text \<open>The body of the loop of \<open>microcompact_messages\<close>. The text and the descriptor a pruned output is
  left with are \<open>prune_stub\<close>: they depend on the output buffer.\<close>

definition prune_output :: "context_env \<Rightarrow> nat \<Rightarrow> message \<Rightarrow> message" where
  "prune_output env n m =
     (let (txt, capture) = prune_stub env n m;
          meta = (case capture of None \<Rightarrow> metadata m | Some d \<Rightarrow> dict_set ''artifact_capture'' d (metadata m)) in
      m\<lparr>content := txt, metadata := dict_set ''pruned'' (P_bool True) meta\<rparr>)"

definition prune_message :: "context_env \<Rightarrow> nat \<Rightarrow> nat \<Rightarrow> message \<Rightarrow> message \<times> nat" where
  "prune_message env maxlen n m =
     (let (m1, changed) = (if calls_tools m then prune_tool_call_arguments env maxlen m else (m, False));
          k = (if changed then 1 else 0) in
      if role m1 = TOOL \<and> length (content m1) > maxlen \<and> \<not> flag_set ''pruned'' (metadata m1)
      then (prune_output env n m1, k + 1) else (m1, k))"

fun prune_messages :: "context_env \<Rightarrow> nat \<Rightarrow> nat \<Rightarrow> message list \<Rightarrow> message list \<times> nat \<times> nat" where
  "prune_messages env maxlen n [] = ([], 0, n)"
| "prune_messages env maxlen n (m # ms) =
     (let (m1, k) = prune_message env maxlen n m; (ms1, j, n1) = prune_messages env maxlen (Suc n) ms in (m1 # ms1, k + j, n1))"

definition microcompact_messages :: "context_env \<Rightarrow> int \<Rightarrow> nat \<Rightarrow> nat \<Rightarrow> message list \<Rightarrow> message list \<times> nat \<times> nat" where
  "microcompact_messages env keep maxlen n ms =
     (let b = window_boundary ms keep; (old, pruned, n1) = prune_messages env maxlen n (take b ms) in
      (old @ drop b ms, pruned, n1))"

subsection \<open>Rebuilding\<close>

text \<open>The backward loop of \<open>recent_messages\<close>, collecting in order.\<close>

fun recent_scan :: "int \<Rightarrow> nat list \<Rightarrow> int \<Rightarrow> message list \<Rightarrow> message list \<Rightarrow> message list" where
  "recent_scan keep exclude turns collected [] = collected"
| "recent_scan keep exclude turns collected (m # ms) =
     (if role m = SYSTEM \<or> oid m \<in> set exclude then recent_scan keep exclude turns collected ms
      else let turns1 = (if role m = ASSISTANT then turns + 1 else turns) in
        if turns1 \<ge> keep then m # collected
        else recent_scan keep exclude turns1 (m # collected) ms)"

definition recent_messages :: "message list \<Rightarrow> int \<Rightarrow> nat list \<Rightarrow> message list" where
  "recent_messages ms keep exclude =
     (if keep \<le> 0 then []
      else dropWhile (\<lambda>m. role m = TOOL) (recent_scan keep exclude 0 [] (rev ms)))"

definition head_system :: "message list \<Rightarrow> message option" where
  "head_system ms = (case ms of [] \<Rightarrow> None | m # _ \<Rightarrow> if role m = SYSTEM then Some m else None)"

definition task_message :: "message list \<Rightarrow> message option" where
  "task_message ms = find (\<lambda>m. role m = USER) ms"

definition anchors :: "message list \<Rightarrow> message list" where
  "anchors ms = (case head_system ms of None \<Rightarrow> [] | Some m \<Rightarrow> [m]) @ (case task_message ms of None \<Rightarrow> [] | Some m \<Rightarrow> [m])"

definition summary_message :: "nat \<Rightarrow> string \<Rightarrow> message" where
  "summary_message n summary = plain_message n USER (''Conversation summary (context compacted):'' @ [CHR 0x0A] @ summary)"

definition rebuild_with_summary :: "nat \<Rightarrow> message list \<Rightarrow> string \<Rightarrow> int \<Rightarrow> message list" where
  "rebuild_with_summary n ms summary keep =
     anchors ms @ [summary_message n summary] @ recent_messages ms keep (map oid (anchors ms))"

definition window_rebuild :: "message list \<Rightarrow> int \<Rightarrow> message list" where
  "window_rebuild ms keep = anchors ms @ recent_messages ms keep (map oid (anchors ms))"

fun role_value :: "role \<Rightarrow> string" where
  "role_value SYSTEM = ''system''"
| "role_value USER = ''user''"
| "role_value ASSISTANT = ''assistant''"
| "role_value TOOL = ''tool''"

fun join_with :: "string \<Rightarrow> string list \<Rightarrow> string" where
  "join_with sep [] = []"
| "join_with sep [x] = x"
| "join_with sep (x # y # ys) = x @ sep @ join_with sep (y # ys)"

definition summary_line :: "context_env \<Rightarrow> message \<Rightarrow> string" where
  "summary_line env m =
     (let snippet = take 500 (content m);
          calls = join_with '', '' (map (\<lambda>c. call_name c @ ''('' @ take 200 (args_text env (arguments c)) @ '')'') (tool_calls m)) in
      ''- '' @ role_value (role m) @ '': ''
        @ (if tool_calls m = [] then snippet else py_strip (snippet @ '' [tool calls: '' @ calls @ '']'')))"

definition compact_summary :: "context_env \<Rightarrow> message list \<Rightarrow> string" where
  "compact_summary env ms = join_with [CHR 0x0A] (map (summary_line env) (drop (length ms - 40) ms))"

subsection \<open>Strategies\<close>

record microcompact =
  microcompact_fraction :: rat
  prune_min_chars :: nat
  last_summary_len :: nat
  running_state :: string

datatype condenser = Microcompact microcompact | Recent_window rat | Summarizing

datatype compaction = Pruned nat | Summarized | Windowed

definition RESUMMARIZE_MIN_GROWTH :: nat where "RESUMMARIZE_MIN_GROWTH = 8"
definition CRITICAL_FRACTION :: rat where "CRITICAL_FRACTION = 92 / 100"

fun make_condenser :: "string \<Rightarrow> condenser option" where
  "make_condenser name =
     (if name = ''microcompact''
      then Some (Microcompact \<lparr>microcompact_fraction = 3 / 4, prune_min_chars = PRUNE_MIN_CHARS, last_summary_len = 0, running_state = []\<rparr>)
      else if name = ''recent_window'' then Some (Recent_window (85 / 100))
      else if name = ''summarizing'' then Some Summarizing
      else None)"

fun reset_condenser :: "condenser \<Rightarrow> condenser" where
  "reset_condenser (Microcompact mc) = Microcompact (mc\<lparr>running_state := [], last_summary_len := 0\<rparr>)"
| "reset_condenser c = c"

text \<open>What a strategy is told (\<open>CondenserContext\<close>), and what its pass gives: the new history, or
  \<open>None\<close> to leave it; the history as the pass left the existing objects; the strategy's own state;
  its verdict; and the next fresh number.\<close>

record condense_request =
  cr_messages :: "message list"
  cr_used :: int
  cr_capacity :: int
  cr_keep :: int

definition usage_of :: "condense_request \<Rightarrow> rat" where
  "usage_of cr = (if cr_capacity cr \<le> 0 then 0 else of_int (cr_used cr) / of_int (cr_capacity cr))"

record condensed =
  cd_new :: "message list option"
  cd_old :: "message list"
  cd_strategy :: condenser
  cd_outcome :: "compaction option"
  cd_fresh :: nat

definition unchanged_history :: "condense_request \<Rightarrow> condenser \<Rightarrow> nat \<Rightarrow> condensed" where
  "unchanged_history cr c n = \<lparr>cd_new = None, cd_old = cr_messages cr, cd_strategy = c, cd_outcome = None, cd_fresh = n\<rparr>"

definition micro_summarize :: "context_env \<Rightarrow> microcompact \<Rightarrow> nat \<Rightarrow> message list \<Rightarrow> string \<times> microcompact" where
  "micro_summarize env mc n ms =
     (if \<not> three_step_summary env then (compact_summary env ms, mc)
      else case summary_call env n (running_state mc) ms of
          Some s \<Rightarrow> (s, mc\<lparr>running_state := s\<rparr>)
        | None \<Rightarrow> (compact_summary env ms, mc))"

definition micro_condense :: "context_env \<Rightarrow> condense_request \<Rightarrow> microcompact \<Rightarrow> nat \<Rightarrow> condensed" where
  "micro_condense env cr mc n =
     (if usage_of cr < microcompact_fraction mc then unchanged_history cr (Microcompact mc) n
      else
       (let (ms, pruned, n1) = microcompact_messages env (cr_keep cr) (prune_min_chars mc) n (cr_messages cr);
            cr1 = cr\<lparr>cr_messages := ms\<rparr> in
        if pruned > 0
        then \<lparr>cd_new = Some ms, cd_old = ms, cd_strategy = Microcompact mc, cd_outcome = Some (Pruned pruned), cd_fresh = n1\<rparr>
        else if cr_capacity cr - cr_used cr \<ge> proactive_threshold env then unchanged_history cr1 (Microcompact mc) n1
        else if length ms \<le> last_summary_len mc + RESUMMARIZE_MIN_GROWTH \<and> usage_of cr < CRITICAL_FRACTION
        then unchanged_history cr1 (Microcompact mc) n1
        else
         (let (summary, mc1) = micro_summarize env mc n1 ms;
              rebuilt = rebuild_with_summary (Suc n1) ms summary (cr_keep cr) in
          \<lparr>cd_new = Some rebuilt, cd_old = ms, cd_strategy = Microcompact (mc1\<lparr>last_summary_len := length rebuilt\<rparr>),
           cd_outcome = Some Summarized, cd_fresh = Suc (Suc n1)\<rparr>)))"

definition window_condense :: "condense_request \<Rightarrow> rat \<Rightarrow> nat \<Rightarrow> condensed" where
  "window_condense cr trigger n =
     (let c = Recent_window trigger; rebuilt = window_rebuild (cr_messages cr) (cr_keep cr) in
      if usage_of cr < trigger then unchanged_history cr c n
      else if length rebuilt \<ge> length (cr_messages cr) then unchanged_history cr c n
      else \<lparr>cd_new = Some rebuilt, cd_old = cr_messages cr, cd_strategy = c, cd_outcome = Some Windowed, cd_fresh = n\<rparr>)"

definition build_summary :: "context_env \<Rightarrow> nat \<Rightarrow> message list \<Rightarrow> string" where
  "build_summary env n ms =
     (case (if three_step_summary env then summary_call env n [] ms else None) of
        Some s \<Rightarrow> s
      | None \<Rightarrow> compact_summary env ms)"

definition summarizing_condense :: "context_env \<Rightarrow> condense_request \<Rightarrow> nat \<Rightarrow> condensed" where
  "summarizing_condense env cr n =
     (if cr_capacity cr - cr_used cr \<ge> proactive_threshold env then unchanged_history cr Summarizing n
      else
       (let rebuilt = rebuild_with_summary (Suc n) (cr_messages cr) (build_summary env n (cr_messages cr)) (cr_keep cr) in
        \<lparr>cd_new = Some rebuilt, cd_old = cr_messages cr, cd_strategy = Summarizing, cd_outcome = Some Summarized,
         cd_fresh = Suc (Suc n)\<rparr>))"

fun condense :: "context_env \<Rightarrow> condense_request \<Rightarrow> condenser \<Rightarrow> nat \<Rightarrow> condensed" where
  "condense env cr (Microcompact mc) n = micro_condense env cr mc n"
| "condense env cr (Recent_window trigger) n = window_condense cr trigger n"
| "condense env cr Summarizing n = summarizing_condense env cr n"

subsection \<open>The context manager\<close>

record conversation =
  messages :: "message list"
  anchor_tokens :: "int option"
  anchor_from_provider :: bool
  pending_tokens :: int
  count_overhead :: int
  last_raw_anchor :: int
  strategy :: condenser
  last_compaction :: "compaction option"
  fresh :: nat

definition IMAGE_TOKEN_ESTIMATE :: int where "IMAGE_TOKEN_ESTIMATE = 1600"
definition MESSAGE_FRAMING_TOKENS :: int where "MESSAGE_FRAMING_TOKENS = 4"
definition MAX_COUNT_OVERHEAD :: int where "MAX_COUNT_OVERHEAD = 20000"

definition estimate_tokens :: "context_env \<Rightarrow> message \<Rightarrow> int" where
  "estimate_tokens env m =
     MESSAGE_FRAMING_TOKENS + int (length (content m)) div 4
     + sum_list (map (\<lambda>c. json_chars env (P_dict (arguments c)) div 4) (tool_calls m))
     + (case dict_get (metadata m) ''reasoning_content'' of Some (P_str r) \<Rightarrow> int (length r) div 4 | _ \<Rightarrow> 0)
     + (case dict_get (metadata m) ''thinking_blocks'' of Some v \<Rightarrow> if truthy v then json_chars env v div 4 else 0 | None \<Rightarrow> 0)
     + IMAGE_TOKEN_ESTIMATE * int (length (images m))"

definition history_size :: "context_env \<Rightarrow> message list \<Rightarrow> int" where
  "history_size env ms = sum_list (map (\<lambda>m. int (length (content m))
     + sum_list (map (\<lambda>c. json_chars env (P_dict (arguments c))) (tool_calls m))) ms)"

definition local_request_estimate :: "context_env \<Rightarrow> message list \<Rightarrow> int" where
  "local_request_estimate env ms = sum_list (map (estimate_tokens env) ms) + tools_tokens env"

definition append_message :: "context_env \<Rightarrow> message \<Rightarrow> conversation \<Rightarrow> conversation" where
  "append_message env m cx = cx\<lparr>messages := messages cx @ [m], fresh := max (fresh cx) (Suc (oid m)),
     pending_tokens := (if anchor_tokens cx \<noteq> None then pending_tokens cx + estimate_tokens env m else pending_tokens cx)\<rparr>"

definition get_messages :: "conversation \<Rightarrow> message list" where
  "get_messages cx = order_tool_results (messages cx)"

definition learn_overhead :: "int \<Rightarrow> conversation \<Rightarrow> conversation" where
  "learn_overhead actual cx =
     (if anchor_from_provider cx \<or> pending_tokens cx \<noteq> 0 \<or> last_raw_anchor cx \<le> 0 then cx
      else cx\<lparr>count_overhead := max (count_overhead cx) (min (actual - last_raw_anchor cx) MAX_COUNT_OVERHEAD)\<rparr>)"

definition note_usage :: "int option \<Rightarrow> conversation \<Rightarrow> conversation" where
  "note_usage prompt_tokens cx =
     (case prompt_tokens of
        None \<Rightarrow> cx
      | Some p \<Rightarrow> if p = 0 then cx
                  else (learn_overhead p cx)\<lparr>anchor_tokens := Some p, anchor_from_provider := True, pending_tokens := 0\<rparr>)"

definition used_tokens :: "context_env \<Rightarrow> conversation \<Rightarrow> int \<times> conversation" where
  "used_tokens env cx =
     (case anchor_tokens cx of
        Some a \<Rightarrow> (a + pending_tokens cx, cx)
      | None \<Rightarrow>
          (let raw = max (count_request env (messages cx)) (local_request_estimate env (messages cx));
               a = raw + count_overhead cx in
           (a, cx\<lparr>last_raw_anchor := raw, anchor_tokens := Some a, anchor_from_provider := False, pending_tokens := 0\<rparr>)))"

definition capacity :: "context_env \<Rightarrow> int" where
  "capacity env = max 1 (max_context_tokens env - max 0 (reserved_output_tokens env) - max 0 (safety_margin_tokens env))"

definition usage_fraction :: "context_env \<Rightarrow> conversation \<Rightarrow> rat \<times> conversation" where
  "usage_fraction env cx =
     (if max_context_tokens env \<le> 0 then (0, cx)
      else let (used, cx1) = used_tokens env cx in (of_int used / of_int (capacity env), cx1))"

text \<open>\<open>_archive_dropped\<close>: the pointer goes into the summary the condenser created, or after the task.\<close>

fun insert_pointer :: "message \<Rightarrow> message list \<Rightarrow> message list \<Rightarrow> message list" where
  "insert_pointer p before [] = p # before"
| "insert_pointer p before (m # ms) =
     (if role m = USER then before @ [m, p] @ ms
      else if role m = SYSTEM then before @ m # insert_pointer p [] ms
      else insert_pointer p (before @ [m]) ms)"

definition with_pointer :: "string \<Rightarrow> pyval \<Rightarrow> message \<Rightarrow> message" where
  "with_pointer txt capture m =
     m\<lparr>content := content m @ [CHR 0x0A, CHR 0x0A] @ txt, metadata := dict_set ''artifact_capture'' capture (metadata m)\<rparr>"

fun update_first :: "('a \<Rightarrow> bool) \<Rightarrow> ('a \<Rightarrow> 'a) \<Rightarrow> 'a list \<Rightarrow> 'a list" where
  "update_first P f [] = []"
| "update_first P f (x # xs) = (if P x then f x # xs else x # update_first P f xs)"

definition archive_dropped :: "context_env \<Rightarrow> message list \<Rightarrow> message list \<Rightarrow> nat \<Rightarrow> message list \<times> nat" where
  "archive_dropped env old new n =
     (let dropped = filter (\<lambda>m. oid m \<notin> set (map oid new)) old;
          created = (\<lambda>m. oid m \<notin> set (map oid old) \<and> role m = USER) in
      if \<not> has_buffer env \<or> dropped = [] then (new, n)
      else
       (let (txt, capture) = archive_pointer env n dropped in
        if list_ex created new then (update_first created (with_pointer txt capture) new, Suc n)
        else (insert_pointer ((plain_message (Suc n) USER txt)\<lparr>metadata := [(''artifact_capture'', capture)]\<rparr>) [] new,
              Suc (Suc n))))"

definition install :: "context_env \<Rightarrow> message list \<Rightarrow> compaction option \<Rightarrow> conversation \<Rightarrow> conversation" where
  "install env new outcome cx =
     (let (ms, n) = archive_dropped env (messages cx) new (fresh cx);
          cx1 = cx\<lparr>messages := ms, fresh := n, anchor_tokens := None, anchor_from_provider := False, pending_tokens := 0,
                   last_compaction := outcome\<rparr> in
      snd (used_tokens env cx1))"

definition after_condense :: "condensed \<Rightarrow> conversation \<Rightarrow> conversation" where
  "after_condense cd cx = cx\<lparr>messages := cd_old cd, strategy := cd_strategy cd, fresh := cd_fresh cd\<rparr>"

definition maybe_summarize :: "context_env \<Rightarrow> conversation \<Rightarrow> bool \<times> conversation" where
  "maybe_summarize env cx =
     (let (used, cx1) = used_tokens env cx;
          cd = condense env \<lparr>cr_messages = messages cx1, cr_used = used, cr_capacity = capacity env,
                             cr_keep = keep_recent_turns env\<rparr> (strategy cx1) (fresh cx1);
          cx2 = after_condense cd cx1 in
      case cd_new cd of
        None \<Rightarrow> (False, cx2)
      | Some new \<Rightarrow> (True, install env new (cd_outcome cd) cx2))"

definition force_compact :: "context_env \<Rightarrow> conversation \<Rightarrow> bool \<times> conversation" where
  "force_compact env cx =
     (let size_before = history_size env (messages cx);
          cx1 = snd (used_tokens env cx);
          cr = \<lparr>cr_messages = messages cx1, cr_used = capacity env * 2, cr_capacity = capacity env,
                cr_keep = keep_recent_turns env\<rparr>;
          cd = condense env cr (strategy cx1) (fresh cx1);
          cx2 = after_condense cd cx1;
          cr2 = cr\<lparr>cr_messages := (case cd_new cd of None \<Rightarrow> cd_old cd | Some new \<Rightarrow> new),
                   cr_keep := max 1 (keep_recent_turns env div 2)\<rparr>;
          dropped = cd_new (window_condense cr2 0 (fresh cx2)) in
      case (case dropped of Some new \<Rightarrow> Some new | None \<Rightarrow> cd_new cd) of
        None \<Rightarrow> (False, cx2)
      | Some new \<Rightarrow>
          if history_size env new \<ge> size_before \<and> length new \<ge> length (messages cx2) then (False, cx2)
          else (True, install env new (if dropped \<noteq> None then Some Windowed else cd_outcome cd) cx2))"

subsection \<open>Shape\<close>

text \<open>What no pass changes in a message it keeps.\<close>

definition same_shape :: "message \<Rightarrow> message \<Rightarrow> bool" where
  "same_shape m m' \<longleftrightarrow> oid m' = oid m \<and> role m' = role m \<and> tool_call_id m' = tool_call_id m \<and> expected m' = expected m"

lemma same_shape_refl [simp]: "same_shape m m"
  by (simp add: same_shape_def)

lemma same_shape_trans: "same_shape a b \<Longrightarrow> same_shape b c \<Longrightarrow> same_shape a c"
  by (simp add: same_shape_def)

lemma shapes_refl [simp]: "list_all2 same_shape ms ms"
  by (rule list_all2_refl) simp

lemma shapes_scan: "list_all2 same_shape ms ms' \<Longrightarrow> fold scan_message ms' st = fold scan_message ms st"
proof (induction ms ms' arbitrary: st rule: list_all2_induct)
  case (Cons m ms m' ms')
  then have "scan_message m' = scan_message m" by (intro scan_message_cong) (auto simp: same_shape_def)
  with Cons show ?case by simp
qed simp

lemma shapes_answered: "list_all2 same_shape ms ms' \<Longrightarrow> answered ms' = answered ms"
  by (simp add: answered_def scan_def shapes_scan)

lemma shapes_oids: "list_all2 same_shape ms ms' \<Longrightarrow> map oid ms' = map oid ms"
  by (induction rule: list_all2_induct) (auto simp: same_shape_def)

lemma shapes_system: "list_all2 same_shape ms ms' \<Longrightarrow> map_option oid (head_system ms') = map_option oid (head_system ms)"
  by (cases ms; cases ms') (auto simp: head_system_def same_shape_def)

lemma shapes_task: "list_all2 same_shape ms ms' \<Longrightarrow> map_option oid (task_message ms') = map_option oid (task_message ms)"
  unfolding task_message_def by (induction rule: list_all2_induct) (auto simp: same_shape_def)

lemma prune_message_shape: "same_shape m (fst (prune_message env maxlen n m))"
  by (auto simp: prune_message_def prune_tool_call_arguments_def prune_output_def prune_call_def same_shape_def expected_def
      Let_def comp_def split: prod.splits option.splits)

lemma prune_messages_shape: "list_all2 same_shape ms (fst (prune_messages env maxlen n ms))"
proof (induction env maxlen n ms rule: prune_messages.induct)
  case (2 env maxlen n m ms)
  then show ?case
    using prune_message_shape [of m env maxlen n] by (auto split: prod.splits)
qed simp

lemma microcompact_shape: "list_all2 same_shape ms (fst (microcompact_messages env keep maxlen n ms))"
proof -
  have "list_all2 same_shape (take b ms @ drop b ms) (fst (prune_messages env maxlen n (take b ms)) @ drop b ms)" for b
    by (rule list_all2_appendI [OF prune_messages_shape shapes_refl])
  then show ?thesis by (auto simp: microcompact_messages_def Let_def split: prod.splits) (metis append_take_drop_id fst_conv)
qed

lemma prune_messages_fresh: "n \<le> snd (snd (prune_messages env maxlen n ms))"
proof (induction ms arbitrary: n)
  case (Cons m ms)
  from Cons.IH [of "Suc n"] show ?case by (auto split: prod.splits)
qed simp

lemma microcompact_fresh: "n \<le> snd (snd (microcompact_messages env keep maxlen n ms))"
  using prune_messages_fresh [of n env maxlen "take (window_boundary ms keep) ms"]
  by (auto simp: microcompact_messages_def Let_def split: prod.splits)

subsection \<open>What a rebuild keeps\<close>

lemma recent_scan_suffix:
  assumes "turns < keep"
  shows "\<exists>xs ys. ms = xs @ ys \<and> (xs = [] \<or> (ys \<noteq> [] \<and> boundary (hd ys)))
    \<and> recent_scan keep exclude turns collected (rev ms)
        = filter (\<lambda>m. \<not> (role m = SYSTEM \<or> oid m \<in> set exclude)) ys @ collected"
  using assms
proof (induction ms arbitrary: turns collected rule: rev_induct)
  case (snoc m ms)
  show ?case
  proof (cases "role m = SYSTEM \<or> oid m \<in> set exclude")
    case True
    from snoc.IH [OF snoc.prems, of collected] obtain xs ys where i: "ms = xs @ ys"
      "xs = [] \<or> (ys \<noteq> [] \<and> boundary (hd ys))"
      "recent_scan keep exclude turns collected (rev ms)
        = filter (\<lambda>m. \<not> (role m = SYSTEM \<or> oid m \<in> set exclude)) ys @ collected" by blast
    with True show ?thesis by (intro exI [of _ xs] exI [of _ "ys @ [m]"]) auto
  next
    case False
    let ?turns = "if role m = ASSISTANT then turns + 1 else turns"
    show ?thesis
    proof (cases "?turns \<ge> keep")
      case True
      with snoc.prems have "role m = ASSISTANT" by (simp split: if_splits)
      with True False show ?thesis by (intro exI [of _ ms] exI [of _ "[m]"]) (simp add: boundary_def)
    next
      case more: False
      then have "?turns < keep" by simp
      from snoc.IH [OF this, of "m # collected"] obtain xs ys where "ms = xs @ ys"
        "xs = [] \<or> (ys \<noteq> [] \<and> boundary (hd ys))"
        "recent_scan keep exclude ?turns (m # collected) (rev ms)
          = filter (\<lambda>m. \<not> (role m = SYSTEM \<or> oid m \<in> set exclude)) ys @ m # collected" by blast
      with False more show ?thesis by (intro exI [of _ xs] exI [of _ "ys @ [m]"]) (auto simp: Let_def)
    qed
  qed
qed simp

lemma recent_messages_filter:
  "\<exists>xs ys. ms = xs @ ys \<and> (xs = [] \<or> ys = [] \<or> boundary (hd ys))
    \<and> recent_messages ms keep exclude
        = dropWhile (\<lambda>m. role m = TOOL) (filter (\<lambda>m. \<not> (role m = SYSTEM \<or> oid m \<in> set exclude)) ys)"
proof (cases "keep \<le> 0")
  case True
  then show ?thesis by (intro exI [of _ ms] exI [of _ "[]"]) (simp add: recent_messages_def)
next
  case False
  then have "0 < keep" by simp
  from recent_scan_suffix [OF this, of ms exclude "[]"] obtain xs ys where "ms = xs @ ys"
    "xs = [] \<or> (ys \<noteq> [] \<and> boundary (hd ys))"
    "recent_scan keep exclude 0 [] (rev ms) = filter (\<lambda>m. \<not> (role m = SYSTEM \<or> oid m \<in> set exclude)) ys"
    unfolding append_Nil2 by blast
  with False show ?thesis by (intro exI [of _ xs] exI [of _ ys]) (auto simp: recent_messages_def)
qed

lemma task_messageD: "task_message ms = Some m \<Longrightarrow> m \<in> set ms \<and> role m = USER"
  unfolding task_message_def by (induction ms) (auto split: if_splits)

lemma head_systemD: "head_system ms = Some m \<Longrightarrow> (\<exists>xs. ms = m # xs) \<and> role m = SYSTEM"
  by (auto simp: head_system_def split: list.splits if_splits)

lemma anchors_member: "m \<in> set (anchors ms) \<Longrightarrow> head_system ms = Some m \<or> task_message ms = Some m"
  by (cases "head_system ms"; cases "task_message ms") (auto simp: anchors_def)

lemma anchors_role: "m \<in> set (anchors ms) \<Longrightarrow> role m = USER \<or> role m = SYSTEM"
  using anchors_member [of m ms] by (auto dest: task_messageD head_systemD)

lemma anchors_subset: "set (anchors ms) \<subseteq> set ms"
proof
  fix m assume "m \<in> set (anchors ms)"
  from anchors_member [OF this] show "m \<in> set ms" by (auto dest: task_messageD head_systemD)
qed

lemma distinct_oid: "distinct (map oid ms) \<Longrightarrow> a \<in> set ms \<Longrightarrow> b \<in> set ms \<Longrightarrow> oid a = oid b \<Longrightarrow> a = b"
  by (auto simp: distinct_map dest: inj_onD)

lemma anchors_distinct: "distinct (map oid ms) \<Longrightarrow> distinct (map oid (anchors ms))"
proof (cases "head_system ms"; cases "task_message ms")
  fix a b assume a: "head_system ms = Some a" and b: "task_message ms = Some b" and d: "distinct (map oid ms)"
  from a have "a \<in> set ms" "role a = SYSTEM" by (auto dest: head_systemD)
  moreover from b have "b \<in> set ms" "role b = USER" by (auto dest: task_messageD)
  ultimately show ?thesis using distinct_oid [OF d, of a b] a b by (auto simp: anchors_def)
qed (simp_all add: anchors_def)

lemma distinct_map_dropWhile: "distinct (map f xs) \<Longrightarrow> distinct (map f (dropWhile P xs))"
  by (induction xs) auto

lemma recent_messages_kept:
  assumes "distinct (map oid ms)" "answered ms"
  shows "answered (recent_messages ms keep (map oid (anchors ms)))"
    and "set (recent_messages ms keep (map oid (anchors ms))) \<subseteq> set ms"
    and "distinct (map oid (recent_messages ms keep (map oid (anchors ms))))"
    and "oid ` set (recent_messages ms keep (map oid (anchors ms))) \<inter> oid ` set (anchors ms) = {}"
proof -
  let ?keep = "\<lambda>m. \<not> (role m = SYSTEM \<or> oid m \<in> set (map oid (anchors ms)))"
  obtain xs ys where ms: "ms = xs @ ys" "xs = [] \<or> ys = [] \<or> boundary (hd ys)"
    and recent: "recent_messages ms keep (map oid (anchors ms)) = dropWhile (\<lambda>m. role m = TOOL) (filter ?keep ys)"
    using recent_messages_filter [of ms keep "map oid (anchors ms)"] by blast
  have "answered ys"
  proof (cases ys)
    case (Cons y zs)
    with ms assms(2) show ?thesis using answered_suffix [of xs y zs] by auto
  qed simp
  moreover have "role m = USER \<or> role m = SYSTEM" if "m \<in> set ys" "\<not> ?keep m" for m
  proof (cases "role m = SYSTEM")
    case False
    with that obtain a where "a \<in> set (anchors ms)" "oid a = oid m" by auto
    with distinct_oid [OF assms(1), of a m] anchors_subset [of ms] that(1) ms(1) anchors_role [of m ms]
    show ?thesis by auto
  qed simp
  ultimately have "answered (filter ?keep ys)" by (rule answered_filter)
  then show "answered (recent_messages ms keep (map oid (anchors ms)))" by (simp add: recent answered_drop_tools)
  have sub: "set (recent_messages ms keep (map oid (anchors ms))) \<subseteq> set (filter ?keep ys)"
    unfolding recent by (meson set_dropWhileD subsetI)
  with ms(1) show "set (recent_messages ms keep (map oid (anchors ms))) \<subseteq> set ms" by auto
  have "distinct (map oid (filter ?keep ys))" using assms(1) ms(1) by (simp add: distinct_map_filter)
  then show "distinct (map oid (recent_messages ms keep (map oid (anchors ms))))"
    unfolding recent by (rule distinct_map_dropWhile)
  from sub show "oid ` set (recent_messages ms keep (map oid (anchors ms))) \<inter> oid ` set (anchors ms) = {}" by auto
qed

lemma head_system_anchors: "head_system ms = Some m \<Longrightarrow> head_system (anchors ms @ ns) = Some m"
  by (auto simp: head_system_def anchors_def split: list.splits if_splits)

lemma task_message_anchors: "task_message ms = Some m \<Longrightarrow> task_message (anchors ms @ ns) = Some m"
proof -
  assume t: "task_message ms = Some m"
  then have "role m = USER" by (simp add: task_messageD)
  with t show ?thesis by (cases "head_system ms") (auto simp: anchors_def task_message_def dest: head_systemD)
qed

subsection \<open>The invariant of the context manager\<close>

definition kept_oid :: "(message list \<Rightarrow> message option) \<Rightarrow> message list \<Rightarrow> message list \<Rightarrow> bool" where
  "kept_oid f old new \<longleftrightarrow> f old = None \<or> map_option oid (f new) = map_option oid (f old)"

text \<open>The system prompt at the head and the task are still there.\<close>

definition anchors_kept :: "message list \<Rightarrow> message list \<Rightarrow> bool" where
  "anchors_kept old new \<longleftrightarrow> kept_oid head_system old new \<and> kept_oid task_message old new"

definition history_ok :: "message list \<Rightarrow> nat \<Rightarrow> bool" where
  "history_ok ms n \<longleftrightarrow> distinct (map oid ms) \<and> (\<forall>i \<in> set (map oid ms). i < n) \<and> answered ms"

definition conversation_ok :: "conversation \<Rightarrow> bool" where
  "conversation_ok cx \<longleftrightarrow> history_ok (messages cx) (fresh cx)"

lemma anchors_kept_refl [simp]: "anchors_kept ms ms"
  by (simp add: anchors_kept_def kept_oid_def)

lemma anchors_kept_trans: "anchors_kept a b \<Longrightarrow> anchors_kept b c \<Longrightarrow> anchors_kept a c"
  by (auto simp: anchors_kept_def kept_oid_def)

lemma shapes_kept: "list_all2 same_shape ms ms' \<Longrightarrow> anchors_kept ms ms'"
  by (simp add: anchors_kept_def kept_oid_def shapes_system shapes_task)

lemma shapes_history: "list_all2 same_shape ms ms' \<Longrightarrow> history_ok ms n \<Longrightarrow> n \<le> n' \<Longrightarrow> history_ok ms' n'"
  using shapes_oids [of ms ms'] shapes_answered [of ms ms']
  by (auto simp: history_ok_def simp del: set_map)

lemma anchors_kept_append: "anchors_kept ms (anchors ms @ ns)"
  by (cases "head_system ms"; cases "task_message ms")
     (auto simp: anchors_kept_def kept_oid_def head_system_anchors task_message_anchors)

lemma rebuild_history:
  assumes "history_ok ms n" "\<forall>m \<in> set mid. role m = USER \<and> n \<le> oid m \<and> oid m < n'" "distinct (map oid mid)" "n \<le> n'"
  shows "history_ok (anchors ms @ mid @ recent_messages ms keep (map oid (anchors ms))) n'"
proof -
  let ?recent = "recent_messages ms keep (map oid (anchors ms))"
  have ms: "distinct (map oid ms)" "\<forall>m \<in> set ms. oid m < n" "answered ms" using assms(1) by (simp_all add: history_ok_def)
  note recent = recent_messages_kept [OF ms(1,3), of keep]
  have "answered ((anchors ms @ mid) @ ?recent)"
    by (rule answered_prepend [OF recent(1)]) (use assms(2) anchors_role [of _ ms] in auto)
  moreover have "oid m < n" if "m \<in> set (anchors ms) \<union> set ?recent" for m
    using that ms(2) anchors_subset [of ms] recent(2) by auto
  then have "distinct (map oid (anchors ms @ mid @ ?recent))" "\<forall>m \<in> set (anchors ms @ mid @ ?recent). oid m < n'"
    using anchors_distinct [OF ms(1)] recent(3,4) assms(2,3,4) by fastforce+
  ultimately show ?thesis by (auto simp: history_ok_def)
qed

lemma history_ok_mono: "history_ok ms n \<Longrightarrow> n \<le> n' \<Longrightarrow> history_ok ms n'"
  by (auto simp: history_ok_def)

lemma rebuild_with_summary_ok:
  assumes "history_ok ms n"
  shows "history_ok (rebuild_with_summary n ms summary keep) (Suc n)" "anchors_kept ms (rebuild_with_summary n ms summary keep)"
  using rebuild_history [OF assms, of "[summary_message n summary]" "Suc n" keep]
  by (simp_all add: rebuild_with_summary_def summary_message_def anchors_kept_append)

lemma window_rebuild_ok:
  assumes "history_ok ms n"
  shows "history_ok (window_rebuild ms keep) n" "anchors_kept ms (window_rebuild ms keep)"
  using rebuild_history [OF assms, of "[]" n keep] by (simp_all add: window_rebuild_def anchors_kept_append)

subsection \<open>Every strategy keeps the invariant\<close>

definition good_pass :: "message list \<Rightarrow> nat \<Rightarrow> condensed \<Rightarrow> bool" where
  "good_pass ms n cd \<longleftrightarrow> n \<le> cd_fresh cd \<and> list_all2 same_shape ms (cd_old cd)
     \<and> (\<forall>new. cd_new cd = Some new \<longrightarrow> history_ok new (cd_fresh cd) \<and> anchors_kept ms new)"

lemma good_unchanged: "n \<le> n' \<Longrightarrow> list_all2 same_shape ms (cr_messages cr) \<Longrightarrow> good_pass ms n (unchanged_history cr c n')"
  by (simp add: good_pass_def unchanged_history_def)

lemma good_window:
  assumes "history_ok (cr_messages cr) n"
  shows "good_pass (cr_messages cr) n (window_condense cr trigger n)"
  using window_rebuild_ok [OF assms, of "cr_keep cr"]
  by (auto simp: window_condense_def Let_def intro: good_unchanged) (simp_all add: good_pass_def)

lemma good_summarizing:
  assumes "history_ok (cr_messages cr) n"
  shows "good_pass (cr_messages cr) n (summarizing_condense env cr n)"
  using rebuild_with_summary_ok [OF history_ok_mono [OF assms], of "Suc n"]
  by (auto simp: summarizing_condense_def Let_def intro: good_unchanged) (simp_all add: good_pass_def)

lemma good_micro:
  assumes ok: "history_ok (cr_messages cr) n"
  shows "good_pass (cr_messages cr) n (micro_condense env cr mc n)"
proof -
  obtain ms pruned n1 where pruned: "microcompact_messages env (cr_keep cr) (prune_min_chars mc) n (cr_messages cr) = (ms, pruned, n1)"
    by (metis prod_cases3)
  have shape: "list_all2 same_shape (cr_messages cr) ms" and n1: "n \<le> n1"
    using microcompact_shape [of "cr_messages cr" env "cr_keep cr" "prune_min_chars mc" n]
      microcompact_fresh [of n env "cr_keep cr" "prune_min_chars mc" "cr_messages cr"] by (simp_all add: pruned)
  have ms: "history_ok ms n1" by (rule shapes_history [OF shape ok n1])
  obtain summary mc1 where s: "micro_summarize env mc n1 ms = (summary, mc1)" by fastforce
  have "good_pass (cr_messages cr) n \<lparr>cd_new = Some (rebuild_with_summary (Suc n1) ms summary (cr_keep cr)), cd_old = ms,
      cd_strategy = c, cd_outcome = out, cd_fresh = Suc (Suc n1)\<rparr>" for c out
    using rebuild_with_summary_ok [OF history_ok_mono [OF ms], of "Suc n1"] shape n1 anchors_kept_trans [OF shapes_kept [OF shape]]
    by (simp add: good_pass_def)
  moreover have "good_pass (cr_messages cr) n \<lparr>cd_new = Some ms, cd_old = ms, cd_strategy = c, cd_outcome = out, cd_fresh = n1\<rparr>"
    for c out using ms shape n1 by (simp add: good_pass_def shapes_kept)
  moreover have "good_pass (cr_messages cr) n (unchanged_history (cr\<lparr>cr_messages := ms\<rparr>) c n1)" for c
    by (rule good_unchanged [OF n1]) (simp add: shape)
  ultimately show ?thesis
    by (simp add: micro_condense_def pruned s Let_def good_unchanged)
qed

lemma good_condense: "history_ok (cr_messages cr) n \<Longrightarrow> good_pass (cr_messages cr) n (condense env cr c n)"
  by (cases c) (simp_all add: good_micro good_window good_summarizing)

subsection \<open>The archive pointer\<close>

lemma insert_pointer_split:
  "\<exists>xs ys. before @ ms = xs @ ys \<and> insert_pointer p before ms = xs @ p # ys"
proof (induction p before ms rule: insert_pointer.induct)
  case (2 p before m ms)
  consider "role m = USER" | "role m = SYSTEM" | "role m \<noteq> USER" "role m \<noteq> SYSTEM" by blast
  then show ?case
  proof cases
    case 1
    then show ?thesis by (intro exI [of _ "before @ [m]"] exI [of _ ms]) simp
  next
    case 2
    with "2.IH"(1) obtain xs ys where "ms = xs @ ys" "insert_pointer p [] ms = xs @ p # ys" by auto
    with 2 show ?thesis by (intro exI [of _ "before @ m # xs"] exI [of _ ys]) simp
  next
    case 3
    with "2.IH"(2) show ?thesis by simp
  qed
qed auto

lemma insert_pointer_task: "task_message ms = Some m \<Longrightarrow> list_all (\<lambda>x. role x \<noteq> USER) before
    \<Longrightarrow> task_message (insert_pointer p before ms) = Some m"
proof (induction p before ms rule: insert_pointer.induct)
  case (2 p before x ms)
  have skip: "task_message (before @ zs) = task_message zs" for zs
    using "2.prems"(2) by (induction before) (auto simp: task_message_def)
  consider "role x = USER" | "role x = SYSTEM" | "role x \<noteq> USER" "role x \<noteq> SYSTEM" by blast
  then show ?case
  proof cases
    case 1
    with "2.prems"(1) skip show ?thesis by (simp add: task_message_def)
  next
    case sys: 2
    with "2.prems"(1) have "task_message ms = Some m" by (simp add: task_message_def)
    with "2.IH"(1) sys have "task_message (insert_pointer p [] ms) = Some m" by simp
    with sys skip [of "x # insert_pointer p [] ms"] show ?thesis by (simp add: task_message_def)
  next
    case 3
    with 2 show ?thesis by (simp add: task_message_def)
  qed
qed (simp add: task_message_def)

lemma insert_pointer_head:
  assumes "head_system ms = Some m"
  shows "head_system (insert_pointer p [] ms) = Some m"
  using assms by (cases ms) (auto simp: head_system_def split: if_splits)

lemma update_first_shape: "(\<And>x. same_shape x (f x)) \<Longrightarrow> list_all2 same_shape xs (update_first P f xs)"
  by (induction xs) auto

lemma with_pointer_shape: "same_shape m (with_pointer txt capture m)"
  by (simp add: with_pointer_def same_shape_def expected_def)

lemma history_insert_user:
  assumes "history_ok (xs @ ys) n" "role p = USER" "n \<le> oid p" "oid p < n'"
  shows "history_ok (xs @ p # ys) n'"
proof -
  have old: "distinct (map oid (xs @ ys))" "\<forall>i \<in> set (map oid (xs @ ys)). i < n" "answered (xs @ ys)"
    using assms(1) by (simp_all add: history_ok_def)
  have "i < n'" if "i < n" for i using assms(3,4) that by linarith
  with old(2) have small: "\<forall>i \<in> set (map oid (xs @ p # ys)). i < n'" using assms(4) by (simp add: ball_Un)
  have "oid p \<notin> set (map oid (xs @ ys))" using old(2) assms(3) by (meson leD)
  with old(1) have "distinct (map oid (xs @ p # ys))" by auto
  with small answered_insert_user [OF old(3) assms(2)] show ?thesis by (simp add: history_ok_def)
qed

lemma archive_dropped_ok:
  assumes "history_ok new n"
  shows "history_ok (fst (archive_dropped env old new n)) (snd (archive_dropped env old new n))"
    and "anchors_kept new (fst (archive_dropped env old new n))" and "n \<le> snd (archive_dropped env old new n)"
proof -
  obtain ptr capture where a: "archive_pointer env n (filter (\<lambda>m. oid m \<notin> set (map oid new)) old) = (ptr, capture)" by fastforce
  let ?p = "(plain_message (Suc n) USER ptr)\<lparr>metadata := [(''artifact_capture'', capture)]\<rparr>"
  let ?new = "insert_pointer ?p [] new"
  obtain xs ys where split: "new = xs @ ys" "?new = xs @ ?p # ys" using insert_pointer_split [of "[]" new ?p] by auto
  have user: "role ?p = USER" "oid ?p = Suc n" by (simp_all add: plain_message_def)
  have "history_ok (xs @ ?p # ys) (Suc (Suc n))"
    by (rule history_insert_user [OF assms [unfolded split(1)]]) (simp_all add: user)
  then have inserted: "history_ok ?new (Suc (Suc n))" by (simp only: split(2))
  have inserted_kept: "anchors_kept new ?new"
    using insert_pointer_head [of new _ ?p] insert_pointer_task [of new _ "[]" ?p]
    by (cases "head_system new"; cases "task_message new") (simp_all add: anchors_kept_def kept_oid_def)
  have updated: "list_all2 same_shape new (update_first P (with_pointer ptr capture) new)" for P
    by (rule update_first_shape [OF with_pointer_shape])
  note facts = assms inserted inserted_kept shapes_history [OF updated assms, of "Suc n"] shapes_kept [OF updated]
  show "history_ok (fst (archive_dropped env old new n)) (snd (archive_dropped env old new n))"
    "anchors_kept new (fst (archive_dropped env old new n))" "n \<le> snd (archive_dropped env old new n)"
    using facts by (simp_all add: archive_dropped_def Let_def a del: set_map)
qed

subsection \<open>Compaction\<close>

lemma used_tokens_other [simp]:
  "messages (snd (used_tokens env cx)) = messages cx" "fresh (snd (used_tokens env cx)) = fresh cx"
  "strategy (snd (used_tokens env cx)) = strategy cx"
  by (simp_all add: used_tokens_def Let_def split: option.split)

lemma install_ok:
  assumes "history_ok new (fresh cx)"
  shows "conversation_ok (install env new out cx)" "anchors_kept new (messages (install env new out cx))"
    "fresh cx \<le> fresh (install env new out cx)"
proof -
  obtain ms n where a: "archive_dropped env (messages cx) new (fresh cx) = (ms, n)" by fastforce
  show "conversation_ok (install env new out cx)" "anchors_kept new (messages (install env new out cx))"
    "fresh cx \<le> fresh (install env new out cx)"
    using archive_dropped_ok [OF assms, of env "messages cx"] by (simp_all add: install_def conversation_ok_def a)
qed

definition progress :: "conversation \<Rightarrow> conversation \<Rightarrow> bool" where
  "progress cx cx' \<longleftrightarrow> conversation_ok cx' \<and> anchors_kept (messages cx) (messages cx') \<and> fresh cx \<le> fresh cx'"

lemma after_condense_ok:
  assumes "conversation_ok cx" "good_pass (messages cx) (fresh cx) cd"
  shows "progress cx (after_condense cd cx)"
  using assms shapes_history [of "messages cx" "cd_old cd" "fresh cx" "cd_fresh cd"]
  by (simp add: progress_def after_condense_def conversation_ok_def good_pass_def shapes_kept)

lemma install_progress:
  assumes "progress cx cx2" "history_ok new (fresh cx2)" "anchors_kept (messages cx) new"
  shows "progress cx (install env new out cx2)"
  using install_ok [OF assms(2), of env out] assms(1) anchors_kept_trans [OF assms(3)] by (simp add: progress_def)

lemma maybe_summarize_ok:
  assumes "conversation_ok cx"
  shows "progress cx (snd (maybe_summarize env cx))"
proof -
  obtain used cx1 where u: "used_tokens env cx = (used, cx1)" by fastforce
  have same: "messages cx1 = messages cx" "fresh cx1 = fresh cx" using used_tokens_other [of env cx] by (simp_all add: u)
  let ?cd = "condense env \<lparr>cr_messages = messages cx1, cr_used = used, cr_capacity = capacity env, cr_keep = keep_recent_turns env\<rparr>
    (strategy cx1) (fresh cx1)"
  have good: "good_pass (messages cx1) (fresh cx1) ?cd"
    using good_condense [of "\<lparr>cr_messages = messages cx1, cr_used = used, cr_capacity = capacity env, cr_keep = keep_recent_turns env\<rparr>"
      "fresh cx1" env "strategy cx1"] assms by (simp add: conversation_ok_def same)
  have after: "progress cx1 (after_condense ?cd cx1)"
    by (rule after_condense_ok [OF _ good]) (use assms in \<open>simp add: conversation_ok_def same\<close>)
  then have base: "progress cx (after_condense ?cd cx1)" by (simp add: progress_def same)
  show ?thesis
  proof (cases "cd_new ?cd")
    case None
    with base show ?thesis by (simp add: maybe_summarize_def u Let_def)
  next
    case (Some new)
    with good have "history_ok new (fresh (after_condense ?cd cx1))" "anchors_kept (messages cx) new"
      by (simp_all add: good_pass_def after_condense_def same)
    from install_progress [OF base this] Some show ?thesis by (simp add: maybe_summarize_def u Let_def)
  qed
qed

lemma force_compact_ok:
  assumes "conversation_ok cx"
  shows "progress cx (snd (force_compact env cx))"
proof -
  let ?cx1 = "snd (used_tokens env cx)"
  let ?cr = "\<lparr>cr_messages = messages ?cx1, cr_used = capacity env * 2, cr_capacity = capacity env, cr_keep = keep_recent_turns env\<rparr>"
  let ?cd = "condense env ?cr (strategy ?cx1) (fresh ?cx1)"
  let ?cx2 = "after_condense ?cd ?cx1"
  let ?cr2 = "?cr\<lparr>cr_messages := (case cd_new ?cd of None \<Rightarrow> cd_old ?cd | Some new \<Rightarrow> new), cr_keep := max 1 (keep_recent_turns env div 2)\<rparr>"
  let ?win = "window_condense ?cr2 0 (fresh ?cx2)"
  have good: "good_pass (messages cx) (fresh cx) ?cd"
    using good_condense [of ?cr "fresh ?cx1" env "strategy ?cx1"] assms by (simp add: conversation_ok_def)
  have "progress ?cx1 ?cx2" by (rule after_condense_ok) (use assms good in \<open>simp_all add: conversation_ok_def\<close>)
  then have base: "progress cx ?cx2" by (simp add: progress_def)
  have new: "history_ok new (fresh ?cx2) \<and> anchors_kept (messages cx) new" if "cd_new ?cd = Some new" for new
    using good that by (simp add: good_pass_def after_condense_def)
  have mid: "history_ok (cr_messages ?cr2) (fresh ?cx2) \<and> anchors_kept (messages cx) (cr_messages ?cr2)"
    using new base by (cases "cd_new ?cd") (simp_all add: progress_def conversation_ok_def after_condense_def)
  have win: "history_ok w (fresh ?cx2) \<and> anchors_kept (messages cx) w" if w: "cd_new ?win = Some w" for w
  proof -
    have "w = window_rebuild (cr_messages ?cr2) (cr_keep ?cr2)"
      using w by (simp add: window_condense_def unchanged_history_def Let_def split: if_splits)
    with window_rebuild_ok [of "cr_messages ?cr2" "fresh ?cx2" "cr_keep ?cr2"] mid anchors_kept_trans show ?thesis by blast
  qed
  have inst: "progress cx (install env w out ?cx2)" if "cd_new ?cd = Some w \<or> cd_new ?win = Some w" for w out
    using that new win install_progress [OF base] by blast
  show ?thesis
    using base inst by (simp add: force_compact_def Let_def split: option.split)
qed

lemma append_message_ok:
  assumes "conversation_ok cx" "oid m = fresh cx" "answered (messages cx @ [m])"
  shows "conversation_ok (append_message env m cx)"
  using assms by (auto simp: conversation_ok_def history_ok_def append_message_def)

subsection \<open>A forced compaction and its summary\<close>

lemma update_first_oids: "(\<And>x. oid (f x) = oid x) \<Longrightarrow> map oid (update_first P f xs) = map oid xs"
  by (induction xs) auto

lemma archive_dropped_oids:
  assumes "\<forall>m \<in> set new. oid m \<noteq> i" "i < n"
  shows "\<forall>m \<in> set (fst (archive_dropped env old new n)). oid m \<noteq> i"
proof -
  let ?dropped = "filter (\<lambda>m. oid m \<notin> set (map oid new)) old"
  obtain ptr capture where a: "archive_pointer env n ?dropped = (ptr, capture)" by fastforce
  let ?p = "(plain_message (Suc n) USER ptr)\<lparr>metadata := [(''artifact_capture'', capture)]\<rparr>"
  obtain xs ys where split: "new = xs @ ys" "insert_pointer ?p [] new = xs @ ?p # ys"
    using insert_pointer_split [of "[]" new ?p] by auto
  have "\<forall>m \<in> set (xs @ ?p # ys). oid m \<noteq> i" using assms [unfolded split(1)] by (auto simp: plain_message_def)
  then have inserted: "\<forall>m \<in> set (insert_pointer ?p [] new). oid m \<noteq> i" by (simp only: split(2))
  have "set (map oid (update_first P (with_pointer ptr capture) new)) = set (map oid new)" for P
    by (subst update_first_oids) (simp_all add: with_pointer_def)
  then have updated: "\<forall>m \<in> set (update_first P (with_pointer ptr capture) new). oid m \<noteq> i" for P
    using assms(1) by (metis (no_types, lifting) image_eqI imageE list.set_map)
  show ?thesis using assms(1) inserted updated by (simp add: archive_dropped_def Let_def a del: set_map)
qed

text \<open>The backward loop stops inside the part of the history that holds enough turns.\<close>

lemma recent_scan_stops:
  assumes "keep \<le> turns + int (length (filter (\<lambda>m. role m = ASSISTANT \<and> oid m \<notin> set exclude) ys))" "turns < keep"
  shows "recent_scan keep exclude turns collected (rev (xs @ ys)) = recent_scan keep exclude turns collected (rev ys)"
  using assms
proof (induction ys arbitrary: turns collected rule: rev_induct)
  case (snoc y ys)
  show ?case
  proof (cases "role y = SYSTEM \<or> oid y \<in> set exclude")
    case True
    with snoc.prems have "keep \<le> turns + int (length (filter (\<lambda>m. role m = ASSISTANT \<and> oid m \<notin> set exclude) ys))"
      by (auto split: if_splits)
    from snoc.IH [OF this snoc.prems(2)] True show ?thesis by simp
  next
    case False
    let ?turns = "if role y = ASSISTANT then turns + 1 else turns"
    have "keep \<le> ?turns + int (length (filter (\<lambda>m. role m = ASSISTANT \<and> oid m \<notin> set exclude) ys))"
      using snoc.prems(1) False by (auto split: if_splits)
    with snoc.IH [of ?turns] False show ?thesis by (cases "keep \<le> ?turns") (auto simp: Let_def)
  qed
qed simp

lemma recent_scan_set: "set (recent_scan keep exclude turns collected ms) \<subseteq> set collected \<union> set ms"
proof (induction keep exclude turns collected ms rule: recent_scan.induct)
  case (2 keep exclude turns collected m ms)
  then show ?case by (auto simp: Let_def split: if_splits)
qed simp

lemma recent_messages_within:
  assumes "keep \<le> int (length (filter (\<lambda>m. role m = ASSISTANT \<and> oid m \<notin> set exclude) ys))"
  shows "set (recent_messages (xs @ ys) keep exclude) \<subseteq> set ys"
proof (cases "keep \<le> 0")
  case False
  then have "recent_scan keep exclude 0 [] (rev (xs @ ys)) = recent_scan keep exclude 0 [] (rev ys)"
    using recent_scan_stops [of keep 0 exclude ys "[]" xs] assms by simp
  with False recent_scan_set [of keep exclude 0 "[]" "rev ys"] show ?thesis
    unfolding recent_messages_def by (auto dest!: set_dropWhileD)
qed (simp add: recent_messages_def)

lemma head_system_summary: "head_system (anchors ms @ summary_message n s # ys) = head_system ms"
  by (cases "head_system ms"; cases "task_message ms")
     (auto simp: anchors_def head_system_def summary_message_def dest: task_messageD split: list.splits if_splits)

lemma window_drops_summary:
  assumes ok: "history_ok ms n" and task: "task_message ms \<noteq> None"
    and turns: "keep2 \<le> int (length (filter (\<lambda>m. role m = ASSISTANT) (recent_messages ms keep (map oid (anchors ms)))))"
    and rebuilt_def: "rebuilt = rebuild_with_summary n ms s keep"
  shows "set (window_rebuild rebuilt keep2) \<subseteq> set rebuilt - {summary_message n s}"
    and "length (window_rebuild rebuilt keep2) < length rebuilt"
proof -
  let ?recent = "recent_messages ms keep (map oid (anchors ms))"
  have ms: "distinct (map oid ms)" "answered ms" "\<forall>i \<in> set (map oid ms). i < n" using ok by (simp_all add: history_ok_def)
  note kept = recent_messages_kept [OF ms(1,2), of keep]
  obtain t where t: "task_message ms = Some t" using task by blast
  have rebuilt: "rebuilt = anchors ms @ summary_message n s # ?recent" by (simp add: rebuilt_def rebuild_with_summary_def)
  have anchors: "anchors rebuilt = anchors ms"
    unfolding rebuilt using head_system_summary [of ms n s ?recent] task_message_anchors [OF t, of "summary_message n s # ?recent"] t
    by (simp add: anchors_def)
  have old: "m \<noteq> summary_message n s" if "m \<in> set ms" for m
    using ms(3) that by (auto simp: summary_message_def)
  have "filter (\<lambda>m. role m = ASSISTANT \<and> oid m \<notin> set (map oid (anchors ms))) ?recent = filter (\<lambda>m. role m = ASSISTANT) ?recent"
    using kept(4) by (intro filter_cong) auto
  with turns have within: "set (recent_messages rebuilt keep2 (map oid (anchors ms))) \<subseteq> set ?recent"
    using recent_messages_within [of keep2 "map oid (anchors ms)" ?recent "anchors ms @ [summary_message n s]"] by (simp add: rebuilt)
  have window: "window_rebuild rebuilt keep2 = anchors ms @ recent_messages rebuilt keep2 (map oid (anchors ms))"
    by (simp only: window_rebuild_def anchors)
  have members: "set rebuilt = insert (summary_message n s) (set (anchors ms) \<union> set ?recent)" by (auto simp: rebuilt)
  show sub: "set (window_rebuild rebuilt keep2) \<subseteq> set rebuilt - {summary_message n s}"
    unfolding window using within old kept(2) anchors_subset [of ms] members by auto
  have good: "history_ok rebuilt (Suc n)" unfolding rebuilt_def by (rule rebuild_with_summary_ok [OF ok])
  have d: "distinct (window_rebuild rebuilt keep2)" "distinct rebuilt"
    using window_rebuild_ok(1) [OF good, of keep2] good by (auto simp: history_ok_def distinct_map)
  have "set (window_rebuild rebuilt keep2) \<subset> set rebuilt" using sub members by auto
  with d show "length (window_rebuild rebuilt keep2) < length rebuilt"
    by (metis distinct_card List.finite_set psubset_card_mono)
qed

lemma usage_double: "usage_of \<lparr>cr_messages = ms, cr_used = capacity env * 2, cr_capacity = capacity env, cr_keep = k\<rparr> = 2"
proof -
  have "0 < capacity env" by (simp add: capacity_def)
  then show ?thesis by (simp add: usage_of_def)
qed

subsection \<open>Properties\<close>


definition demo_context_env :: context_env where
  "demo_context_env = \<lparr>max_context_tokens = 1000, reserved_output_tokens = 0, safety_margin_tokens = 0,
     proactive_threshold = 100, keep_recent_turns = 2, three_step_summary = True, has_buffer = False,
     json_chars = (\<lambda>_. 2), args_text = (\<lambda>_. []), repr_text = id, count_request = (\<lambda>ms. 990), tools_tokens = 0,
     summary_call = (\<lambda>_ _ _. Some ''SUMMARY''), prune_stub = (\<lambda>_ _. (''stub'', None)),
     archive_pointer = (\<lambda>_ _. (''archive'', P_none))\<rparr>"

definition demo_conversation :: conversation where
  "demo_conversation = \<lparr>messages = [plain_message 0 SYSTEM ''s'', plain_message 1 USER ''task'',
       (plain_message 2 ASSISTANT [])\<lparr>tool_calls := [demo_call]\<rparr>, tool_message 3 ''done'' demo_call,
       plain_message 4 ASSISTANT ''b'', plain_message 5 ASSISTANT ''c''],
     anchor_tokens = None, anchor_from_provider = False, pending_tokens = 0, count_overhead = 0, last_raw_anchor = 0,
     strategy = Summarizing, last_compaction = None, fresh = 6\<rparr>"

lemma demo_conversation_ok: "conversation_ok demo_conversation"
proof -
  have "distinct (map oid (messages demo_conversation))" by code_simp
  moreover have "\<forall>i \<in> set (map oid (messages demo_conversation)). i < fresh demo_conversation" by code_simp
  moreover have "answered (messages demo_conversation)" by code_simp
  ultimately show ?thesis by (simp add: conversation_ok_def history_ok_def)
qed


text \<open>C15. A forced compaction throws away the summary it has just paid for: with the summarizing strategy,
  once the recent part of the history has half the configured turns, \<open>force_compact\<close> calls the
  summarizer, and the message that holds the summary is not in the history it installs.\<close>

theorem forced_compaction_discards_summary:
  assumes "conversation_ok cx" "strategy cx = Summarizing" "0 \<le> proactive_threshold env"
    and "task_message (messages cx) \<noteq> None"
    and "max 1 (keep_recent_turns env div 2) \<le> int (length (filter (\<lambda>m. role m = ASSISTANT)
           (recent_messages (messages cx) (keep_recent_turns env) (map oid (anchors (messages cx))))))"
    and "force_compact env cx = (True, cx')"
  shows "\<forall>m \<in> set (messages cx'). oid m \<noteq> oid (summary_message (Suc (fresh cx)) (build_summary env (fresh cx) (messages cx)))"
proof -
  define s where "s = build_summary env (fresh cx) (messages cx)"
  define rebuilt where "rebuilt = rebuild_with_summary (Suc (fresh cx)) (messages cx) s (keep_recent_turns env)"
  define new where "new = window_rebuild rebuilt (max 1 (keep_recent_turns env div 2))"
  have ok: "history_ok (messages cx) (Suc (fresh cx))" using assms(1) history_ok_mono by (auto simp: conversation_ok_def)
  have drop: "set new \<subseteq> set rebuilt - {summary_message (Suc (fresh cx)) s}" "length new < length rebuilt"
    using window_drops_summary [OF ok assms(4,5) rebuilt_def] by (simp_all add: new_def)
  have good: "history_ok rebuilt (Suc (Suc (fresh cx)))" unfolding rebuilt_def by (rule rebuild_with_summary_ok [OF ok])
  have "0 < capacity env" by (simp add: capacity_def)
  let ?cx2 = "(snd (used_tokens env cx))\<lparr>messages := messages cx, strategy := Summarizing, fresh := Suc (Suc (fresh cx))\<rparr>"
  obtain out where cx': "cx' = install env new out ?cx2"
    using assms(6) drop(2) \<open>0 < capacity env\<close> assms(3)
    by (auto simp: force_compact_def assms(2) summarizing_condense_def after_condense_def window_condense_def usage_double
        unchanged_history_def Let_def new_def rebuilt_def s_def split: if_splits)
  have fresh2: "\<forall>m \<in> set new. oid m \<noteq> Suc (fresh cx)"
  proof
    fix m assume m: "m \<in> set new"
    with drop(1) have "m \<in> set rebuilt" "m \<noteq> summary_message (Suc (fresh cx)) s" by auto
    moreover have "summary_message (Suc (fresh cx)) s \<in> set rebuilt" by (simp add: rebuilt_def rebuild_with_summary_def)
    ultimately show "oid m \<noteq> Suc (fresh cx)"
      using distinct_oid [of rebuilt m "summary_message (Suc (fresh cx)) s"] good
      by (auto simp: history_ok_def summary_message_def)
  qed
  obtain ms n where a: "archive_dropped env (messages cx) new (Suc (Suc (fresh cx))) = (ms, n)" by fastforce
  have "\<forall>m \<in> set ms. oid m \<noteq> Suc (fresh cx)"
    using archive_dropped_oids [OF fresh2, of "Suc (Suc (fresh cx))" env "messages cx"] by (simp add: a)
  then show ?thesis by (simp add: cx' install_def a summary_message_def)
qed

theorem forced_compaction_discards_summary_witness:
  "\<exists>cx'. force_compact demo_context_env demo_conversation = (True, cx') \<and> (\<forall>m \<in> set (messages cx'). oid m \<noteq> 7)"
proof -
  have "fst (force_compact demo_context_env demo_conversation)" by code_simp
  then obtain cx' where f: "force_compact demo_context_env demo_conversation = (True, cx')" by (metis (full_types) prod.collapse)
  have turns: "max 1 (keep_recent_turns demo_context_env div 2) \<le> int (length (filter (\<lambda>m. role m = ASSISTANT)
      (recent_messages (messages demo_conversation) (keep_recent_turns demo_context_env) (map oid (anchors (messages demo_conversation))))))"
    by code_simp
  have task: "task_message (messages demo_conversation) \<noteq> None" by code_simp
  have other: "strategy demo_conversation = Summarizing" "0 \<le> proactive_threshold demo_context_env" "fresh demo_conversation = 6"
    by (simp_all add: demo_conversation_def demo_context_env_def)
  from forced_compaction_discards_summary [OF demo_conversation_ok other(1,2) task turns f] other(3) f
  show ?thesis by (intro exI [of _ cx']) (simp add: summary_message_def)
qed

end
