(* ===== verification/Acceptance.thy ===== *)
theory Acceptance
  imports Patterns
begin

text \<open>
  The acceptance contract of a run (\<open>garuda/core/contract.py\<close>) and the tool with which the agent
  resolves its criteria (\<open>garuda/tools/contract.py\<close>). The reply of the model that derives the
  criteria is parsed JSON; \<open>str_of\<close> is \<open>str\<close> of a value that is not text. The tool raises
  (\<open>None\<close>) where Python calls \<open>strip\<close> on something that is not text.

  The lemmas str_of that a criterion is resolved only with a note that says how, that a batch applies
  its marks one by one, and that the ids given by \<open>_coerce\<close> and by \<open>add\<close> can coincide.
\<close>

subsection \<open>Criteria\<close>

definition CRITERION_STATUSES :: "string list" where
  "CRITERION_STATUSES = [''unverified'', ''verified'', ''assumed'', ''unverifiable'']"

definition MAX_CRITERIA :: nat where "MAX_CRITERIA = 20"

record criterion =
  criterion_id :: string
  criterion_text :: string
  criterion_kind :: string
  criterion_check :: string
  specified :: bool
  status :: string
  criterion_note :: string

type_synonym acceptance_contract = "criterion list"

definition outstanding :: "acceptance_contract \<Rightarrow> criterion list" where
  "outstanding cs = filter (\<lambda>c. status c = ''unverified'') cs"

definition same_criterion :: "string \<Rightarrow> criterion \<Rightarrow> bool" where
  "same_criterion i c \<longleftrightarrow> py_lower (criterion_id c) = py_lower (py_strip i)"

definition get_criterion :: "acceptance_contract \<Rightarrow> string \<Rightarrow> criterion option" where
  "get_criterion cs i = find (same_criterion i) cs"

fun mark_first :: "string \<Rightarrow> (criterion \<Rightarrow> criterion) \<Rightarrow> acceptance_contract \<Rightarrow> acceptance_contract" where
  "mark_first i f [] = []"
| "mark_first i f (c # cs) = (if same_criterion i c then f c # cs else c # mark_first i f cs)"

definition mark :: "acceptance_contract \<Rightarrow> string \<Rightarrow> string \<Rightarrow> string \<Rightarrow> bool \<times> acceptance_contract" where
  "mark cs i new_status new_note =
     (if get_criterion cs i = None then (False, cs)
      else if new_status \<notin> set CRITERION_STATUSES then (False, cs)
      else if new_status \<noteq> ''unverified'' \<and> py_strip new_note = [] then (False, cs)
      else (True, mark_first i (\<lambda>c. c\<lparr>status := new_status, criterion_note := take 400 (py_strip new_note)\<rparr>) cs))"

text \<open>\<open>str(v or "")\<close>.\<close>

definition text_of :: "(pyval \<Rightarrow> string) \<Rightarrow> pyval option \<Rightarrow> string" where
  "text_of str_of v = (case v of None \<Rightarrow> [] | Some (P_str s) \<Rightarrow> s | Some w \<Rightarrow> if truthy w then str_of w else [])"

fun mark_many :: "(pyval \<Rightarrow> string) \<Rightarrow> acceptance_contract \<Rightarrow> pyval list \<Rightarrow> nat \<times> acceptance_contract" where
  "mark_many str_of cs [] = (0, cs)"
| "mark_many str_of cs (entry # marks) =
     (case entry of
        P_dict d \<Rightarrow>
          (let i = py_strip (text_of str_of (dict_get d ''id''));
               st = py_lower (py_strip (text_of str_of (dict_get d ''status''))) in
           if i = [] then mark_many str_of cs marks
           else
            (let (ok, cs1) = mark cs i (if st = [] then ''unverified'' else st) (text_of str_of (dict_get d ''note''));
                 (applied, cs2) = mark_many str_of cs1 marks in
             ((if ok then Suc applied else applied), cs2)))
      | _ \<Rightarrow> mark_many str_of cs marks)"

definition add_criterion :: "acceptance_contract \<Rightarrow> string \<Rightarrow> acceptance_contract" where
  "add_criterion cs text0 =
     cs @ [\<lparr>criterion_id = ''c'' @ show_nat (length cs + 1), criterion_text = py_strip text0, criterion_kind = ''behaviour'',
            criterion_check = [], specified = True, status = ''unverified'', criterion_note = []\<rparr>]"

subsection \<open>Deriving the contract\<close>

definition coerce_item :: "(pyval \<Rightarrow> string) \<Rightarrow> nat \<Rightarrow> pyval \<Rightarrow> criterion option" where
  "coerce_item str_of index item =
     (case item of
        P_dict d \<Rightarrow>
          (let txt = py_strip (text_of str_of (dict_get d ''text''));
               kind = text_of str_of (dict_get d ''kind'') in
           if txt = [] then None
           else Some \<lparr>criterion_id = ''c'' @ show_nat index, criterion_text = take 300 txt,
             criterion_kind = take 24 (if kind = [] then ''behaviour'' else kind),
             criterion_check = take 400 (text_of str_of (dict_get d ''check'')),
             specified = (case dict_get d ''specified'' of None \<Rightarrow> True | Some v \<Rightarrow> truthy v),
             status = ''unverified'', criterion_note = []\<rparr>)
      | _ \<Rightarrow> None)"

definition coerce_contract :: "(pyval \<Rightarrow> string) \<Rightarrow> pyval dict \<Rightarrow> acceptance_contract" where
  "coerce_contract str_of payload =
     (case dict_get payload ''criteria'' of
        Some (P_list raw) \<Rightarrow>
          List.map_filter (\<lambda>(n, item). coerce_item str_of n item) (enumerate 1 (take MAX_CRITERIA raw))
      | _ \<Rightarrow> [])"

text \<open>\<open>derive_contract\<close>: \<open>reply\<close> is the JSON object of the model's reply, \<open>None\<close> if the call failed or gave none.\<close>

definition derive_contract :: "(pyval \<Rightarrow> string) \<Rightarrow> string \<Rightarrow> pyval dict option \<Rightarrow> acceptance_contract option" where
  "derive_contract str_of task reply =
     (if py_strip task = [] then None else map_option (coerce_contract str_of) reply)"

subsection \<open>The tool\<close>

text \<open>\<open>(arguments.get(k) or dflt).strip()\<close>; \<open>None\<close> where the value has no \<open>strip\<close>.\<close>

definition stripped_arg :: "pyval dict \<Rightarrow> string \<Rightarrow> string \<Rightarrow> string option" where
  "stripped_arg args k dflt =
     (case dict_get args k of
        None \<Rightarrow> Some (py_strip dflt)
      | Some v \<Rightarrow> if truthy v then (case v of P_str s \<Rightarrow> Some (py_strip s) | _ \<Rightarrow> None) else Some (py_strip dflt))"

definition single_mark :: "pyval dict \<Rightarrow> string \<Rightarrow> string \<Rightarrow> pyval" where
  "single_mark args i st =
     P_dict [(''id'', P_str i), (''status'', P_str (py_lower st)),
             (''note'', case dict_get args ''note'' of Some v \<Rightarrow> if truthy v then v else P_str [] | None \<Rightarrow> P_str [])]"

text \<open>The result of a call: whether it is an error, and the contract afterwards.\<close>

definition contract_tool :: "(pyval \<Rightarrow> string) \<Rightarrow> pyval dict \<Rightarrow> acceptance_contract \<Rightarrow> bool option \<times> acceptance_contract" where
  "contract_tool str_of args cs =
     (case stripped_arg args ''action'' ''view'' of
        None \<Rightarrow> (None, cs)
      | Some act \<Rightarrow>
          (let action = py_lower act in
           if action = ''view'' then (Some False, cs)
           else if action = ''add'' then
             (case stripped_arg args ''text'' [] of
                None \<Rightarrow> (None, cs)
              | Some txt \<Rightarrow> if txt = [] then (Some True, cs) else (Some False, add_criterion cs txt))
           else if action = ''mark'' then
             (case dict_get args ''marks'' of
                Some (P_list (m # ms)) \<Rightarrow>
                  (let (applied, cs1) = mark_many str_of cs (m # ms) in (Some (applied = 0), cs1))
              | _ \<Rightarrow>
                  (case stripped_arg args ''id'' [] of
                     None \<Rightarrow> (None, cs)
                   | Some i \<Rightarrow>
                       if i = [] then (Some True, cs)
                       else (case stripped_arg args ''status'' [] of
                          None \<Rightarrow> (None, cs)
                        | Some st \<Rightarrow>
                            (let (applied, cs1) = mark_many str_of cs [single_mark args i st] in (Some (applied = 0), cs1)))))
           else (Some True, cs)))"

subsection \<open>Lemmas\<close>

definition noted :: "acceptance_contract \<Rightarrow> bool" where
  "noted cs \<longleftrightarrow> (\<forall>c \<in> set cs. status c \<noteq> ''unverified'' \<longrightarrow> criterion_note c \<noteq> [])"

lemma noted_mark_first: "noted cs \<Longrightarrow> (\<And>c. status (f c) \<noteq> ''unverified'' \<Longrightarrow> criterion_note (f c) \<noteq> [])
    \<Longrightarrow> noted (mark_first i f cs)"
  by (induction cs) (auto simp: noted_def)

lemma noted_mark: "noted cs \<Longrightarrow> noted (snd (mark cs i st nt))"
  by (auto simp: mark_def intro: noted_mark_first)

lemma noted_mark_many: "noted cs \<Longrightarrow> noted (snd (mark_many str_of cs marks))"
proof (induction marks arbitrary: cs)
  case (Cons entry marks)
  show ?case
  proof (cases entry)
    case (P_dict d)
    let ?i = "py_strip (text_of str_of (dict_get d ''id''))"
    let ?st = "py_lower (py_strip (text_of str_of (dict_get d ''status'')))"
    obtain ok cs1 where m: "mark cs ?i (if ?st = [] then ''unverified'' else ?st) (text_of str_of (dict_get d ''note'')) = (ok, cs1)"
      by fastforce
    with noted_mark [OF Cons.prems, of ?i] have "noted cs1" by (metis snd_conv)
    from Cons.IH [OF this] Cons.IH [OF Cons.prems] show ?thesis
      by (simp only: P_dict mark_many.simps pyval.case Let_def m prod.case case_prod_beta snd_conv if_distrib [of snd]) simp
  qed (use Cons in simp_all)
qed simp

lemma noted_add: "noted cs \<Longrightarrow> noted (add_criterion cs t)"
  by (auto simp: noted_def add_criterion_def)

lemma contract_tool_result:
  "snd (contract_tool str_of args cs) = cs \<or> (\<exists>t. snd (contract_tool str_of args cs) = add_criterion cs t)
   \<or> (\<exists>marks. snd (contract_tool str_of args cs) = snd (mark_many str_of cs marks))"
proof (cases "stripped_arg args ''action'' ''view''")
  case (Some act)
  consider "py_lower act = ''view''" | "py_lower act = ''add''" | "py_lower act = ''mark''"
    | "py_lower act \<notin> {''view'', ''add'', ''mark''}" by blast
  then show ?thesis
  proof cases
    case 2
    with Some show ?thesis by (cases "stripped_arg args ''text'' []") (auto simp: contract_tool_def)
  next
    case 3
    have "snd (contract_tool str_of args cs) = cs \<or> (\<exists>marks. snd (contract_tool str_of args cs) = snd (mark_many str_of cs marks))"
      unfolding contract_tool_def Some option.case Let_def 3 case_prod_beta
      by (simp del: mark_many.simps split: option.split pyval.split list.split) blast
    then show ?thesis by blast
  qed (simp_all add: contract_tool_def Some)
qed (simp add: contract_tool_def)

lemma noted_tool: "noted cs \<Longrightarrow> noted (snd (contract_tool str_of args cs))"
  using contract_tool_result [of str_of args cs] noted_mark_many [of cs str_of] noted_add [of cs] by metis

lemma noted_coerce: "noted (coerce_contract str_of payload)"
  by (auto simp: noted_def coerce_contract_def coerce_item_def map_filter_def Let_def split: option.splits pyval.splits if_splits)

text \<open>The contracts a run can reach: derived once, then changed by calls of the tool.\<close>

inductive contract_reach :: "(pyval \<Rightarrow> string) \<Rightarrow> acceptance_contract \<Rightarrow> bool" for str_of where
  derived: "derive_contract str_of task reply = Some cs \<Longrightarrow> contract_reach str_of cs"
| called: "contract_reach str_of cs \<Longrightarrow> contract_reach str_of (snd (contract_tool str_of args cs))"

lemma mark_first_other: "find (same_criterion i) cs = Some c \<Longrightarrow> \<exists>xs ys. cs = xs @ c # ys \<and> mark_first i f cs = xs @ f c # ys
    \<and> list_all (\<lambda>x. \<not> same_criterion i x) xs"
proof (induction cs)
  case (Cons d cs)
  show ?case
  proof (cases "same_criterion i d")
    case True
    with Cons.prems show ?thesis by (intro exI [of _ "[]"] exI [of _ cs]) simp
  next
    case False
    with Cons obtain xs ys where "cs = xs @ c # ys" "mark_first i f cs = xs @ f c # ys" "list_all (\<lambda>x. \<not> same_criterion i x) xs"
      by auto
    with False show ?thesis by (intro exI [of _ "d # xs"] exI [of _ ys]) simp
  qed
qed simp

lemma mark_first_id: "(\<And>c. criterion_id (f c) = criterion_id c) \<Longrightarrow> map criterion_id (mark_first i f cs) = map criterion_id cs"
  by (induction cs) auto

subsection \<open>Properties\<close>

text \<open>A criterion is never resolved silently: in every contract a run can reach, whatever the model
  derives and whatever arguments the tool is called with, a criterion that is not outstanding
  carries a note.\<close>

lemma resolved_criteria_are_noted:
  assumes "contract_reach str_of cs" "c \<in> set cs" "c \<notin> set (outstanding cs)"
  shows "criterion_note c \<noteq> []"
proof -
  from assms(1) have "noted cs"
    by induction (auto simp: derive_contract_def noted_coerce noted_tool split: if_splits)
  with assms(2,3) show ?thesis by (simp add: noted_def outstanding_def)
qed

definition demo_payload :: "pyval dict" where
  "demo_payload = [(''criteria'', P_list [P_dict [(''text'', P_str ''creates out.txt'')], P_dict [],
     P_dict [(''text'', P_str ''handles empty input'')]])]"

definition demo_contract :: acceptance_contract where
  "demo_contract = coerce_contract (\<lambda>_. []) demo_payload"

lemma demo_contract_reach: "contract_reach (\<lambda>_. []) demo_contract"
proof (rule contract_reach.derived [where task = "''t''" and reply = "Some demo_payload"])
  show "derive_contract (\<lambda>_. []) ''t'' (Some demo_payload) = Some demo_contract"
    by (simp add: derive_contract_def demo_contract_def) code_simp
qed

definition demo_marks :: "pyval dict" where
  "demo_marks = [(''action'', P_str ''mark''), (''id'', P_str ''C1''), (''status'', P_str ''verified''), (''note'', P_str ''ran it'')]"

text \<open>Two criteria with one id: a mark only ever reaches the first.\<close>

lemma mark_first_append: "get_criterion cs i \<noteq> None \<Longrightarrow> mark_first i f (cs @ ds) = mark_first i f cs @ ds"
  unfolding get_criterion_def by (induction cs) (auto split: if_splits)

lemma mark_first_keeps_id: "(\<And>c. criterion_id (f c) = criterion_id c) \<Longrightarrow>
    (get_criterion (mark_first i f cs) j = None) = (get_criterion cs j = None)"
  unfolding get_criterion_def by (induction cs) (auto simp: same_criterion_def)

lemma mark_shadowed:
  assumes "\<And>j. same_criterion j d \<Longrightarrow> get_criterion cs j \<noteq> None"
  shows "\<exists>cs'. snd (mark (cs @ [d]) i st nt) = cs' @ [d] \<and> (\<forall>j. same_criterion j d \<longrightarrow> get_criterion cs' j \<noteq> None)"
proof (cases "get_criterion cs i = None")
  case True
  with assms have "\<not> same_criterion i d" by blast
  with True have "get_criterion (cs @ [d]) i = None" by (auto simp: get_criterion_def find_None_iff)
  with assms show ?thesis by (simp add: mark_def)
next
  case False
  let ?f = "\<lambda>c. c\<lparr>status := st, criterion_note := take 400 (py_strip nt)\<rparr>"
  from False have "get_criterion (cs @ [d]) i \<noteq> None" by (auto simp: get_criterion_def find_None_iff)
  moreover have "\<forall>j. same_criterion j d \<longrightarrow> get_criterion (mark_first i ?f cs) j \<noteq> None"
    using mark_first_keeps_id [of ?f i cs] assms by simp
  ultimately show ?thesis using assms mark_first_append [OF False, of ?f "[d]"] by (auto simp: mark_def)
qed

lemma mark_many_shadowed:
  "(\<And>j. same_criterion j d \<Longrightarrow> get_criterion cs j \<noteq> None) \<Longrightarrow> \<exists>cs'. snd (mark_many str_of (cs @ [d]) marks) = cs' @ [d]"
proof (induction marks arbitrary: cs)
  case (Cons entry marks)
  show ?case
  proof (cases entry)
    case (P_dict e)
    let ?i = "py_strip (text_of str_of (dict_get e ''id''))"
    let ?st = "py_lower (py_strip (text_of str_of (dict_get e ''status'')))"
    let ?m = "mark (cs @ [d]) ?i (if ?st = [] then ''unverified'' else ?st) (text_of str_of (dict_get e ''note''))"
    obtain cs' where cs': "snd ?m = cs' @ [d]" "\<forall>j. same_criterion j d \<longrightarrow> get_criterion cs' j \<noteq> None"
      using mark_shadowed [OF Cons.prems] by blast
    obtain ok where m: "?m = (ok, cs' @ [d])" using cs'(1) by (cases ?m) simp
    from Cons.IH [of cs'] cs'(2) Cons.IH [OF Cons.prems] show ?thesis
      by (simp only: P_dict mark_many.simps pyval.case Let_def m prod.case case_prod_beta snd_conv if_distrib [of snd]) simp
  qed (use Cons in simp_all)
qed simp

text \<open>C16. A criterion the agent adds can be unresolvable: when the derivation skipped an entry, \<open>add\<close>
  reuses the id of a derived criterion, every mark with that id goes to the first of the two, and
  the second stays outstanding whatever marks the agent sends.\<close>

theorem duplicate_criterion_unresolvable:
  "\<exists>cs d. add_criterion demo_contract ''no network'' = cs @ [d] \<and> map criterion_id (cs @ [d]) = [''c1'', ''c3'', ''c3'']
    \<and> (\<forall>str_of marks. d \<in> set (outstanding (snd (mark_many str_of (cs @ [d]) marks))))"
proof -
  define d where "d = last (add_criterion demo_contract ''no network'')"
  have split: "add_criterion demo_contract ''no network'' = demo_contract @ [d]" by (simp add: d_def add_criterion_def)
  have ids: "map criterion_id (demo_contract @ [d]) = [''c1'', ''c3'', ''c3'']" unfolding split [symmetric] by code_simp
  have open_d: "status d = ''unverified''" unfolding d_def by code_simp
  from ids obtain a b where ab: "demo_contract = [a, b]" "criterion_id b = criterion_id d"
    by (cases demo_contract; cases "tl demo_contract"; cases "tl (tl demo_contract)") auto
  have "get_criterion demo_contract j \<noteq> None" if "same_criterion j d" for j
    using that ab(2) unfolding ab(1) by (simp add: get_criterion_def same_criterion_def)
  note shadow = this
  have "d \<in> set (outstanding (snd (mark_many str_of (demo_contract @ [d]) marks)))" for str_of marks
  proof -
    obtain cs' where "snd (mark_many str_of (demo_contract @ [d]) marks) = cs' @ [d]"
      using mark_many_shadowed [of d demo_contract str_of marks] shadow by blast
    with open_d show ?thesis by (simp add: outstanding_def)
  qed
  with split ids show ?thesis by (intro exI [of _ demo_contract] exI [of _ d] conjI allI)
qed

end
