(* ===== verification/Verification.thy ===== *)
theory Verification
  imports Acceptance Context Permissions Evidence
begin

text \<open>
  The verifier of a completion claim (\<open>garuda/core/verifier.py\<close>): the screen of the evidence, the run
  of the agent's verification commands, the repetition of the discriminating ones, an optional
  grader, and the judge model.

  Everything outside the process answers through the environment: a command run in the workspace,
  the judge, a grader hook, the loader of the session's baseline. Each answer is a function of
  \<open>ticks\<close>, the number of interactions so far, so it may differ every time; \<open>ran\<close> lists the commands
  sent to the workspace. \<open>Environment_unavailable\<close> is the exception for a workspace that is gone.
  Python keeps the checklist and the evidence in objects that every result of a run shares; here
  they are passed along, and a result holds them as they are when it is returned.

  The wording of a feedback is not modelled: \<open>feedback\<close> has a constructor per message with what
  is formatted into it.
\<close>

subsection \<open>Configuration and the outside\<close>

record agent_config =
  enable_verifier :: bool
  require_discriminating_evidence :: bool
  require_stable_verification :: bool
  parallel_verification :: bool
  enable_llm_verifier :: bool
  enable_acceptance_contract :: bool
  enable_side_effect_sweep :: bool
  enable_request_preflight :: bool
  enable_working_state_card :: bool
  force_final_submission :: bool
  output_schema :: "pyval option"
  max_turns :: nat

datatype halt = Environment_unavailable | Permission_failed perm_error | Bad_arguments

text \<open>What \<open>env.execute\<close> gives: a result, an exception, or the exception for a dead workspace.\<close>

datatype exec_outcome = Ran int string string | Not_run string | Workspace_gone

datatype feedback =
    Empty_summary | Short_summary | No_new_evidence nat "feedback option" | No_evidence
  | Weak_evidence "(string \<times> weakness) list" | Command_denied string string | Command_not_run string string
  | Command_failed string int string string | Not_repeatable string int int | Grader_failed
  | Judge_unreachable | Judge_rejected string | Judge_unclear | Baseline_unavailable string
  | Verification_failed | Criteria_open nat "(string \<times> string) list" | Output_invalid "string list" nat bool
  | Other_feedback string

record observation =
  ob_command :: string
  ob_class :: evidence_class
  ob_exit :: int
  ob_stdout :: string
  ob_stderr :: string

record verification_result =
  vr_approved :: bool
  vr_checklist :: "bool dict"
  vr_feedback :: "feedback option"
  vr_evidence :: "observation list"
  vr_workspace :: "pyval dict"

datatype grader_reply = Grader_raised | No_opinion | Verdict verification_result

record answer_hook =
  authoritative :: bool
  hook_check :: "nat \<Rightarrow> grader_reply"

text \<open>What the judge's prompt is built from.\<close>

record judge_request =
  jr_task :: string
  jr_summary :: string
  jr_rationale :: "string option"
  jr_observed :: "observation list"
  jr_git :: string
  jr_conversation :: string
  jr_caution :: bool

record completion_claim =
  cl_task :: string
  cl_summary :: string
  cl_commands :: "string list"
  cl_rationale :: "string option"
  cl_messages :: "message list"

record verifier_env =
  execute_in :: "nat \<Rightarrow> string \<Rightarrow> exec_outcome"
  permissions :: "policy option"
  perm_world :: perm_env
  show_args :: "tool_args \<Rightarrow> string"
  judge :: "(nat \<Rightarrow> judge_request \<Rightarrow> string option) option"
  grader :: "answer_hook option"
  baseline :: "(nat \<Rightarrow> string + pyval dict) option"
  extract_json :: "string \<Rightarrow> pyval dict option"
  str_of_value :: "pyval \<Rightarrow> string"

record outside =
  ticks :: nat
  ran :: "string list"

type_synonym ('w, 'a) harness = "('w outside_scheme, halt, 'a) prog"

definition next_tick :: "('w, nat) harness" where
  "next_tick s = (Inr (ticks s), s\<lparr>ticks := Suc (ticks s)\<rparr>)"

definition execute :: "'e verifier_env_scheme \<Rightarrow> string \<Rightarrow> ('w, exec_outcome) harness" where
  "execute env command s =
     (Inr (execute_in env (ticks s) command), s\<lparr>ticks := Suc (ticks s), ran := ran s @ [command]\<rparr>)"

subsection \<open>Numbers in a summary\<close>

definition CONTRADICTION_RATIO :: rat where "CONTRADICTION_RATIO = 10"

text \<open>\<open>_NUMBER_RE.findall\<close>. A leading minus sign does not matter, the values are made positive.\<close>

definition number_token :: "string \<Rightarrow> string \<times> string" where
  "number_token s =
     (let whole = takeWhile (\<lambda>c. is_digit c \<or> c = CHR '','') s; after = drop (length whole) s in
      case after of
        c # cs \<Rightarrow> if c = CHR ''.'' then (whole @ c # takeWhile is_digit cs, dropWhile is_digit cs) else (whole, after)
      | [] \<Rightarrow> (whole, after))"

lemma number_token_shorter: "is_digit c \<Longrightarrow> length (snd (number_token (c # cs))) \<le> length cs"
proof -
  assume "is_digit c"
  then obtain n where n: "length (takeWhile (\<lambda>c. is_digit c \<or> c = CHR '','') (c # cs)) = Suc n" by simp
  show ?thesis
  proof (cases "drop n cs")
    case Nil
    then show ?thesis by (simp only: number_token_def Let_def n drop_Suc_Cons list.case) simp
  next
    case (Cons d ds)
    then have "Suc (length ds) \<le> length cs" by (metis diff_le_self length_Cons length_drop)
    moreover have "length (dropWhile is_digit ds) \<le> length ds" by (rule length_dropWhile_le)
    ultimately show ?thesis using Cons by (simp only: number_token_def Let_def n drop_Suc_Cons list.case) simp
  qed
qed

function number_tokens :: "string \<Rightarrow> string list" where
  "number_tokens [] = []"
| "number_tokens (c # cs) =
     (if is_digit c then fst (number_token (c # cs)) # number_tokens (snd (number_token (c # cs)))
      else number_tokens cs)"
  by pat_completeness auto
termination by (relation "measure length") (auto simp: number_token_shorter less_Suc_eq_le)

definition digits_value :: "string \<Rightarrow> nat" where
  "digits_value s = foldl (\<lambda>n c. n * 10 + (of_char c - 48)) 0 s"

definition token_value :: "string \<Rightarrow> rat" where
  "token_value tok =
     (let t = filter (\<lambda>c. c \<noteq> CHR '','') tok; whole = takeWhile (\<lambda>c. c \<noteq> CHR ''.'') t;
          frac = drop (Suc (length whole)) t in
      of_nat (digits_value (whole @ frac)) / 10 ^ length frac)"

definition significant_numbers :: "string \<Rightarrow> rat list" where
  "significant_numbers s = filter (\<lambda>v. v \<noteq> 0) (map token_value (number_tokens s))"

definition has_numeric_contradiction :: "string \<Rightarrow> bool" where
  "has_numeric_contradiction s =
     (let numbers = significant_numbers s in
      if length numbers < 2 then False
      else fold max (tl numbers) (hd numbers) / fold min (tl numbers) (hd numbers) > CONTRADICTION_RATIO)"

subsection \<open>The judge's reply\<close>

definition APPROVE_WORDS :: "string list" where
  "APPROVE_WORDS = [''approve'', ''pass'', ''yes'', ''true'', ''ok'', ''accept'']"

definition REJECT_WORDS :: "string list" where
  "REJECT_WORDS = [''reject'', ''fail'', ''no'', ''false'', ''deny'']"

definition line_break :: "char \<Rightarrow> bool" where
  "line_break c \<longleftrightarrow> (let n = of_char c :: nat in (10 \<le> n \<and> n \<le> 13) \<or> (28 \<le> n \<and> n \<le> 30) \<or> n = 133)"

definition value_text :: "'e verifier_env_scheme \<Rightarrow> pyval option \<Rightarrow> string" where
  "value_text env v = (case v of None \<Rightarrow> [] | Some (P_str s) \<Rightarrow> s | Some w \<Rightarrow> str_of_value env w)"

definition structured_verdict :: "'e verifier_env_scheme \<Rightarrow> string \<Rightarrow> (bool \<times> string) option" where
  "structured_verdict env t =
     (case extract_json env t of
        None \<Rightarrow> None
      | Some obj \<Rightarrow>
          (let verdict = py_lower (py_strip (value_text env (dict_get obj ''verdict'')));
               reason = py_strip (value_text env (dict_get obj ''reason'')) in
           if dict_get obj ''verdict'' = None then None
           else if list_ex (startswith verdict) APPROVE_WORDS then Some (True, reason)
           else if list_ex (startswith verdict) REJECT_WORDS then Some (False, reason)
           else None))"

fun first_line_verdict :: "string list \<Rightarrow> bool option \<times> string" where
  "first_line_verdict [] = (None, [])"
| "first_line_verdict (line # ls) =
     (let stripped = py_strip (strip_chars (\<lambda>c. c \<in> set ''#*_`> '') (py_strip line)) in
      if stripped = [] then first_line_verdict ls
      else if startswith (py_upper stripped) ''APPROVED'' then (Some True, stripped)
      else if startswith (py_upper stripped) ''REJECTED'' then (Some False, stripped)
      else (None, []))"

definition parse_verdict :: "'e verifier_env_scheme \<Rightarrow> string \<Rightarrow> bool option \<times> string" where
  "parse_verdict env reply =
     (let t = py_strip reply in
      if t = [] then (None, [])
      else case structured_verdict env t of
          Some (ok, reason) \<Rightarrow> (Some ok, reason)
        | None \<Rightarrow> first_line_verdict (split_on line_break t))"

subsection \<open>What the judge sees\<close>

definition EVIDENCE_MESSAGE_WINDOW :: nat where "EVIDENCE_MESSAGE_WINDOW = 15"
definition EVIDENCE_CONTENT_CHARS :: nat where "EVIDENCE_CONTENT_CHARS = 1200"

fun execute_all :: "'e verifier_env_scheme \<Rightarrow> string list \<Rightarrow> ('w, exec_outcome list) harness" where
  "execute_all env [] = ret []"
| "execute_all env (c # cs) = bindE (execute env c) (\<lambda>outcome. bindE (execute_all env cs) (\<lambda>outcomes. ret (outcome # outcomes)))"

definition git_section :: "string \<times> exec_outcome \<Rightarrow> string option" where
  "git_section p =
     (case p of (command, Ran rc out err) \<Rightarrow>
          if rc \<noteq> 0 then None
          else Some (''$ '' @ command @ [CHR 0x0A] @ (if py_strip out = [] then ''(no output)'' else py_strip out))
      | _ \<Rightarrow> None)"

definition GIT_COMMANDS :: "string list" where
  "GIT_COMMANDS = [''git status --short'', ''git diff HEAD --stat'']"

definition gather_git_evidence :: "'e verifier_env_scheme \<Rightarrow> ('w, string) harness" where
  "gather_git_evidence env =
     bindE (execute env ''git rev-parse --is-inside-work-tree'')
       (\<lambda>probe. if (case probe of Ran rc _ _ \<Rightarrow> rc = 0 | _ \<Rightarrow> False)
          then bindE (execute_all env GIT_COMMANDS)
                 (\<lambda>outcomes. ret (join_with [CHR 0x0A, CHR 0x0A] (List.map_filter git_section (zip GIT_COMMANDS outcomes))))
          else ret [])"

definition compact_line :: "message \<Rightarrow> string" where
  "compact_line m =
     (let words = join_with '' '' (py_words (content m));
          shown = (if length words > EVIDENCE_CONTENT_CHARS then take EVIDENCE_CONTENT_CHARS words @ ''...'' else words);
          line = ''['' @ role_value (role m) @ ''] '' @ shown in
      if tool_calls m = [] then line
      else line @ '' (tool calls: '' @ join_with '', '' (map call_name (tool_calls m)) @ '')'')"

definition render_messages_compact :: "message list \<Rightarrow> string" where
  "render_messages_compact ms =
     join_with [CHR 0x0A] (map compact_line (drop (length ms - EVIDENCE_MESSAGE_WINDOW) ms))"

subsection \<open>The memory of the gate\<close>

text \<open>A set of commands or of criterion ids is a list, compared as a set.\<close>

record gate_state =
  rejections :: nat
  approvals :: nat
  rejected_command_sets :: "string list list"
  last_feedback :: "feedback option"
  contract_reject_streak :: nat
  last_outstanding :: "string list option"
  contract_yielded :: bool

definition new_gate :: gate_state where
  "new_gate = \<lparr>rejections = 0, approvals = 0, rejected_command_sets = [], last_feedback = None,
     contract_reject_streak = 0, last_outstanding = None, contract_yielded = False\<rparr>"

definition record_rejection :: "string list \<Rightarrow> feedback \<Rightarrow> gate_state \<Rightarrow> gate_state" where
  "record_rejection commands fb g = g\<lparr>rejections := Suc (rejections g),
     rejected_command_sets := rejected_command_sets g @ [commands], last_feedback := Some fb\<rparr>"

definition record_contract_rejection :: "feedback \<Rightarrow> gate_state \<Rightarrow> gate_state" where
  "record_contract_rejection fb g = g\<lparr>rejections := Suc (rejections g), last_feedback := Some fb\<rparr>"

definition same_outstanding :: "string list \<Rightarrow> gate_state \<Rightarrow> bool" where
  "same_outstanding ids g = (case last_outstanding g of None \<Rightarrow> False | Some old \<Rightarrow> set ids = set old)"

definition note_contract_rejection :: "string list \<Rightarrow> gate_state \<Rightarrow> nat \<times> gate_state" where
  "note_contract_rejection ids g =
     (if same_outstanding ids g
      then (Suc (contract_reject_streak g), g\<lparr>contract_reject_streak := Suc (contract_reject_streak g)\<rparr>)
      else (1, g\<lparr>contract_reject_streak := 1, last_outstanding := Some ids\<rparr>))"

definition weaker_than_rejected :: "string list \<Rightarrow> gate_state \<Rightarrow> bool" where
  "weaker_than_rejected commands g \<longleftrightarrow>
     rejections g \<noteq> 0 \<and> list_ex (\<lambda>previous. set commands \<subseteq> set previous) (rejected_command_sets g)"

subsection \<open>Running the verification commands\<close>

text \<open>\<open>_verification_segments\<close>: the commands keep their number.\<close>

definition verification_segments :: "string list \<Rightarrow> bool \<Rightarrow> (bool \<times> (nat \<times> string) list) list" where
  "verification_segments commands enabled =
     (if \<not> enabled then map (\<lambda>p. (False, [p])) (enumerate 0 commands)
      else segments (\<lambda>p. is_side_effect_free (snd p)) (enumerate 0 commands))"

definition bash_args :: "string \<Rightarrow> tool_args" where
  "bash_args command = \<lparr>text_args = [(''command'', command)], marker_polling = False\<rparr>"

definition permit :: "'e verifier_env_scheme \<Rightarrow> string \<Rightarrow> halt + bool \<times> string option" where
  "permit env command =
     (case permissions env of
        None \<Rightarrow> Inr (True, None)
      | Some p \<Rightarrow>
          (case evaluate_tool_call (perm_world env) (show_args env) p ''bash'' (bash_args command) of
             Inl err \<Rightarrow> Inl (Permission_failed err)
           | Inr (allowed, reason, _) \<Rightarrow> Inr (allowed, reason)))"

definition command_key :: "nat \<Rightarrow> string" where
  "command_key i = ''verify_cmd_'' @ show_nat i"

type_synonym tally = "bool dict \<times> observation list"

text \<open>\<open>_record_outcome\<close>: the feedback of the rejection, if the outcome is one, and the new tally.\<close>

definition record_outcome :: "string \<Rightarrow> nat \<Rightarrow> exec_outcome \<Rightarrow> tally \<Rightarrow> feedback option \<times> tally" where
  "record_outcome command i outcome t =
     (case outcome of
        Ran rc out err \<Rightarrow>
          (if rc = 0 then None else Some (Command_failed command rc out err),
           dict_set (command_key i) (rc = 0) (fst t),
           snd t @ [\<lparr>ob_command = command, ob_class = classify_command command, ob_exit = rc,
             ob_stdout = take EVIDENCE_CONTENT_CHARS out, ob_stderr = take EVIDENCE_CONTENT_CHARS err\<rparr>])
      | Not_run exn \<Rightarrow> (Some (Command_not_run command exn), dict_set (command_key i) False (fst t), snd t)
      | Workspace_gone \<Rightarrow> (None, t))"

definition denied :: "string \<Rightarrow> nat \<Rightarrow> string option \<Rightarrow> tally \<Rightarrow> feedback option \<times> tally" where
  "denied command i reason t =
     (Some (Command_denied command (case reason of None \<Rightarrow> [] | Some r \<Rightarrow> r)), dict_set (command_key i) False (fst t), snd t)"

definition execute_one :: "'e verifier_env_scheme \<Rightarrow> nat \<times> string \<Rightarrow> tally \<Rightarrow> ('w, feedback option \<times> tally) harness" where
  "execute_one env p t =
     bindE (execute env (snd p)) (\<lambda>outcome.
       if outcome = Workspace_gone then raise Environment_unavailable
       else ret (record_outcome (snd p) (fst p) outcome t))"

fun run_group_serially :: "'e verifier_env_scheme \<Rightarrow> (nat \<times> string) list \<Rightarrow> tally \<Rightarrow> ('w, feedback option \<times> tally) harness" where
  "run_group_serially env [] t = ret (None, t)"
| "run_group_serially env (p # ps) t =
     bindE (liftE (permit env (snd p))) (\<lambda>(allowed, reason).
       if \<not> allowed then ret (denied (snd p) (fst p) reason t)
       else bindE (execute_one env p t) (\<lambda>(failed, t1).
         if failed \<noteq> None then ret (failed, t1) else run_group_serially env ps t1))"

text \<open>The screening loop of \<open>_run_group_concurrently\<close>: what may run, and the first denial.\<close>

fun screen_group :: "'e verifier_env_scheme \<Rightarrow> (nat \<times> string) list
    \<Rightarrow> halt + (nat \<times> string) list \<times> (nat \<times> string \<times> string option) option" where
  "screen_group env [] = Inr ([], None)"
| "screen_group env (p # ps) =
     (case permit env (snd p) of
        Inl e \<Rightarrow> Inl e
      | Inr (allowed, reason) \<Rightarrow>
          if \<not> allowed then Inr ([], Some (fst p, snd p, reason))
          else (case screen_group env ps of
             Inl e \<Rightarrow> Inl e
           | Inr (runnable, denial) \<Rightarrow> Inr (p # runnable, denial)))"

text \<open>The loop that folds in the outcomes of a group and keeps the first failure.\<close>

fun record_all :: "((nat \<times> string) \<times> exec_outcome) list \<Rightarrow> feedback option \<Rightarrow> tally \<Rightarrow> feedback option \<times> tally" where
  "record_all [] first t = (first, t)"
| "record_all ((p, outcome) # xs) first t =
     (let (failed, t1) = record_outcome (snd p) (fst p) outcome t in
      record_all xs (if first = None then failed else first) t1)"

definition run_group_concurrently :: "'e verifier_env_scheme \<Rightarrow> (nat \<times> string) list \<Rightarrow> tally \<Rightarrow> ('w, feedback option \<times> tally) harness" where
  "run_group_concurrently env ps t =
     bindE (liftE (screen_group env ps)) (\<lambda>(runnable, denial).
     bindE (execute_all env (map snd runnable)) (\<lambda>outcomes.
       if Workspace_gone \<in> set outcomes then raise Environment_unavailable
       else (let (first_failure, t1) = record_all (zip runnable outcomes) None t in
         ret (if first_failure \<noteq> None then (first_failure, t1)
              else case denial of None \<Rightarrow> (None, t1) | Some (i, command, reason) \<Rightarrow> denied command i reason t1))))"

fun run_segments :: "'e verifier_env_scheme \<Rightarrow> (bool \<times> (nat \<times> string) list) list \<Rightarrow> tally \<Rightarrow> ('w, feedback option \<times> tally) harness" where
  "run_segments env [] t = ret (None, t)"
| "run_segments env ((gathered, ps) # segs) t =
     bindE (if gathered then run_group_concurrently env ps t else run_group_serially env ps t) (\<lambda>(early, t1).
       if early \<noteq> None then ret (early, t1) else run_segments env segs t1)"

definition run_commands :: "'e verifier_env_scheme \<Rightarrow> bool \<Rightarrow> string list \<Rightarrow> tally \<Rightarrow> ('w, feedback option \<times> tally) harness" where
  "run_commands env gathered commands t = run_segments env (verification_segments commands gathered) t"

text \<open>\<open>_recheck_stability\<close>: the first discriminating command whose exit code changed.\<close>

fun recheck_stability :: "'e verifier_env_scheme \<Rightarrow> observation list \<Rightarrow> ('w, (string \<times> int \<times> int) option) harness" where
  "recheck_stability env [] = ret None"
| "recheck_stability env (ob # obs) =
     (if ob_class ob \<notin> {EXECUTION, ASSERTION} then recheck_stability env obs
      else bindE (execute env (ob_command ob)) (\<lambda>again. case again of
          Workspace_gone \<Rightarrow> raise Environment_unavailable
        | Not_run _ \<Rightarrow> recheck_stability env obs
        | Ran rc _ _ \<Rightarrow> if rc \<noteq> ob_exit ob then ret (Some (ob_command ob, ob_exit ob, rc)) else recheck_stability env obs))"

subsection \<open>The verdict\<close>

definition verdict_of :: "bool \<Rightarrow> bool dict \<Rightarrow> feedback option \<Rightarrow> observation list \<Rightarrow> verification_result" where
  "verdict_of ok cl fb obs =
     \<lparr>vr_approved = ok, vr_checklist = cl, vr_feedback = fb, vr_evidence = obs, vr_workspace = []\<rparr>"

definition has_authoritative_grader :: "'e verifier_env_scheme \<Rightarrow> bool" where
  "has_authoritative_grader env = (case grader env of None \<Rightarrow> False | Some h \<Rightarrow> authoritative h)"

text \<open>The checks before anything is executed: \<open>Inl\<close> ends the verification, \<open>Inr\<close> is the checklist so far.\<close>

definition evidence_screen :: "'e verifier_env_scheme \<Rightarrow> agent_config \<Rightarrow> string list \<Rightarrow> bool dict \<Rightarrow> verification_result + bool dict" where
  "evidence_screen env cfg commands cl =
     (if \<not> (require_discriminating_evidence cfg \<and> \<not> has_authoritative_grader env) then Inr cl
      else if commands = [] then Inl (verdict_of False (dict_set ''evidence_present'' False cl) (Some No_evidence) [])
      else
       (let n = n_discriminating (summarize commands); cl1 = dict_set ''evidence_discriminating'' (n \<noteq> 0) cl in
        if n = 0 then Inl (verdict_of False cl1 (Some (Weak_evidence (map (\<lambda>c. (c, weakness_reason c)) commands))) [])
        else Inr cl1))"

definition claim_screen :: "'e verifier_env_scheme \<Rightarrow> agent_config \<Rightarrow> completion_claim \<Rightarrow> gate_state option \<Rightarrow> verification_result + bool dict" where
  "claim_screen env cfg claim g =
     (let summary = py_strip (cl_summary claim);
          cl = [(''summary_present'', summary \<noteq> []), (''summary_length'', 10 \<le> length summary)] in
      if summary = [] then Inl (verdict_of False cl (Some Empty_summary) [])
      else if length summary < 10 then Inl (verdict_of False cl (Some Short_summary) [])
      else if (case g of None \<Rightarrow> False | Some st \<Rightarrow> weaker_than_rejected (cl_commands claim) st)
      then Inl (verdict_of False (dict_set ''new_evidence'' False cl)
             (Some (No_new_evidence (Suc (rejections (the g))) (last_feedback (the g)))) [])
      else evidence_screen env cfg (cl_commands claim) cl)"

text \<open>The grader: \<open>Some\<close> verdict ends the verification. An advisory approval is no opinion.\<close>

definition ask_grader :: "'e verifier_env_scheme \<Rightarrow> tally \<Rightarrow> ('w, verification_result option) harness" where
  "ask_grader env t =
     (case grader env of
        None \<Rightarrow> ret None
      | Some h \<Rightarrow> bindE next_tick (\<lambda>n. case hook_check h n of
            Grader_raised \<Rightarrow> ret (Some (verdict_of False (dict_set ''answer_check_error'' True (fst t)) (Some Grader_failed) []))
          | No_opinion \<Rightarrow> ret None
          | Verdict v \<Rightarrow>
              if vr_approved v \<and> \<not> authoritative h then ret None
              else ret (Some (v\<lparr>vr_evidence := if vr_evidence v = [] then snd t else vr_evidence v\<rparr>))))"

text \<open>One call of the judge model and one retry.\<close>

definition ask_judge :: "(nat \<Rightarrow> judge_request \<Rightarrow> string option) \<Rightarrow> judge_request \<Rightarrow> ('w, string option) harness" where
  "ask_judge j req =
     bindE next_tick (\<lambda>n. case j n req of
         Some reply \<Rightarrow> ret (Some reply)
       | None \<Rightarrow> bindE next_tick (\<lambda>n. ret (j n req)))"

definition judgement :: "'e verifier_env_scheme \<Rightarrow> string option \<Rightarrow> tally \<Rightarrow> verification_result" where
  "judgement env reply t =
     (case reply of
         None \<Rightarrow> verdict_of False (dict_set ''llm_verdict_error'' True (fst t)) (Some Judge_unreachable) (snd t)
       | Some r \<Rightarrow> (let (ok, reason) = parse_verdict env (py_strip r) in
           case ok of
             Some True \<Rightarrow> verdict_of True (dict_set ''llm_verdict'' True (fst t)) None (snd t)
           | Some False \<Rightarrow> verdict_of False (dict_set ''llm_verdict'' False (fst t))
               (Some (Judge_rejected (if reason = [] then py_strip r else reason))) (snd t)
           | None \<Rightarrow> verdict_of False (dict_set ''llm_verdict_unparseable'' True (fst t)) (Some Judge_unclear) (snd t)))"

definition judge_prompt :: "completion_claim \<Rightarrow> observation list \<Rightarrow> string \<Rightarrow> judge_request" where
  "judge_prompt claim obs git =
     \<lparr>jr_task = cl_task claim, jr_summary = cl_summary claim, jr_rationale = cl_rationale claim,
      jr_observed = obs, jr_git = git, jr_conversation = render_messages_compact (cl_messages claim),
      jr_caution = has_numeric_contradiction (cl_summary claim)\<rparr>"

definition llm_verdict :: "'e verifier_env_scheme \<Rightarrow> (nat \<Rightarrow> judge_request \<Rightarrow> string option) \<Rightarrow> completion_claim \<Rightarrow> tally
    \<Rightarrow> ('w, verification_result) harness" where
  "llm_verdict env j claim t =
     bindE (gather_git_evidence env) (\<lambda>git.
     bindE (ask_judge j (judge_prompt claim (snd t) git)) (\<lambda>reply. ret (judgement env reply t)))"

definition final_verdict :: "'e verifier_env_scheme \<Rightarrow> agent_config \<Rightarrow> completion_claim \<Rightarrow> tally \<Rightarrow> ('w, verification_result) harness" where
  "final_verdict env cfg claim t =
     bindE (ask_grader env t) (\<lambda>graded. case graded of
         Some v \<Rightarrow> ret v
       | None \<Rightarrow>
          (case judge env of
             Some j \<Rightarrow> if enable_llm_verifier cfg then llm_verdict env j claim t else ret (verdict_of True (fst t) None (snd t))
           | None \<Rightarrow> ret (verdict_of True (fst t) None (snd t))))"

definition check_stability :: "'e verifier_env_scheme \<Rightarrow> agent_config \<Rightarrow> tally \<Rightarrow> ('w, feedback option \<times> tally) harness" where
  "check_stability env cfg t =
     (if \<not> require_stable_verification cfg then ret (None, t)
      else bindE (recheck_stability env (snd t)) (\<lambda>unstable.
        ret (map_option (\<lambda>(command, first, second). Not_repeatable command first second) unstable,
             dict_set ''verification_stable'' (unstable = None) (fst t), snd t)))"

definition judge_stable :: "'e verifier_env_scheme \<Rightarrow> agent_config \<Rightarrow> completion_claim \<Rightarrow> tally \<Rightarrow> ('w, verification_result) harness" where
  "judge_stable env cfg claim t =
     bindE (check_stability env cfg t) (\<lambda>(unstable, t1).
       if unstable \<noteq> None then ret (verdict_of False (fst t1) unstable (snd t1)) else final_verdict env cfg claim t1)"

definition verify :: "'e verifier_env_scheme \<Rightarrow> agent_config \<Rightarrow> completion_claim \<Rightarrow> gate_state option \<Rightarrow> ('w, verification_result) harness" where
  "verify env cfg claim g =
     (if \<not> enable_verifier cfg then ret (verdict_of True [(''disabled'', True)] None [])
      else case claim_screen env cfg claim g of
          Inl r \<Rightarrow> ret r
        | Inr cl \<Rightarrow>
            bindE (run_commands env (parallel_verification cfg) (cl_commands claim) (cl, [])) (\<lambda>(early, t).
              if early \<noteq> None then ret (verdict_of False (fst t) early (snd t))
              else judge_stable env cfg claim t))"

text \<open>\<open>verify_with_commands\<close>: with a recorded session baseline, its record must be readable.\<close>

definition verify_with_commands :: "'e verifier_env_scheme \<Rightarrow> agent_config \<Rightarrow> completion_claim \<Rightarrow> gate_state option
    \<Rightarrow> ('w, verification_result) harness" where
  "verify_with_commands env cfg claim g =
     (case baseline env of
        None \<Rightarrow> verify env cfg claim g
      | Some loader \<Rightarrow> bindE next_tick (\<lambda>n. case loader n of
            Inl exn \<Rightarrow> ret ((verdict_of False [(''workspace_baseline'', False)] (Some (Baseline_unavailable exn)) [])
                \<lparr>vr_workspace := [(''attribution'', P_str ''unavailable''), (''error'', P_str exn)]\<rparr>)
          | Inr delta \<Rightarrow> bindE (verify env cfg claim g) (\<lambda>r.
                ret (r\<lparr>vr_checklist := dict_set ''workspace_baseline'' True (vr_checklist r), vr_workspace := delta\<rparr>))))"

subsection \<open>Gathered and serial runs agree\<close>

lemma execute_all_returns: "\<exists>outcomes s'. execute_all env cs s = (Inr outcomes, s') \<and> length outcomes = length cs"
proof (induction cs arbitrary: s)
  case (Cons c cs)
  from Cons [of "snd (execute env c s)"] show ?case by (auto simp: bindE_def execute_def)
qed simp

lemma record_outcome_prefix: "prefix (snd t) (snd (snd (record_outcome c i outcome t)))"
  by (simp add: record_outcome_def split: exec_outcome.split)

lemma record_all_first: "fst (record_all xs (Some f) t) = Some f \<and> prefix (snd t) (snd (snd (record_all xs (Some f) t)))"
proof (induction xs arbitrary: t)
  case (Cons x xs)
  obtain p outcome where x: "x = (p, outcome)" by fastforce
  obtain failed t1 where r: "record_outcome (snd p) (fst p) outcome t = (failed, t1)" by (rule prod.exhaust)
  with record_outcome_prefix [of t "snd p" "fst p" outcome] Cons.IH [of t1] show ?case
    by (auto simp: x intro: prefix_order.trans)
qed simp

lemma concurrently_serially:
  "run_group_concurrently env ps t s = (Inr (fb, t1), s1) \<Longrightarrow>
   \<exists>t2 s2. run_group_serially env ps t s = (Inr (fb, t2), s2) \<and> prefix (snd t2) (snd t1) \<and> (fb = None \<longrightarrow> t2 = t1 \<and> s2 = s1)"
proof (induction ps arbitrary: t s)
  case (Cons p ps)
  let ?c = "snd p" and ?o = "execute_in env (ticks s) (snd p)" and ?s = "snd (execute env (snd p) s)"
  from Cons.prems obtain allowed reason where permit: "permit env ?c = Inr (allowed, reason)"
    by (cases "permit env ?c") (auto simp: run_group_concurrently_def bindE_def)
  show ?case
  proof (cases allowed)
    case False
    with Cons.prems permit show ?thesis by (auto simp: run_group_concurrently_def bindE_def)
  next
    case True
    with Cons.prems permit obtain runnable denial where screen: "screen_group env ps = Inr (runnable, denial)"
      by (cases "screen_group env ps") (auto simp: run_group_concurrently_def bindE_def)
    obtain outcomes s' where all: "execute_all env (map snd runnable) ?s = (Inr outcomes, s')" "length outcomes = length runnable"
      using execute_all_returns [of env "map snd runnable" ?s] by auto
    obtain failed tp where out: "record_outcome ?c (fst p) ?o t = (failed, tp)" by (rule prod.exhaust)
    have gone: "?o \<noteq> Workspace_gone" "Workspace_gone \<notin> set outcomes"
      using Cons.prems True permit screen all by (auto simp: run_group_concurrently_def bindE_def execute_def split: if_splits)
    have one: "execute_one env p t s = (Inr (failed, tp), ?s)" using gone(1) by (simp add: execute_one_def bindE_def execute_def out)
    show ?thesis
    proof (cases failed)
      case None
      have "run_group_concurrently env ps tp ?s = run_group_concurrently env (p # ps) t s"
        using True permit screen all gone out None
        by (simp add: run_group_concurrently_def bindE_def execute_def)
      with Cons.IH [of tp ?s] Cons.prems one None True permit show ?thesis by (simp add: bindE_def)
    next
      case (Some f)
      obtain first tl where rec: "record_all (zip runnable outcomes) (Some f) tp = (first, tl)" by (rule prod.exhaust)
      with record_all_first [of "zip runnable outcomes" f tp] have "first = Some f" "prefix (snd tp) (snd tl)" by auto
      with Cons.prems True permit screen all gone out Some rec have "fb = Some f" "t1 = tl"
        by (auto simp: run_group_concurrently_def bindE_def execute_def)
      with one Some True permit \<open>prefix (snd tp) (snd tl)\<close> show ?thesis by (simp add: bindE_def)
    qed
  qed
qed (simp add: run_group_concurrently_def bindE_def)

lemma run_group_serially_append:
  "run_group_serially env (ps @ qs) t =
     bindE (run_group_serially env ps t) (\<lambda>(early, t1). if early \<noteq> None then ret (early, t1) else run_group_serially env qs t1)"
proof (induction ps arbitrary: t)
  case (Cons p ps)
  then show ?case by (auto simp: fun_eq_iff bindE_def denied_def split: sum.split prod.split)
qed simp

lemma run_singles: "run_segments env (map (\<lambda>p. (False, [p])) ps) t = run_group_serially env ps t"
proof (induction ps arbitrary: t)
  case (Cons p ps)
  have "run_group_serially env ([p] @ ps) t = bindE (run_group_serially env [p] t)
      (\<lambda>(early, t1). if early \<noteq> None then ret (early, t1) else run_group_serially env ps t1)"
    by (rule run_group_serially_append)
  then have "bindE (run_group_serially env [p] t)
      (\<lambda>(early, t1). if early \<noteq> None then ret (early, t1) else run_group_serially env ps t1) = run_group_serially env (p # ps) t"
    unfolding append.simps by (rule sym)
  with Cons.IH show ?case by (simp only: list.map run_segments.simps if_False)
qed simp

lemma segments_serially:
  "run_segments env segs t s = (Inr (fb, t1), s1) \<Longrightarrow>
   \<exists>t2 s2. run_group_serially env (concat (map snd segs)) t s = (Inr (fb, t2), s2)
     \<and> prefix (snd t2) (snd t1) \<and> (fb = None \<longrightarrow> t2 = t1 \<and> s2 = s1)"
proof (induction segs arbitrary: t s)
  case (Cons seg segs)
  obtain gathered ps where seg: "seg = (gathered, ps)" by fastforce
  let ?group = "if gathered then run_group_concurrently env ps t else run_group_serially env ps t"
  from Cons.prems obtain early ta sa where group: "?group s = (Inr (early, ta), sa)"
    and later: "(if early \<noteq> None then ret (early, ta) else run_segments env segs ta) sa = (Inr (fb, t1), s1)"
    by (auto simp: seg bindE_Inr split: prod.splits)
  have "\<exists>tb sb. run_group_serially env ps t s = (Inr (early, tb), sb) \<and> prefix (snd tb) (snd ta)
      \<and> (early = None \<longrightarrow> tb = ta \<and> sb = sa)"
    using group concurrently_serially [of env ps t s early ta sa] by (cases gathered) auto
  then obtain tb sb where serial: "run_group_serially env ps t s = (Inr (early, tb), sb)" "prefix (snd tb) (snd ta)"
    "early = None \<Longrightarrow> tb = ta \<and> sb = sa" by blast
  show ?case
  proof (cases early)
    case None
    with later Cons.IH [of ta sa] serial(1) serial(3) [OF None] show ?thesis
      by (simp add: seg run_group_serially_append bindE_def)
  next
    case (Some f)
    with later serial(1,2) have "fb = Some f" "t1 = ta" "run_group_serially env (ps @ concat (map snd segs)) t s = (Inr (fb, tb), sb)"
      by (auto simp: run_group_serially_append bindE_def)
    with serial(2) Some show ?thesis by (intro exI [of _ tb] exI [of _ sb]) (simp add: seg)
  qed
qed simp

lemma gathered_commands_serial:
  "run_commands env gathered commands t s = (Inr (fb, t1), s1) \<Longrightarrow>
   \<exists>t2 s2. run_commands env False commands t s = (Inr (fb, t2), s2) \<and> prefix (snd t2) (snd t1) \<and> (fb = None \<longrightarrow> t2 = t1 \<and> s2 = s1)"
proof -
  assume run: "run_commands env gathered commands t s = (Inr (fb, t1), s1)"
  have "concat (map snd (verification_segments commands gathered)) = enumerate 0 commands"
    by (simp add: verification_segments_def concat_segments comp_def)
  with segments_serially [OF run [unfolded run_commands_def]]
  show ?thesis by (simp add: run_commands_def verification_segments_def run_singles)
qed

subsection \<open>What an accepted run of the commands shows\<close>

definition permitted :: "'e verifier_env_scheme \<Rightarrow> string \<Rightarrow> bool" where
  "permitted env command \<longleftrightarrow> (\<exists>reason. permit env command = Inr (True, reason))"

text \<open>The command was permitted and, when run, exited with 0.\<close>

definition passed :: "'e verifier_env_scheme \<Rightarrow> string \<Rightarrow> bool" where
  "passed env command \<longleftrightarrow> permitted env command \<and> (\<exists>n out err. execute_in env n command = Ran 0 out err)"

lemma serially_passed:
  "run_group_serially env ps t s = (Inr (None, t1), s1) \<Longrightarrow> \<forall>p \<in> set ps. passed env (snd p)"
proof (induction ps arbitrary: t s)
  case (Cons p ps)
  from Cons.prems obtain allowed reason where permit: "permit env (snd p) = Inr (allowed, reason)"
    by (cases "permit env (snd p)") (auto simp: bindE_def)
  with Cons.prems have allowed by (cases allowed) (auto simp: bindE_def denied_def)
  with Cons.prems permit obtain tp where one: "execute_one env p t s = (Inr (None, tp), snd (execute env (snd p) s))"
    and later: "run_group_serially env ps tp (snd (execute env (snd p) s)) = (Inr (None, t1), s1)"
    by (auto simp: bindE_def execute_one_def execute_def split: if_splits prod.splits)
  from one have "\<exists>out err. execute_in env (ticks s) (snd p) = Ran 0 out err"
    by (auto simp: execute_one_def bindE_def execute_def record_outcome_def split: exec_outcome.splits if_splits)
  with permit \<open>allowed\<close> have "passed env (snd p)" by (auto simp: passed_def permitted_def)
  with Cons.IH [OF later] show ?case by simp
qed simp

lemma run_commands_passed:
  "run_commands env gathered commands t s = (Inr (None, t1), s1) \<Longrightarrow> \<forall>c \<in> set commands. passed env c"
proof -
  assume "run_commands env gathered commands t s = (Inr (None, t1), s1)"
  from gathered_commands_serial [OF this] have "run_group_serially env (enumerate 0 commands) t s = (Inr (None, t1), s1)"
    by (auto simp: run_commands_def verification_segments_def run_singles)
  from serially_passed [OF this] have "\<forall>c \<in> snd ` set (enumerate 0 commands). passed env c" by simp
  moreover have "snd ` set (enumerate 0 commands) = set commands" by (metis list.set_map map_snd_enumerate)
  ultimately show ?thesis by simp
qed

lemma n_discriminating_pos: "n_discriminating (summarize commands) \<noteq> 0 \<longleftrightarrow> (\<exists>c \<in> set commands. is_discriminating c)"
proof -
  have "n_discriminating (summarize commands) = length (discriminating (summarize commands))"
    by (simp add: summarize_def Let_def)
  then have "n_discriminating (summarize commands) \<noteq> 0 \<longleftrightarrow> (\<exists>c. c \<in> set (discriminating (summarize commands)))"
    by (simp only: length_0_conv) (metis list.set_intros(1) list.set_cases neq_Nil_conv)
  then show ?thesis by (simp only: summarize_discriminating) blast
qed

lemma claim_screen_Inl: "claim_screen env cfg claim g = Inl v \<Longrightarrow> \<not> vr_approved v"
proof -
  have "evidence_screen env cfg commands cl = Inl v \<Longrightarrow> \<not> vr_approved v" for commands cl
    by (auto simp: evidence_screen_def verdict_of_def Let_def split: if_splits)
  then show "claim_screen env cfg claim g = Inl v \<Longrightarrow> \<not> vr_approved v"
    by (auto simp: claim_screen_def verdict_of_def Let_def split: if_splits)
qed

lemma bindE_pair: "bindE m (\<lambda>(a, b). f a b) s = (Inr y, t) \<longleftrightarrow> (\<exists>a b u. m s = (Inr (a, b), u) \<and> f a b u = (Inr y, t))"
  unfolding bindE_Inr by (auto simp: split_paired_Ex)

lemma verify_accepted:
  assumes "verify env cfg claim g s = (Inr r, s1)" "vr_approved r" "enable_verifier cfg"
  shows "10 \<le> length (py_strip (cl_summary claim))"
    and "\<forall>st. g = Some st \<longrightarrow> \<not> weaker_than_rejected (cl_commands claim) st"
    and "require_discriminating_evidence cfg \<Longrightarrow> \<not> has_authoritative_grader env \<Longrightarrow> \<exists>c \<in> set (cl_commands claim). is_discriminating c"
    and "\<forall>c \<in> set (cl_commands claim). passed env c"
    and "\<exists>t sa. final_verdict env cfg claim t sa = (Inr r, s1)"
proof -
  obtain cl where screen: "claim_screen env cfg claim g = Inr cl"
  proof (cases "claim_screen env cfg claim g")
    case (Inl v)
    with assms(1,3) have "v = r" by (simp add: verify_def)
    with claim_screen_Inl [OF Inl] assms(2) show ?thesis by simp
  qed
  then show "10 \<le> length (py_strip (cl_summary claim))" "\<forall>st. g = Some st \<longrightarrow> \<not> weaker_than_rejected (cl_commands claim) st"
    by (auto simp: claim_screen_def Let_def split: if_splits)
  show "require_discriminating_evidence cfg \<Longrightarrow> \<not> has_authoritative_grader env \<Longrightarrow> \<exists>c \<in> set (cl_commands claim). is_discriminating c"
    using screen n_discriminating_pos by (auto simp: claim_screen_def evidence_screen_def Let_def split: if_splits)
  have verify: "verify env cfg claim g = bindE (run_commands env (parallel_verification cfg) (cl_commands claim) (cl, []))
      (\<lambda>(early, t). if early \<noteq> None then ret (verdict_of False (fst t) early (snd t)) else judge_stable env cfg claim t)"
    using assms(3) screen by (simp add: verify_def)
  from assms(1) [unfolded verify bindE_pair] obtain early t sa where
    run: "run_commands env (parallel_verification cfg) (cl_commands claim) (cl, []) s = (Inr (early, t), sa)"
    and later: "(if early \<noteq> None then ret (verdict_of False (fst t) early (snd t)) else judge_stable env cfg claim t) sa = (Inr r, s1)"
    by blast
  have None: "early = None" using later assms(2) by (cases early) (auto simp: verdict_of_def)
  note run = run [unfolded None]
  from later None obtain unstable t1 sb where "check_stability env cfg t sa = (Inr (unstable, t1), sb)"
    and last: "(if unstable \<noteq> None then ret (verdict_of False (fst t1) unstable (snd t1)) else final_verdict env cfg claim t1) sb = (Inr r, s1)"
    unfolding judge_stable_def by (simp only: bindE_pair simp_thms if_False) blast
  have "unstable = None" using last assms(2) by (cases unstable) (auto simp: verdict_of_def)
  with last show "\<exists>t sa. final_verdict env cfg claim t sa = (Inr r, s1)" by (intro exI [of _ t1] exI [of _ sb]) simp
  from run_commands_passed [OF run] show "\<forall>c \<in> set (cl_commands claim). passed env c" .
qed

text \<open>The judge or an authoritative grader approved.\<close>

definition graded_ok :: "'e verifier_env_scheme \<Rightarrow> bool" where
  "graded_ok env \<longleftrightarrow> (\<exists>h n v. grader env = Some h \<and> authoritative h \<and> hook_check h n = Verdict v \<and> vr_approved v)"

definition judged_ok :: "'e verifier_env_scheme \<Rightarrow> completion_claim \<Rightarrow> (nat \<Rightarrow> judge_request \<Rightarrow> string option) \<Rightarrow> bool" where
  "judged_ok env claim j \<longleftrightarrow> (\<exists>n req reply. jr_summary req = cl_summary claim \<and> jr_task req = cl_task claim
     \<and> j n req = Some reply \<and> fst (parse_verdict env (py_strip reply)) = Some True)"

lemma ask_judge_result: "ask_judge j req s = (Inr (Some reply), s1) \<Longrightarrow> \<exists>n. j n req = Some reply"
  by (auto simp: ask_judge_def bindE_def next_tick_def split: option.splits)

lemma llm_verdict_accepted:
  assumes "llm_verdict env j claim t s = (Inr r, s1)" "vr_approved r"
  shows "judged_ok env claim j"
proof -
  from assms(1) obtain git sa reply where asked: "ask_judge j (judge_prompt claim (snd t) git) sa = (Inr reply, s1)"
    and r: "r = judgement env reply t"
    unfolding llm_verdict_def bindE_Inr by auto
  from r assms(2) obtain w where w: "reply = Some w" "fst (parse_verdict env (py_strip w)) = Some True"
    by (cases reply; cases "parse_verdict env (py_strip (the reply))")
       (auto simp: judgement_def verdict_of_def split: option.splits bool.splits)
  from ask_judge_result [OF asked [unfolded w(1)]] obtain n where "j n (judge_prompt claim (snd t) git) = Some w" by blast
  with w(2) show ?thesis unfolding judged_ok_def
    by (intro exI [of _ n] exI [of _ "judge_prompt claim (snd t) git"] exI [of _ w]) (simp add: judge_prompt_def)
qed

lemma final_verdict_accepted:
  assumes "final_verdict env cfg claim t s = (Inr r, s1)" "vr_approved r"
  shows "graded_ok env \<or> (\<forall>j. judge env = Some j \<and> enable_llm_verifier cfg \<longrightarrow> judged_ok env claim j)"
proof -
  from assms(1) obtain graded sa where g: "ask_grader env t s = (Inr graded, sa)"
    and later: "(case graded of Some v \<Rightarrow> ret v | None \<Rightarrow> (case judge env of
        Some j \<Rightarrow> if enable_llm_verifier cfg then llm_verdict env j claim t else ret (verdict_of True (fst t) None (snd t))
      | None \<Rightarrow> ret (verdict_of True (fst t) None (snd t)))) sa = (Inr r, s1)"
    unfolding final_verdict_def bindE_Inr by blast
  show ?thesis
  proof (cases graded)
    case (Some v)
    with g later assms(2) have "graded_ok env"
      by (auto simp: ask_grader_def graded_ok_def bindE_def next_tick_def verdict_of_def split: option.splits grader_reply.splits if_splits) blast+
    then show ?thesis by simp
  next
    case None
    with later have "llm_verdict env j claim t sa = (Inr r, s1)" if "judge env = Some j" "enable_llm_verifier cfg" for j
      using that by simp
    with llm_verdict_accepted assms(2) show ?thesis by blast
  qed
qed

subsection \<open>Only permitted commands are sent to the workspace\<close>

definition probe_commands :: "string list" where
  "probe_commands = ''git rev-parse --is-inside-work-tree'' # GIT_COMMANDS"

text \<open>Every command sent is one of the fixed git queries or a permitted command of the claim.\<close>

definition sent_ok :: "'e verifier_env_scheme \<Rightarrow> string list \<Rightarrow> string list \<Rightarrow> 'w outside_scheme \<Rightarrow> bool" where
  "sent_ok env commands before s \<longleftrightarrow> (\<exists>sent. ran s = before @ sent
     \<and> (\<forall>c \<in> set sent. c \<in> set probe_commands \<or> (c \<in> set commands \<and> permitted env c)))"

definition seen_ok :: "'e verifier_env_scheme \<Rightarrow> string list \<Rightarrow> tally \<Rightarrow> bool" where
  "seen_ok env commands t \<longleftrightarrow> (\<forall>ob \<in> set (snd t). ob_command ob \<in> set commands \<and> permitted env (ob_command ob))"

lemma sent_ok_start: "sent_ok env commands (ran s) s"
  by (simp add: sent_ok_def)

lemma execute_keeps:
  "c \<in> set probe_commands \<or> (c \<in> set commands \<and> permitted env c) \<Longrightarrow> keeps (sent_ok env commands before) (execute env c)"
  by (auto simp: keeps_def hoare_def execute_def sent_ok_def)

lemma next_tick_keeps: "keeps (sent_ok env commands before) next_tick"
  by (simp add: keeps_def hoare_def next_tick_def sent_ok_def)

lemma keeps_ret: "keeps I (ret x)" "keeps I (raise e)" "keeps I (liftE r)"
  by (simp_all add: keeps_def hoare_def split: sum.split)

lemmas keeps_basic = keeps_bind keeps_ret next_tick_keeps

lemma execute_all_keeps:
  "\<forall>c \<in> set cs. c \<in> set probe_commands \<or> (c \<in> set commands \<and> permitted env c) \<Longrightarrow>
   keeps (sent_ok env commands before) (execute_all env cs)"
  by (induction cs) (auto intro!: keeps_basic execute_keeps)

lemma seen_ok_record:
  "c \<in> set commands \<Longrightarrow> permitted env c \<Longrightarrow> seen_ok env commands t \<Longrightarrow> seen_ok env commands (snd (record_outcome c i outcome t))"
  by (auto simp: seen_ok_def record_outcome_def split: exec_outcome.split)

lemma record_all_seen:
  "\<forall>x \<in> set xs. snd (fst x) \<in> set commands \<and> permitted env (snd (fst x)) \<Longrightarrow> seen_ok env commands t
   \<Longrightarrow> seen_ok env commands (snd (record_all xs first t))"
proof (induction xs first t rule: record_all.induct)
  case (2 p outcome xs first t)
  obtain failed t1 where r: "record_outcome (snd p) (fst p) outcome t = (failed, t1)" by (rule prod.exhaust)
  with 2 seen_ok_record [of "snd p" commands env t "fst p" outcome] show ?case by simp
qed simp

lemma screen_group_permitted:
  "screen_group env ps = Inr (runnable, denial) \<Longrightarrow> \<forall>p \<in> set runnable. p \<in> set ps \<and> permitted env (snd p)"
proof (induction ps arbitrary: runnable denial)
  case (Cons p ps)
  then show ?case by (auto simp: permitted_def split: sum.splits prod.splits if_splits)
qed simp

text \<open>A group keeps both: what was sent and what was seen.\<close>

abbreviation run_keeps :: "'e verifier_env_scheme \<Rightarrow> string list \<Rightarrow> string list \<Rightarrow> ('w, feedback option \<times> tally) harness \<Rightarrow> bool" where
  "run_keeps env commands before m \<equiv>
     hoare (sent_ok env commands before) m (\<lambda>r s. sent_ok env commands before s \<and> seen_ok env commands (snd r)) (\<lambda>_. sent_ok env commands before)"

lemma run_keepsI: "keeps (sent_ok env commands before) m \<Longrightarrow> (\<And>r s s1. m s = (Inr r, s1) \<Longrightarrow> seen_ok env commands (snd r))
    \<Longrightarrow> run_keeps env commands before m"
  by (fastforce simp: keeps_def hoare_def split: prod.splits sum.splits)

lemma run_keeps_then:
  assumes "run_keeps env commands before m"
    and "\<And>t. seen_ok env commands t \<Longrightarrow> run_keeps env commands before (f t)"
  shows "run_keeps env commands before (bindE m (\<lambda>(early, t). if early \<noteq> None then ret (early, t) else f t))"
proof (rule hoare_bind [OF assms(1)])
  fix r :: "feedback option \<times> tally"
  show "hoare (\<lambda>s. sent_ok env commands before s \<and> seen_ok env commands (snd r))
      (case r of (early, t) \<Rightarrow> if early \<noteq> None then ret (early, t) else f t)
      (\<lambda>r s. sent_ok env commands before s \<and> seen_ok env commands (snd r)) (\<lambda>_. sent_ok env commands before)"
    using assms(2) [of "snd r"] by (cases r) (auto simp: hoare_def)
qed

lemma execute_one_keeps:
  assumes "snd p \<in> set commands" "permitted env (snd p)" "seen_ok env commands t"
  shows "run_keeps env commands before (execute_one env p t)"
proof (rule run_keepsI)
  show "keeps (sent_ok env commands before) (execute_one env p t)"
    unfolding execute_one_def using assms by (auto intro!: keeps_basic execute_keeps)
  show "execute_one env p t s = (Inr r, s1) \<Longrightarrow> seen_ok env commands (snd r)" for r s s1
    using seen_ok_record [OF assms] by (auto simp: execute_one_def bindE_def execute_def split: if_splits)
qed

lemma serially_keeps:
  "\<forall>p \<in> set ps. snd p \<in> set commands \<Longrightarrow> seen_ok env commands t \<Longrightarrow> run_keeps env commands before (run_group_serially env ps t :: ('w, feedback option \<times> tally) harness)"
proof (induction ps arbitrary: t)
  case (Cons p ps)
  show ?case
  proof (cases "permit env (snd p)")
    case (Inr r)
    obtain allowed reason where r: "r = (allowed, reason)" by fastforce
    show ?thesis
    proof (cases allowed)
      case True
      with Inr r have p: "permitted env (snd p)" by (auto simp: permitted_def)
      have "run_keeps env commands before (bindE (execute_one env p t)
          (\<lambda>(early, t). if early \<noteq> None then ret (early, t) else run_group_serially env ps t)
          :: ('w, feedback option \<times> tally) harness)"
        using Cons p by (intro run_keeps_then execute_one_keeps Cons.IH) auto
      with Inr r True show ?thesis by simp
    qed (use Inr r Cons.prems in \<open>simp add: hoare_def denied_def seen_ok_def\<close>)
  qed (simp add: hoare_def)
qed (simp add: hoare_def)

lemma concurrently_keeps:
  assumes "\<forall>p \<in> set ps. snd p \<in> set commands" "seen_ok env commands t"
  shows "run_keeps env commands before (run_group_concurrently env ps t)"
proof (cases "screen_group env ps")
  case (Inr r)
  obtain runnable denial where r: "r = (runnable, denial)" by fastforce
  with Inr screen_group_permitted assms(1) have ok: "\<forall>p \<in> set runnable. snd p \<in> set commands \<and> permitted env (snd p)" by blast
  have seen: "seen_ok env commands (snd (record_all (zip runnable outcomes) None t))" for outcomes
    using ok assms(2) by (intro record_all_seen) (fastforce dest: set_zip_leftD)+
  show ?thesis
  proof (rule run_keepsI)
    show "keeps (sent_ok env commands before) (run_group_concurrently env ps t)"
      unfolding run_group_concurrently_def Inr r liftE_sum bindE_ret prod.case
      using ok by (intro keeps_basic execute_all_keeps) (auto simp: case_prod_beta intro!: keeps_basic)
    show "seen_ok env commands (snd x)" if "run_group_concurrently env ps t s = (Inr x, s1)" for x s s1
    proof -
      from that obtain outcomes where "snd (snd x) = snd (snd (record_all (zip runnable outcomes) None t))"
        unfolding run_group_concurrently_def Inr r liftE_sum bindE_ret prod.case bindE_Inr
        by (auto simp: denied_def case_prod_beta Let_def split: if_splits option.splits)
      with seen [of outcomes] show ?thesis by (simp add: seen_ok_def)
    qed
  qed
qed (simp add: run_group_concurrently_def hoare_def)

lemma segments_keep:
  "\<forall>p \<in> set (concat (map snd segs)). snd p \<in> set commands \<Longrightarrow> seen_ok env commands t
   \<Longrightarrow> run_keeps env commands before (run_segments env segs t :: ('w, feedback option \<times> tally) harness)"
proof (induction segs arbitrary: t)
  case (Cons seg segs)
  obtain gathered ps where seg: "seg = (gathered, ps)" by fastforce
  have "run_keeps env commands before (bindE (if gathered then run_group_concurrently env ps t else run_group_serially env ps t)
      (\<lambda>(early, t1). if early \<noteq> None then ret (early, t1) else run_segments env segs t1)
      :: ('w, feedback option \<times> tally) harness)"
    using Cons.prems Cons.IH seg by (intro run_keeps_then) (auto intro!: concurrently_keeps serially_keeps)
  then show ?case by (simp only: seg run_segments.simps)
qed (simp add: hoare_def)

lemma recheck_keeps:
  "\<forall>ob \<in> set obs. ob_command ob \<in> set commands \<and> permitted env (ob_command ob)
   \<Longrightarrow> keeps (sent_ok env commands before) (recheck_stability env obs)"
  by (induction obs) (auto intro!: keeps_basic execute_keeps split: exec_outcome.split)

lemma git_keeps: "keeps (sent_ok env commands before) (gather_git_evidence env)"
  unfolding gather_git_evidence_def
  by (intro keeps_bind execute_keeps) (auto intro!: keeps_basic execute_all_keeps simp: probe_commands_def)

lemma final_verdict_keeps: "keeps (sent_ok env commands before) (final_verdict env cfg claim t)"
  unfolding final_verdict_def ask_grader_def llm_verdict_def ask_judge_def
  by (auto intro!: keeps_basic git_keeps split: option.split grader_reply.split)

lemma stable_keeps:
  "seen_ok env commands t \<Longrightarrow> keeps (sent_ok env commands before) (judge_stable env cfg claim t)"
  unfolding judge_stable_def check_stability_def
  by (auto intro!: keeps_basic recheck_keeps final_verdict_keeps simp: seen_ok_def case_prod_beta)

lemma verify_keeps: "keeps (sent_ok env (cl_commands claim) before) (verify env cfg claim g :: ('w, verification_result) harness)"
proof (cases "\<not> enable_verifier cfg \<or> (\<exists>v. claim_screen env cfg claim g = Inl v)")
  case True
  then show ?thesis unfolding verify_def by (auto intro!: keeps_basic)
next
  case False
  then obtain cl where screen: "enable_verifier cfg" "claim_screen env cfg claim g = Inr cl"
    by (cases "claim_screen env cfg claim g") auto
  have "\<forall>p \<in> set (concat (map snd (verification_segments (cl_commands claim) (parallel_verification cfg)))). snd p \<in> set (cl_commands claim)"
    by (auto simp: verification_segments_def concat_segments comp_def in_set_enumerate_eq simp del: set_concat)
  then have run: "run_keeps env (cl_commands claim) before
      (run_commands env (parallel_verification cfg) (cl_commands claim) (cl, []) :: ('w, feedback option \<times> tally) harness)"
    unfolding run_commands_def by (rule segments_keep) (simp add: seen_ok_def)
  have "hoare (sent_ok env (cl_commands claim) before) (verify env cfg claim g :: ('w, verification_result) harness)
      (\<lambda>_. sent_ok env (cl_commands claim) before) (\<lambda>_. sent_ok env (cl_commands claim) before)"
    unfolding verify_def using screen
    apply simp
    apply (rule hoare_bind [OF run])
    subgoal for r
      using stable_keeps [of env "cl_commands claim" "snd r" before cfg claim]
      by (cases r) (fastforce simp: hoare_def keeps_def split: prod.splits sum.splits)
    done
  then show ?thesis by (simp add: keeps_def)
qed

lemma verify_with_commands_accepted:
  assumes "verify_with_commands env cfg claim g s = (Inr r, s1)" "vr_approved r" "enable_verifier cfg"
  shows "10 \<le> length (py_strip (cl_summary claim))
    \<and> (\<forall>c \<in> set (cl_commands claim). passed env c)
    \<and> (require_discriminating_evidence cfg \<and> \<not> has_authoritative_grader env \<longrightarrow> (\<exists>c \<in> set (cl_commands claim). is_discriminating c))
    \<and> (\<forall>st. g = Some st \<longrightarrow> \<not> weaker_than_rejected (cl_commands claim) st)
    \<and> (graded_ok env \<or> (\<forall>j. judge env = Some j \<and> enable_llm_verifier cfg \<longrightarrow> judged_ok env claim j))
    \<and> (\<forall>loader. baseline env = Some loader \<longrightarrow> (\<exists>n. loader n = Inr (vr_workspace r)))"
proof -
  obtain v sa where v: "verify env cfg claim g sa = (Inr v, s1)" "vr_approved v"
    and read: "\<forall>loader. baseline env = Some loader \<longrightarrow> (\<exists>n. loader n = Inr (vr_workspace r))"
  proof (cases "baseline env")
    case None
    with assms(1,2) that show ?thesis by (auto simp: verify_with_commands_def)
  next
    case (Some loader)
    with assms(1,2) obtain delta w where "loader (ticks s) = Inr delta"
      "verify env cfg claim g (s\<lparr>ticks := Suc (ticks s)\<rparr>) = (Inr w, s1)" "vr_approved w" "vr_workspace r = delta"
      by (auto simp: verify_with_commands_def bindE_def next_tick_def verdict_of_def split: sum.splits prod.splits)
    with that Some show ?thesis by auto
  qed
  note facts = verify_accepted [OF v assms(3)]
  from facts(5) obtain t sb where "final_verdict env cfg claim t sb = (Inr v, s1)" by blast
  from final_verdict_accepted [OF this v(2)] facts read show ?thesis by blast
qed

subsection \<open>Properties\<close>

text \<open>C10. An approval rests on evidence: with the verifier on, a completion is approved only if the summary
  says something, every verification command was permitted and exited with 0, one of them could
  have failed (unless an authoritative grader stands in), the commands are not a subset of a set
  already judged and rejected, the grader or the judge model approved when there is one, and the
  session's recorded baseline could be read.\<close>

theorem approval_rests_on_evidence:
  assumes "verify_with_commands env cfg claim g s = (Inr r, s1)" "vr_approved r" "enable_verifier cfg"
  shows "10 \<le> length (py_strip (cl_summary claim))
    \<and> (\<forall>c \<in> set (cl_commands claim). passed env c)
    \<and> (require_discriminating_evidence cfg \<and> \<not> has_authoritative_grader env \<longrightarrow> (\<exists>c \<in> set (cl_commands claim). is_discriminating c))
    \<and> (\<forall>st. g = Some st \<longrightarrow> \<not> weaker_than_rejected (cl_commands claim) st)
    \<and> (graded_ok env \<or> (\<forall>j. judge env = Some j \<and> enable_llm_verifier cfg \<longrightarrow> judged_ok env claim j))
    \<and> (\<forall>loader. baseline env = Some loader \<longrightarrow> (\<exists>n. loader n = Inr (vr_workspace r)))"
  by (rule verify_with_commands_accepted [OF assms])

definition demo_verifier :: verifier_env where
  "demo_verifier = \<lparr>execute_in = (\<lambda>_ _. Ran 0 [] []), permissions = None, perm_world = demo_perm_env, show_args = (\<lambda>_. []),
     judge = Some (\<lambda>n _. if n = 1 then None else Some ''**Approved** fine''), grader = None,
     baseline = Some (\<lambda>_. Inr []), extract_json = (\<lambda>_. None), str_of_value = (\<lambda>_. [])\<rparr>"

definition demo_config :: agent_config where
  "demo_config = \<lparr>enable_verifier = True, require_discriminating_evidence = True, require_stable_verification = False,
     parallel_verification = True, enable_llm_verifier = True, enable_acceptance_contract = False,
     enable_side_effect_sweep = False, enable_request_preflight = False, enable_working_state_card = False,
     force_final_submission = True, output_schema = None, max_turns = 3\<rparr>"

definition demo_completion_claim :: completion_claim where
  "demo_completion_claim = \<lparr>cl_task = ''t'', cl_summary = ''ran the tests'', cl_commands = [''pytest''],
     cl_rationale = None, cl_messages = []\<rparr>"

definition demo_outside :: outside where "demo_outside = \<lparr>ticks = 0, ran = []\<rparr>"

theorem approval_rests_on_evidence_witness:
  "passed demo_verifier ''pytest'' \<and> (\<exists>c \<in> set (cl_commands demo_completion_claim). is_discriminating c)"
proof -
  let ?run = "verify_with_commands demo_verifier demo_config demo_completion_claim (Some new_gate) demo_outside"
  have "case fst ?run of Inr r \<Rightarrow> vr_approved r | Inl _ \<Rightarrow> False" by code_simp
  then obtain r where r: "?run = (Inr r, snd ?run)" "vr_approved r" by (cases ?run) (auto split: sum.splits)
  have "enable_verifier demo_config" "require_discriminating_evidence demo_config \<and> \<not> has_authoritative_grader demo_verifier"
    by code_simp+
  with approval_rests_on_evidence [OF r] show ?thesis by (auto simp: demo_completion_claim_def)
qed


definition two_reads :: completion_claim where
  "two_reads = demo_completion_claim\<lparr>cl_commands := [''ls'', ''ls'']\<rparr>"

definition reads_config :: agent_config where
  "reads_config = demo_config\<lparr>require_discriminating_evidence := False, enable_llm_verifier := False\<rparr>"


text \<open>C12. The verifier sends nothing else to the workspace than the three git queries and verification
  commands of the claim that the permission policy allows, whatever the outcome and even if the
  run is aborted; the repetition for stability is no exception.\<close>

theorem verifier_runs_only_permitted:
  "\<exists>sent. ran (snd (verify_with_commands env cfg claim g s)) = ran s @ sent
     \<and> (\<forall>c \<in> set sent. c \<in> set probe_commands \<or> (c \<in> set (cl_commands claim) \<and> permitted env c))"
proof -
  have "keeps (sent_ok env (cl_commands claim) (ran s)) (verify_with_commands env cfg claim g)"
    unfolding verify_with_commands_def
    by (auto intro!: verify_keeps keeps_basic split: option.split sum.split)
  from keeps_final [OF this sent_ok_start] show ?thesis by (simp add: sent_ok_def)
qed

theorem verifier_runs_only_permitted_witness:
  "set (ran (snd (verify_with_commands demo_verifier demo_config demo_completion_claim None demo_outside)))
     \<subseteq> set probe_commands \<union> set (cl_commands demo_completion_claim)"
  using verifier_runs_only_permitted [of demo_verifier demo_config demo_completion_claim None demo_outside] by (auto simp: demo_outside_def)

end
