(* ===== verification/Completion.thy ===== *)
theory Completion
  imports Verification
begin

text \<open>
  The completion gate (\<open>garuda/core/completion.py\<close>) behind the terminal-tool strategy of a run
  (\<open>garuda/core/termination.py\<close>): the schema of the final output, the acceptance contract, the
  sweep of left-over processes, and the verifier, in that order.

  \<open>gate_run\<close> is the state a completion attempt reads and changes: the conversation, the memory of
  the gate, the acceptance contract (shared with the \<open>contract\<close> tool, so it can change between two
  attempts), the notes held back until the call is answered, and the event log. An event keeps what
  a later decision or a reader of the log relies on, not its whole payload.

  A claim whose summary or commands do not have the types the tool's schema declares ends in
  \<open>Bad_arguments\<close>. The JSON-schema validator, the reply of the contract derivation and the report of
  the process sweep are parameters.
\<close>

subsection \<open>State\<close>

definition CONTRACT_REJECT_LIMIT :: nat where "CONTRACT_REJECT_LIMIT = 3"
definition OUTPUT_REPAIR_LIMIT :: nat where "OUTPUT_REPAIR_LIMIT = 2"

datatype gate_note = Contract_listing acceptance_contract | Sweep_report | Contract_stalled nat nat

datatype event =
    Contract_derived nat | Contract_skipped | Contract_reject "string list" | Contract_yield "string list" nat
  | Side_effects | Verified bool "feedback option" nat | Output_checked nat bool
  | Model_response nat | Response_truncated nat | Budget string nat | Summarization nat bool
  | Tool_called string nat | Tool_returned string bool nat | Permission_refused string nat
  | Failure_streak nat nat | Workspace_lost nat | Session_end bool "string option" "nat option"

record gate_run = outside +
  conv :: conversation
  gate :: gate_state
  contract :: "acceptance_contract option"
  contract_attempted :: bool
  deferred_notes :: "string list"
  accepted_output :: "pyval option"
  output_failures :: nat
  failure :: "string option"
  failure_message :: string
  events :: "event list"

record completion_env = verifier_env +
  cenv :: context_env
  task :: string
  feedback_text :: "feedback \<Rightarrow> string"
  note_text :: "gate_note \<Rightarrow> string"
  contract_reply :: "nat \<Rightarrow> pyval dict option"
  contract_bound :: bool
  sweep :: "(nat \<Rightarrow> bool) option"
  validation_errors :: "pyval \<Rightarrow> pyval \<Rightarrow> string list"

type_synonym ('r, 'a) gated = "('r gate_run_scheme, halt, 'a) prog"

definition add_message :: "'e completion_env_scheme \<Rightarrow> (nat \<Rightarrow> message) \<Rightarrow> 'r gate_run_scheme \<Rightarrow> 'r gate_run_scheme" where
  "add_message env mk s = s\<lparr>conv := append_message (cenv env) (mk (fresh (conv s))) (conv s)\<rparr>"

definition user_note :: "'e completion_env_scheme \<Rightarrow> string \<Rightarrow> 'r gate_run_scheme \<Rightarrow> 'r gate_run_scheme" where
  "user_note env body = add_message env (\<lambda>n. plain_message n USER body)"

definition tool_reply :: "'e completion_env_scheme \<Rightarrow> string \<Rightarrow> tool_call \<Rightarrow> 'r gate_run_scheme \<Rightarrow> 'r gate_run_scheme" where
  "tool_reply env body call = add_message env (\<lambda>n. tool_message n body call)"

definition log_event :: "event \<Rightarrow> 'r gate_run_scheme \<Rightarrow> 'r gate_run_scheme" where
  "log_event e s = s\<lparr>events := events s @ [e]\<rparr>"

definition defer_note :: "'e completion_env_scheme \<Rightarrow> gate_note \<Rightarrow> 'r gate_run_scheme \<Rightarrow> 'r gate_run_scheme" where
  "defer_note env note s = s\<lparr>deferred_notes := deferred_notes s @ [note_text env note]\<rparr>"

definition flush_deferred :: "'e completion_env_scheme \<Rightarrow> 'r gate_run_scheme \<Rightarrow> 'r gate_run_scheme" where
  "flush_deferred env s = (fold (user_note env) (deferred_notes s) s)\<lparr>deferred_notes := []\<rparr>"

definition reject_call :: "'e completion_env_scheme \<Rightarrow> tool_call \<Rightarrow> feedback \<Rightarrow> 'r gate_run_scheme \<Rightarrow> 'r gate_run_scheme" where
  "reject_call env call fb s =
     flush_deferred env (tool_reply env (feedback_text env fb) (call\<lparr>call_name := ''task_complete''\<rparr>) s)"

subsection \<open>The steps of an attempt\<close>

definition output_valid :: "'e completion_env_scheme \<Rightarrow> pyval \<Rightarrow> tool_call \<Rightarrow> ('r, bool) gated" where
  "output_valid env schema call s =
     (let errors = (case dict_get (arguments call) ''result'' of
            None \<Rightarrow> [''`result` is required'']
          | Some v \<Rightarrow> validation_errors env schema v) in
      if errors = [] then (Inr True, s\<lparr>accepted_output := dict_get (arguments call) ''result''\<rparr>)
      else
       (let n = Suc (output_failures s); last_try = n > OUTPUT_REPAIR_LIMIT; fb = Output_invalid errors n last_try in
        (Inr False, reject_call env call fb (log_event (Output_checked n last_try)
           (s\<lparr>output_failures := n, failure := if last_try then Some ''agent.output_invalid'' else failure s,
              failure_message := feedback_text env fb\<rparr>)))))"

text \<open>\<open>_ensure_contract\<close>. The derivation logs an event when the reply holds a JSON object.\<close>

definition ensure_contract :: "'e completion_env_scheme \<Rightarrow> agent_config \<Rightarrow> ('r, unit) gated" where
  "ensure_contract env cfg s =
     (if contract s \<noteq> None \<or> contract_attempted s \<or> \<not> enable_acceptance_contract cfg then (Inr (), s)
      else
       (let derived = derive_contract (str_of_value env) (task env) (contract_reply env (ticks s));
            s1 = s\<lparr>ticks := Suc (ticks s), contract_attempted := True\<rparr>;
            s2 = (case derived of None \<Rightarrow> s1 | Some cs \<Rightarrow> log_event (Contract_derived (length cs)) s1) in
        case derived of
          None \<Rightarrow> (Inr (), s2)
        | Some cs \<Rightarrow>
            if cs = [] then (Inr (), s2\<lparr>contract := Some cs\<rparr>)
            else if \<not> contract_bound env then (Inr (), log_event Contract_skipped s2)
            else (Inr (), defer_note env (Contract_listing cs) (s2\<lparr>contract := Some cs\<rparr>))))"

definition check_contract :: "'e completion_env_scheme \<Rightarrow> tool_call \<Rightarrow> ('r, bool) gated" where
  "check_contract env call s =
     (let open_criteria = (case contract s of None \<Rightarrow> [] | Some cs \<Rightarrow> outstanding cs);
          ids = map criterion_id open_criteria in
      if open_criteria = [] \<or> contract_yielded (gate s) then (Inr False, s)
      else
       (let (streak, g) = note_contract_rejection ids (gate s) in
        if streak > CONTRACT_REJECT_LIMIT
        then (Inr False, defer_note env (Contract_stalled (length ids) (streak - 1))
               (log_event (Contract_yield ids (streak - 1)) (s\<lparr>gate := g\<lparr>contract_yielded := True\<rparr>\<rparr>)))
        else
         (let fb = Criteria_open (length open_criteria) (map (\<lambda>c. (criterion_id c, criterion_text c)) (take 12 open_criteria)) in
          (Inr True, reject_call env call fb (log_event (Contract_reject ids) (s\<lparr>gate := record_contract_rejection fb g\<rparr>))))))"

definition sweep_processes :: "'e completion_env_scheme \<Rightarrow> agent_config \<Rightarrow> ('r, unit) gated" where
  "sweep_processes env cfg s =
     (case sweep env of
        None \<Rightarrow> (Inr (), s)
      | Some report \<Rightarrow>
          if \<not> enable_side_effect_sweep cfg then (Inr (), s)
          else (let s1 = log_event Side_effects (s\<lparr>ticks := Suc (ticks s)\<rparr>) in
            (Inr (), if report (ticks s) then defer_note env Sweep_report s1 else s1)))"

fun command_list :: "pyval option \<Rightarrow> string list option" where
  "command_list None = Some []"
| "command_list (Some (P_str s)) = Some (map (\<lambda>c. [c]) s)"
| "command_list (Some (P_dict d)) = Some (dict_keys d)"
| "command_list (Some (P_list vs)) =
     (if list_all (\<lambda>v. case v of P_str _ \<Rightarrow> True | _ \<Rightarrow> False) vs
      then Some (List.map_filter (\<lambda>v. case v of P_str s \<Rightarrow> Some s | _ \<Rightarrow> None) vs) else None)"
| "command_list (Some v) = (if truthy v then None else Some [])"

definition summary_of :: "tool_call \<Rightarrow> string option" where
  "summary_of call =
     (case dict_get (arguments call) ''summary'' of None \<Rightarrow> Some [] | Some (P_str s) \<Rightarrow> Some s | Some _ \<Rightarrow> None)"

definition claim_of :: "'e completion_env_scheme \<Rightarrow> tool_call \<Rightarrow> 'r gate_run_scheme \<Rightarrow> completion_claim option" where
  "claim_of env call s =
     (case (summary_of call, command_list (dict_get (arguments call) ''verification_commands'')) of
        (Some summary, Some commands) \<Rightarrow>
          Some \<lparr>cl_task = task env, cl_summary = summary, cl_commands = commands,
                cl_rationale = (case dict_get (arguments call) ''answer_rationale'' of
                    None \<Rightarrow> None
                  | Some v \<Rightarrow> if truthy v then Some (value_text env (Some v)) else None),
                cl_messages = get_messages (conv s)\<rparr>
      | _ \<Rightarrow> None)"

definition or_failed :: "feedback option \<Rightarrow> feedback" where
  "or_failed fb = (case fb of None \<Rightarrow> Verification_failed | Some f \<Rightarrow> if f = Other_feedback [] then Verification_failed else f)"

text \<open>What \<open>attempt\<close> does with the verdict.\<close>

definition settle :: "'e completion_env_scheme \<Rightarrow> tool_call \<Rightarrow> completion_claim \<Rightarrow> verification_result \<Rightarrow> ('r, bool \<times> string) gated" where
  "settle env call claim r s =
     (let s1 = log_event (Verified (vr_approved r) (vr_feedback r) (Suc (rejections (gate s)))) s in
      if vr_approved r then (Inr (True, cl_summary claim), s1\<lparr>gate := (gate s1)\<lparr>approvals := Suc (approvals (gate s1))\<rparr>\<rparr>)
      else (let fb = or_failed (vr_feedback r) in
        (Inr (False, feedback_text env fb),
         reject_call env call fb (s1\<lparr>gate := record_rejection (cl_commands claim) fb (gate s1)\<rparr>))))"

definition judge_claim :: "'e completion_env_scheme \<Rightarrow> agent_config \<Rightarrow> tool_call \<Rightarrow> ('r, bool \<times> string) gated" where
  "judge_claim env cfg call s =
     (case claim_of env call s of
        None \<Rightarrow> (Inl Bad_arguments, s)
      | Some claim \<Rightarrow> bindE (verify_with_commands env cfg claim (Some (gate s))) (settle env call claim) s)"

definition attempt :: "'e completion_env_scheme \<Rightarrow> agent_config \<Rightarrow> tool_call \<Rightarrow> ('r, bool \<times> string) gated" where
  "attempt env cfg call =
     bindE (case output_schema cfg of None \<Rightarrow> ret True | Some schema \<Rightarrow> output_valid env schema call) (\<lambda>valid.
     if \<not> valid then gets (\<lambda>s. (False, failure_message s))
     else bindE (ensure_contract env cfg) (\<lambda>_. bindE (check_contract env call) (\<lambda>rejected.
       if rejected then ret (False, [])
       else bindE (sweep_processes env cfg) (\<lambda>_. judge_claim env cfg call))))"

subsection \<open>The terminal strategy\<close>

record terminal_decision =
  td_accepted :: bool
  td_summary :: string
  td_output :: "pyval option"
  td_failure :: "string option"

definition terminal_attempt :: "'e completion_env_scheme \<Rightarrow> agent_config \<Rightarrow> tool_call \<Rightarrow> ('r, terminal_decision) gated" where
  "terminal_attempt env cfg call =
     bindE (attempt env cfg call) (\<lambda>(accepted, summary). gets (\<lambda>s.
       if accepted then \<lparr>td_accepted = True, td_summary = summary, td_output = accepted_output s, td_failure = None\<rparr>
       else \<lparr>td_accepted = False, td_summary = summary, td_output = None, td_failure = failure s\<rparr>))"

subsection \<open>The verifier leaves the run alone\<close>

text \<open>The verifier changes the clock and the log of commands, nothing else of the state.\<close>

definition leaves :: "'x \<Rightarrow> 'x outside_scheme \<Rightarrow> bool" where
  "leaves x s \<longleftrightarrow> outside.more s = x"

lemma leaves_execute: "keeps (leaves x) (execute env c)"
  by (simp add: keeps_def hoare_def execute_def leaves_def)

lemma leaves_tick: "keeps (leaves x) next_tick"
  by (simp add: keeps_def hoare_def next_tick_def leaves_def)

lemma keeps_Pair: "keeps I (Pair r)"
  by (simp add: keeps_def hoare_def split: sum.split)

lemmas leaves_basic = keeps_bind keeps_ret keeps_Pair leaves_execute leaves_tick

lemma leaves_execute_all: "keeps (leaves x) (execute_all env cs)"
  by (induction cs) (auto intro!: leaves_basic)

lemma leaves_execute_one: "keeps (leaves x) (execute_one env p t)"
  unfolding execute_one_def by (auto intro!: leaves_basic)

lemma leaves_serially: "keeps (leaves x) (run_group_serially env ps t)"
  by (induction ps arbitrary: t) (auto intro!: leaves_basic leaves_execute_one simp: case_prod_beta)

lemma leaves_concurrently: "keeps (leaves x) (run_group_concurrently env ps t)"
  unfolding run_group_concurrently_def by (auto intro!: leaves_basic leaves_execute_all simp: case_prod_beta Let_def)

lemma leaves_segments: "keeps (leaves x) (run_segments env segs t)"
proof (induction segs arbitrary: t)
  case (Cons seg segs)
  then show ?case
    by (cases seg) (auto intro!: leaves_basic leaves_serially leaves_concurrently simp: case_prod_beta)
qed (simp add: keeps_ret)

lemma leaves_recheck: "keeps (leaves x) (recheck_stability env obs)"
  by (induction obs) (auto intro!: leaves_basic split: exec_outcome.split)

lemma leaves_git: "keeps (leaves x) (gather_git_evidence env)"
  unfolding gather_git_evidence_def by (auto intro!: leaves_basic leaves_execute_all)

lemma leaves_final: "keeps (leaves x) (final_verdict env cfg claim t)"
  unfolding final_verdict_def ask_grader_def llm_verdict_def ask_judge_def
  by (auto intro!: leaves_basic leaves_git split: option.split grader_reply.split)

lemma leaves_stable: "keeps (leaves x) (judge_stable env cfg claim t)"
  unfolding judge_stable_def check_stability_def
  by (auto intro!: leaves_basic leaves_recheck leaves_final simp: case_prod_beta)

lemma leaves_verify: "keeps (leaves x) (verify env cfg claim g)"
  unfolding verify_def run_commands_def
  by (auto intro!: leaves_basic leaves_segments leaves_stable simp: case_prod_beta split: sum.split)

lemma leaves_verify_with_commands: "keeps (leaves x) (verify_with_commands env cfg claim g)"
  unfolding verify_with_commands_def
  by (auto intro!: leaves_basic leaves_verify split: option.split sum.split)

lemma leaves_run: "outside.more s1 = outside.more s \<Longrightarrow> conv s1 = conv s \<and> gate s1 = gate s \<and> contract s1 = contract s
    \<and> deferred_notes s1 = deferred_notes s \<and> events s1 = events s \<and> output_failures s1 = output_failures s
    \<and> accepted_output s1 = accepted_output s \<and> failure s1 = failure s \<and> gate_run.more s1 = gate_run.more s"
  by (cases s; cases s1) simp

lemma verifier_leaves: "outside.more (snd (verify_with_commands env cfg claim g s)) = outside.more s"
  using keeps_final [OF leaves_verify_with_commands, of "outside.more s" s] by (simp add: leaves_def)

subsection \<open>The conversation during an attempt\<close>

text \<open>\<open>answered_ids\<close>: the ids \<open>answer_open_calls\<close> takes as answered.\<close>

definition answered_ids :: "message list \<Rightarrow> string list" where
  "answered_ids ms = List.map_filter (\<lambda>m. if role m = TOOL then (case tool_call_id m of Some i \<Rightarrow> if i = [] then None else Some i | None \<Rightarrow> None)
     else None) ms"

text \<open>Distinct objects, with identities below the next one; \<open>owes\<close> the ids still to be answered, with the rest
  of the state a run extends this one by, and, if \<open>u\<close> is set, none of them answered before.\<close>

definition ids_ok :: "conversation \<Rightarrow> bool" where
  "ids_ok cx \<longleftrightarrow> distinct (map oid (messages cx)) \<and> (\<forall>i \<in> set (map oid (messages cx)). i < fresh cx)"

definition owes :: "bool \<Rightarrow> 'r \<Rightarrow> string set \<Rightarrow> 'r gate_run_scheme \<Rightarrow> bool" where
  "owes u x ids s \<longleftrightarrow> ids_ok (conv s) \<and> scan (messages (conv s)) = (True, ids) \<and> gate_run.more s = x
     \<and> (u \<longrightarrow> ids \<inter> set (answered_ids (messages (conv s))) = {})"

lemma answered_ids_snoc [simp]: "answered_ids (ms @ [m]) = answered_ids ms @ answered_ids [m]"
  by (simp add: answered_ids_def map_filter_def)

lemma answered_ids_message [simp]:
  "answered_ids [plain_message n r body] = []"
  "answered_ids [tool_message n body c] = (if call_id c = [] then [] else [call_id c])"
  by (simp_all add: answered_ids_def map_filter_def plain_message_def tool_message_def)

lemma conversation_ok_iff: "conversation_ok cx \<longleftrightarrow> ids_ok cx \<and> answered (messages cx)"
  by (auto simp: conversation_ok_def history_ok_def ids_ok_def)

lemma ids_ok_append: "ids_ok cx \<Longrightarrow> oid m = fresh cx \<Longrightarrow> ids_ok (append_message env m cx)"
  by (auto simp: ids_ok_def append_message_def)

lemma messages_append [simp]: "messages (append_message env m cx) = messages cx @ [m]"
  by (simp add: append_message_def)

lemma owes_user_note [simp]: "owes u x ids s \<Longrightarrow> owes u x ids (user_note env body s)"
  by (simp add: owes_def user_note_def add_message_def ids_ok_append scan_user)

lemma owes_tool_reply: "owes u x ids s \<Longrightarrow> owes u x (ids - {call_id call}) (tool_reply env body call s)"
  by (auto simp: owes_def tool_reply_def add_message_def ids_ok_append scan_tool)

lemma owes_fold_notes: "owes u x ids s \<Longrightarrow> owes u x ids (fold (user_note env) ns s)"
  by (induction ns arbitrary: s) auto

lemma owes_other [simp]:
  "owes u x ids (log_event e s) = owes u x ids s" "owes u x ids (defer_note env nt s) = owes u x ids s"
  "owes u x ids (s\<lparr>gate := g\<rparr>) = owes u x ids s" "owes u x ids (s\<lparr>deferred_notes := ns\<rparr>) = owes u x ids s"
  "owes u x ids (s\<lparr>ticks := n\<rparr>) = owes u x ids s" "owes u x ids (s\<lparr>contract_attempted := b\<rparr>) = owes u x ids s"
  "owes u x ids (s\<lparr>contract := cs\<rparr>) = owes u x ids s" "owes u x ids (s\<lparr>accepted_output := ou\<rparr>) = owes u x ids s"
  "owes u x ids (s\<lparr>output_failures := n\<rparr>) = owes u x ids s" "owes u x ids (s\<lparr>failure := f\<rparr>) = owes u x ids s"
  "owes u x ids (s\<lparr>failure_message := m\<rparr>) = owes u x ids s"
  by (simp_all add: owes_def log_event_def defer_note_def)

lemma owes_flush: "owes u x ids s \<Longrightarrow> owes u x ids (flush_deferred env s)"
  by (simp add: flush_deferred_def owes_fold_notes)

lemma owes_reject: "owes u x ids s \<Longrightarrow> owes u x (ids - {call_id call}) (reject_call env call fb s)"
  using owes_tool_reply [of u x ids s "call\<lparr>call_name := ''task_complete''\<rparr>" env "feedback_text env fb"]
  by (simp add: reject_call_def owes_flush)

lemma owes_verifier: "owes u x ids s \<Longrightarrow> owes u x ids (snd (verify_with_commands env cfg claim g s))"
  using leaves_run [OF verifier_leaves [of env cfg claim g s]] by (simp add: owes_def)

lemma owes_ensure_contract: "owes u x ids s \<Longrightarrow> owes u x ids (snd (ensure_contract env cfg s))"
  by (auto simp: ensure_contract_def Let_def split: option.split)

lemma owes_sweep: "owes u x ids s \<Longrightarrow> owes u x ids (snd (sweep_processes env cfg s))"
  by (auto simp: sweep_processes_def Let_def split: option.split)

text \<open>An attempt that is not accepted answers its call; one that is accepted, or that dies with the
  workspace, leaves the conversation as it was.\<close>

lemma owes_check_contract:
  assumes "owes u x ids s" "check_contract env call s = (Inr b, s1)"
  shows "owes u x (if b then ids - {call_id call} else ids) s1"
  using assms by (auto simp: check_contract_def Let_def intro!: owes_reject split: if_splits prod.splits)

lemma check_contract_returns: "\<exists>b s1. check_contract env call s = (Inr b, s1)"
  by (auto simp: check_contract_def Let_def split: prod.split)

lemma owes_settle:
  "owes u x ids s \<Longrightarrow> settle env call claim r s = (Inr (ok, m), s1) \<Longrightarrow> owes u x (if ok then ids else ids - {call_id call}) s1"
  by (auto simp: settle_def Let_def intro!: owes_reject split: if_splits)

lemma settle_returns: "\<exists>ok m s1. settle env call claim r s = (Inr (ok, m), s1)"
  by (auto simp: settle_def Let_def)

lemma owes_judge_claim:
  assumes "owes u x ids s"
  shows "case judge_claim env cfg call s of (Inl e, s1) \<Rightarrow> owes u x ids s1
    | (Inr (ok, m), s1) \<Rightarrow> owes u x (if ok then ids else ids - {call_id call}) s1"
proof (cases "claim_of env call s")
  case (Some claim)
  obtain r sa where v: "verify_with_commands env cfg claim (Some (gate s)) s = (r, sa)" by fastforce
  with owes_verifier [OF assms, of env cfg claim "Some (gate s)"] have o: "owes u x ids sa" by simp
  show ?thesis
  proof (cases r)
    case (Inr w)
    obtain ok m sb where "settle env call claim w sa = (Inr (ok, m), sb)" using settle_returns by blast
    with owes_settle [OF o this] show ?thesis by (simp add: judge_claim_def Some bindE_def v Inr)
  qed (simp add: judge_claim_def Some bindE_def v o)
qed (simp add: judge_claim_def assms)

lemma steps_return: "fst (ensure_contract env cfg s) = Inr ()" "fst (sweep_processes env cfg s) = Inr ()"
  by (simp_all add: ensure_contract_def sweep_processes_def Let_def split: option.split)

lemma output_valid_returns: "\<exists>valid s1. output_valid env schema call s = (Inr valid, s1)"
  by (auto simp: output_valid_def Let_def)

lemma schema_step_returns:
  "\<exists>valid s1. (case output_schema cfg of None \<Rightarrow> ret True | Some schema \<Rightarrow> output_valid env schema call) s = (Inr valid, s1)"
  by (cases "output_schema cfg") (auto simp: output_valid_returns)

lemma owes_attempt:
  assumes "owes u x ids s"
  shows "case attempt env cfg call s of (Inl e, s1) \<Rightarrow> owes u x ids s1
    | (Inr (ok, m), s1) \<Rightarrow> owes u x (if ok then ids else ids - {call_id call}) s1"
proof -
  let ?rest = "\<lambda>s. bindE (ensure_contract env cfg) (\<lambda>_. bindE (check_contract env call) (\<lambda>rejected.
       if rejected then ret (False, []) else bindE (sweep_processes env cfg) (\<lambda>_. judge_claim env cfg call))) s"
  have gates: "case ?rest s of (Inl e, s1) \<Rightarrow> owes u x ids s1
    | (Inr (ok, m), s1) \<Rightarrow> owes u x (if ok then ids else ids - {call_id call}) s1" if "owes u x ids s" for s
  proof -
    obtain sa where a: "ensure_contract env cfg s = (Inr (), sa)" using steps_return(1) by (metis prod.collapse)
    with owes_ensure_contract [OF that, of env cfg] have oa: "owes u x ids sa" by simp
    obtain b sb where b: "check_contract env call sa = (Inr b, sb)" using check_contract_returns by blast
    note ob = owes_check_contract [OF oa b]
    obtain sc where c: "sweep_processes env cfg sb = (Inr (), sc)" using steps_return(2) by (metis prod.collapse)
    show ?thesis
    proof (cases b)
      case False
      with ob have "owes u x ids sb" by simp
      from owes_sweep [OF this, of env cfg] c have "owes u x ids sc" by simp
      from owes_judge_claim [OF this, where env = env and cfg = cfg and call = call] False show ?thesis by (simp add: bindE_def a b c)
    qed (use ob in \<open>simp add: bindE_def a b\<close>)
  qed
  show ?thesis
  proof (cases "output_schema cfg")
    case None
    with gates [OF assms] show ?thesis by (simp add: attempt_def)
  next
    case (Some schema)
    obtain valid sv where v: "output_valid env schema call s = (Inr valid, sv)" using output_valid_returns by blast
    have "owes u x (if valid then ids else ids - {call_id call}) sv"
      using v assms by (auto simp: output_valid_def Let_def intro!: owes_reject split: if_splits)
    with gates [of sv] show ?thesis by (cases valid) (simp_all add: attempt_def Some bindE_def v)
  qed
qed

lemma owes_terminal_attempt:
  assumes "owes u x ids s"
  shows "case terminal_attempt env cfg call s of (Inl e, s1) \<Rightarrow> owes u x ids s1
    | (Inr d, s1) \<Rightarrow> owes u x (if td_accepted d then ids else ids - {call_id call}) s1"
proof -
  obtain r s1 where a: "attempt env cfg call s = (r, s1)" by fastforce
  with owes_attempt [OF assms, where env = env and cfg = cfg and call = call] show ?thesis
    by (cases r) (auto simp: terminal_attempt_def bindE_def)
qed

subsection \<open>What an accepted attempt went through\<close>

definition open_ids :: "'r gate_run_scheme \<Rightarrow> string set" where
  "open_ids s = (case contract s of None \<Rightarrow> {} | Some cs \<Rightarrow> set (map criterion_id (outstanding cs)))"

text \<open>The contract gate is passed: nothing is open, or the gate gave up repeating itself.\<close>

definition contract_passed :: "'r gate_run_scheme \<Rightarrow> bool" where
  "contract_passed s \<longleftrightarrow> open_ids s = {} \<or> contract_yielded (gate s)"

lemma open_ids_Nil: "(case contract s of None \<Rightarrow> [] | Some cs \<Rightarrow> outstanding cs) = [] \<longleftrightarrow> open_ids s = {}"
  by (simp add: open_ids_def split: option.split)

lemma check_contract_passed: "check_contract env call s = (Inr False, s1) \<Longrightarrow> contract_passed s1 \<and> accepted_output s1 = accepted_output s"
  by (auto simp: check_contract_def contract_passed_def open_ids_def defer_note_def log_event_def Let_def split: if_splits prod.splits option.splits)

lemma sweep_other: "sweep_processes env cfg s = (Inr (), s1) \<Longrightarrow> gate s1 = gate s \<and> contract s1 = contract s \<and> accepted_output s1 = accepted_output s
    \<and> open_ids s1 = open_ids s"
  by (auto simp: sweep_processes_def defer_note_def log_event_def open_ids_def Let_def split: option.splits if_splits)

lemma ensure_contract_output: "accepted_output (snd (ensure_contract env cfg s)) = accepted_output s"
  by (auto simp: ensure_contract_def defer_note_def log_event_def Let_def split: option.split)

lemma settle_accepted:
  "settle env call claim r s = (Inr (True, m), s1) \<Longrightarrow> vr_approved r \<and> m = cl_summary claim \<and> contract s1 = contract s
    \<and> contract_yielded (gate s1) = contract_yielded (gate s) \<and> accepted_output s1 = accepted_output s
    \<and> events s1 = events s @ [Verified True (vr_feedback r) (Suc (rejections (gate s)))]"
  by (auto simp: settle_def log_event_def Let_def split: if_splits)

lemma judge_claim_accepted:
  assumes "judge_claim env cfg call s = (Inr (True, m), s1)"
  shows "\<exists>claim r sa. claim_of env call s = Some claim \<and> verify_with_commands env cfg claim (Some (gate s)) s = (Inr r, sa)
    \<and> vr_approved r \<and> m = cl_summary claim \<and> contract s1 = contract s \<and> contract_yielded (gate s1) = contract_yielded (gate s)
    \<and> accepted_output s1 = accepted_output s \<and> (\<exists>es. events s1 = es @ [Verified True (vr_feedback r) (Suc (rejections (gate s)))])"
proof -
  obtain claim where claim: "claim_of env call s = Some claim" using assms by (cases "claim_of env call s") (auto simp: judge_claim_def)
  obtain r sa where v: "verify_with_commands env cfg claim (Some (gate s)) s = (r, sa)" by fastforce
  with assms claim obtain w where w: "r = Inr w" by (cases r) (auto simp: judge_claim_def bindE_def)
  have same: "contract sa = contract s" "gate sa = gate s" "accepted_output sa = accepted_output s" "events sa = events s"
    using leaves_run [OF verifier_leaves [of env cfg claim "Some (gate s)" s]] v by simp_all
  have "settle env call claim w sa = (Inr (True, m), s1)" using assms claim v w by (simp add: judge_claim_def bindE_def)
  from settle_accepted [OF this] claim v w same show ?thesis by auto
qed

lemma attempt_gates:
  assumes "attempt env cfg call s = (Inr (True, m), s1)"
  shows "(\<forall>schema. output_schema cfg = Some schema \<longrightarrow> (\<exists>v. dict_get (arguments call) ''result'' = Some v
      \<and> validation_errors env schema v = [] \<and> accepted_output s1 = Some v))"
    and "contract_passed s1" and "\<exists>sc. judge_claim env cfg call sc = (Inr (True, m), s1)"
proof -
  obtain valid sv where v: "(case output_schema cfg of None \<Rightarrow> ret True | Some schema \<Rightarrow> output_valid env schema call) s = (Inr valid, sv)"
    using schema_step_returns by blast
  with assms have valid by (cases valid) (auto simp: attempt_def bindE_def)
  obtain sa where a: "ensure_contract env cfg sv = (Inr (), sa)" using steps_return(1) by (metis prod.collapse)
  obtain b sb where b: "check_contract env call sa = (Inr b, sb)" using check_contract_returns by blast
  obtain sc where c: "sweep_processes env cfg sb = (Inr (), sc)" using steps_return(2) by (metis prod.collapse)
  have nb: "\<not> b" and judge: "judge_claim env cfg call sc = (Inr (True, m), s1)"
    using assms v \<open>valid\<close> a b c by (cases b; simp add: attempt_def bindE_def)+
  note j = judge_claim_accepted [OF judge] and k = check_contract_passed [OF b [unfolded nb [THEN eq_False [THEN iffD2]]]]
    and sw = sweep_other [OF c]
  from j k sw show "contract_passed s1" by (auto simp: contract_passed_def open_ids_def)
  have "accepted_output s1 = accepted_output sv" using j k sw ensure_contract_output [of env cfg sv] a by auto
  with v \<open>valid\<close> show "\<forall>schema. output_schema cfg = Some schema \<longrightarrow> (\<exists>v. dict_get (arguments call) ''result'' = Some v
      \<and> validation_errors env schema v = [] \<and> accepted_output s1 = Some v)"
    by (auto simp: output_valid_def Let_def split: if_splits option.splits)
  from judge show "\<exists>sc. judge_claim env cfg call sc = (Inr (True, m), s1)" by blast
qed

subsection \<open>The contract gate gives up\<close>

definition contract_rejects :: "'r gate_run_scheme \<Rightarrow> nat" where
  "contract_rejects s = length (filter (\<lambda>e. case e of Contract_reject _ \<Rightarrow> True | _ \<Rightarrow> False) (events s))"

text \<open>How often the gate can still refuse while the open criteria are \<open>ids\<close>.\<close>

definition refusals_left :: "string set \<Rightarrow> gate_state \<Rightarrow> nat" where
  "refusals_left ids g =
     (if contract_yielded g then 0
      else if map_option set (last_outstanding g) = Some ids then CONTRACT_REJECT_LIMIT - contract_reject_streak g
      else CONTRACT_REJECT_LIMIT)"

lemma refusals_left_cong: "contract_yielded g = contract_yielded g' \<Longrightarrow> last_outstanding g = last_outstanding g'
    \<Longrightarrow> contract_reject_streak g = contract_reject_streak g' \<Longrightarrow> refusals_left ids g = refusals_left ids g'"
  by (simp only: refusals_left_def)

definition budget :: "string set \<Rightarrow> 'r gate_run_scheme \<Rightarrow> nat" where
  "budget ids s = contract_rejects s + refusals_left ids (gate s)"

lemma fold_user_notes_other: "gate (fold (user_note env) ns s) = gate s \<and> events (fold (user_note env) ns s) = events s
    \<and> contract (fold (user_note env) ns s) = contract s"
  by (induction ns arbitrary: s) (simp_all add: user_note_def add_message_def)

lemma reject_other [simp]: "gate (reject_call env call fb s) = gate s" "events (reject_call env call fb s) = events s"
    "contract (reject_call env call fb s) = contract s"
  by (simp_all add: fold_user_notes_other reject_call_def flush_deferred_def tool_reply_def add_message_def)

lemma budget_log [simp]: "(\<forall>ids. e \<noteq> Contract_reject ids) \<Longrightarrow> contract_rejects (log_event e s) = contract_rejects s"
  by (cases e) (auto simp: contract_rejects_def log_event_def)

lemma budget_other:
  "contract_rejects (s\<lparr>gate := g\<rparr>) = contract_rejects s" "contract_rejects (s\<lparr>ticks := n\<rparr>) = contract_rejects s"
  "gate (log_event e s) = gate s" "contract (log_event e s) = contract s"
  "gate (defer_note env nt s) = gate s" "contract_rejects (defer_note env nt s) = contract_rejects s"
  by (simp_all add: contract_rejects_def log_event_def defer_note_def)

lemma note_contract_refusals:
  assumes "note_contract_rejection ids g = (streak, g1)" "\<not> contract_yielded g"
  shows "streak \<le> CONTRACT_REJECT_LIMIT \<Longrightarrow> Suc (refusals_left (set ids) (record_contract_rejection fb g1)) \<le> refusals_left (set ids) g"
  using assms
  by (auto simp: note_contract_rejection_def same_outstanding_def refusals_left_def record_contract_rejection_def
      CONTRACT_REJECT_LIMIT_def split: option.splits if_splits)

lemma budget_check_contract:
  assumes "check_contract env call s = (Inr b, s1)" "open_ids s = ids" "ids \<noteq> {}"
  shows "budget ids s1 \<le> budget ids s"
proof (cases "contract_yielded (gate s)")
  case True
  with assms(1) show ?thesis by (simp add: check_contract_def Let_def)
next
  case False
  let ?open = "case contract s of None \<Rightarrow> [] | Some cs \<Rightarrow> outstanding cs"
  let ?ids = "map criterion_id ?open"
  have ids: "set ?ids = ids" "?open \<noteq> []" using assms(2,3) by (auto simp: open_ids_def split: option.splits)
  obtain streak g where n: "note_contract_rejection ?ids (gate s) = (streak, g)" by fastforce
  show ?thesis
  proof (cases "streak > CONTRACT_REJECT_LIMIT")
    case True
    with assms(1) ids(2) False n have "contract_yielded (gate s1)" "contract_rejects s1 = contract_rejects s"
      by (auto simp: check_contract_def Let_def budget_other)
    then show ?thesis by (simp add: budget_def refusals_left_def)
  next
    case le: False
    let ?fb = "Criteria_open (length ?open) (map (\<lambda>c. (criterion_id c, criterion_text c)) (take 12 ?open))"
    have s1: "s1 = reject_call env call ?fb (log_event (Contract_reject ?ids) (s\<lparr>gate := record_contract_rejection ?fb g\<rparr>))"
      using assms(1) ids(2) False n le by (simp add: check_contract_def Let_def)
    have "contract_rejects s1 = Suc (contract_rejects s)"
      by (simp add: s1 contract_rejects_def log_event_def)
    moreover have "gate s1 = record_contract_rejection ?fb g" by (simp add: s1 budget_other)
    ultimately show ?thesis
      using note_contract_refusals [OF n False, of ?fb] le ids(1) by (simp add: budget_def)
  qed
qed

lemma budget_cong: "contract_rejects s1 = contract_rejects s \<Longrightarrow> contract_yielded (gate s1) = contract_yielded (gate s)
    \<Longrightarrow> last_outstanding (gate s1) = last_outstanding (gate s) \<Longrightarrow> contract_reject_streak (gate s1) = contract_reject_streak (gate s)
    \<Longrightarrow> budget ids s1 = budget ids s"
  using refusals_left_cong [of "gate s1" "gate s" ids] by (simp add: budget_def)

lemma budget_settle: "budget ids (snd (settle env call claim r s)) = budget ids s"
  by (intro budget_cong) (simp_all add: settle_def Let_def contract_rejects_def record_rejection_def log_event_def)

lemma budget_judge_claim: "budget ids (snd (judge_claim env cfg call s)) = budget ids s"
proof (cases "claim_of env call s")
  case (Some claim)
  obtain r sa where v: "verify_with_commands env cfg claim (Some (gate s)) s = (r, sa)" by fastforce
  have "budget ids sa = budget ids s"
    using leaves_run [OF verifier_leaves [of env cfg claim "Some (gate s)" s]] v
    by (intro budget_cong) (simp_all add: contract_rejects_def)
  with budget_settle [of ids env call claim _ sa] show ?thesis
    by (cases r) (simp_all add: judge_claim_def Some bindE_def v)
qed (simp add: judge_claim_def)

lemma contract_refusals_step:
  assumes "open_ids s = ids" "ids \<noteq> {}"
  shows "budget ids (snd (attempt env cfg call s)) \<le> budget ids s"
proof -
  obtain valid sv where v: "(case output_schema cfg of None \<Rightarrow> ret True | Some schema \<Rightarrow> output_valid env schema call) s = (Inr valid, sv)"
    using schema_step_returns by blast
  have same: "budget ids sv = budget ids s" "contract sv = contract s"
    using v by (auto simp: output_valid_def Let_def contract_rejects_def log_event_def intro!: budget_cong split: option.splits if_splits)
  have "contract sv \<noteq> None" using assms same(2) by (auto simp: open_ids_def split: option.splits)
  then have a: "ensure_contract env cfg sv = (Inr (), sv)" by (simp add: ensure_contract_def)
  obtain b sb where b: "check_contract env call sv = (Inr b, sb)" using check_contract_returns by blast
  obtain sc where c: "sweep_processes env cfg sb = (Inr (), sc)" using steps_return(2) by (metis prod.collapse)
  have "budget ids sb \<le> budget ids s"
    using budget_check_contract [OF b, of ids] assms same by (simp add: open_ids_def)
  moreover have "budget ids sc = budget ids sb"
    using c by (auto simp: sweep_processes_def Let_def budget_other intro!: budget_cong split: option.splits if_splits)
  ultimately show ?thesis
    using same(1) budget_judge_claim [of ids env cfg call sc] by (simp add: attempt_def bindE_def v a b c)
qed

text \<open>Completion attempts with anything else of the run between them.\<close>

fun attempts :: "'e completion_env_scheme \<Rightarrow> agent_config \<Rightarrow> (('r gate_run_scheme \<Rightarrow> 'r gate_run_scheme) \<times> tool_call) list
    \<Rightarrow> 'r gate_run_scheme \<Rightarrow> 'r gate_run_scheme" where
  "attempts env cfg [] s = s"
| "attempts env cfg ((between, call) # ts) s = attempts env cfg ts (snd (attempt env cfg call (between s)))"

lemma accepted_attempt_gates:
  assumes "attempt env cfg call s = (Inr (True, summary), s1)" "enable_verifier cfg"
  shows "(\<forall>schema. output_schema cfg = Some schema \<longrightarrow> (\<exists>v. dict_get (arguments call) ''result'' = Some v
        \<and> validation_errors env schema v = [] \<and> accepted_output s1 = Some v))
    \<and> contract_passed s1
    \<and> summary_of call = Some summary \<and> 10 \<le> length (py_strip summary)
    \<and> (\<exists>commands. command_list (dict_get (arguments call) ''verification_commands'') = Some commands
        \<and> (\<forall>c \<in> set commands. passed env c)
        \<and> (require_discriminating_evidence cfg \<and> \<not> has_authoritative_grader env \<longrightarrow> (\<exists>c \<in> set commands. is_discriminating c)))
    \<and> (\<exists>es fb n. events s1 = es @ [Verified True fb n])"
proof -
  note gates = attempt_gates [OF assms(1)]
  from gates(3) obtain sc where "judge_claim env cfg call sc = (Inr (True, summary), s1)" by blast
  from judge_claim_accepted [OF this] obtain claim r sa where claim: "claim_of env call sc = Some claim"
    and v: "verify_with_commands env cfg claim (Some (gate sc)) sc = (Inr r, sa)" "vr_approved r" "summary = cl_summary claim"
    and es: "\<exists>es. events s1 = es @ [Verified True (vr_feedback r) (Suc (rejections (gate sc)))]" by blast
  from claim have "summary_of call = Some (cl_summary claim)"
    "command_list (dict_get (arguments call) ''verification_commands'') = Some (cl_commands claim)"
    by (auto simp: claim_of_def split: option.splits)
  with verify_with_commands_accepted [OF v(1,2) assms(2)] gates(1,2) v(3) es show ?thesis by blast
qed

subsection \<open>Properties\<close>

text \<open>C8. A completion is accepted only on evidence, through every gate: an accepted attempt found the
  final output valid against the schema, every acceptance criterion resolved unless the contract
  gate had given up, and, with the verifier on, an approval by the verifier of the very commands
  of the call, each of which was permitted and exited with 0.\<close>

theorem acceptance_passes_every_gate:
  assumes "attempt env cfg call s = (Inr (True, summary), s1)" "enable_verifier cfg"
  shows "(\<forall>schema. output_schema cfg = Some schema \<longrightarrow> (\<exists>v. dict_get (arguments call) ''result'' = Some v
        \<and> validation_errors env schema v = [] \<and> accepted_output s1 = Some v))
    \<and> contract_passed s1
    \<and> summary_of call = Some summary \<and> 10 \<le> length (py_strip summary)
    \<and> (\<exists>commands. command_list (dict_get (arguments call) ''verification_commands'') = Some commands
        \<and> (\<forall>c \<in> set commands. passed env c)
        \<and> (require_discriminating_evidence cfg \<and> \<not> has_authoritative_grader env \<longrightarrow> (\<exists>c \<in> set commands. is_discriminating c)))
    \<and> (\<exists>es fb n. events s1 = es @ [Verified True fb n])"
  by (rule accepted_attempt_gates [OF assms])


definition demo_completion_env :: completion_env where
  "demo_completion_env = verifier_env.extend demo_verifier (completion_env.fields demo_context_env ''t'' (\<lambda>_. ''fb'') (\<lambda>_. ''note'')
     (\<lambda>_. Some demo_payload) True None (\<lambda>_ _. []))"

definition demo_run :: gate_run where
  "demo_run = \<lparr>ticks = 0, ran = [], conv = demo_conversation, gate = new_gate, contract = Some demo_contract, contract_attempted = True,
     deferred_notes = [], accepted_output = None, output_failures = 0, failure = None, failure_message = [], events = []\<rparr>"

definition demo_completion :: tool_call where
  "demo_completion = \<lparr>call_id = ''x'', call_name = ''task_complete'', arguments = [(''summary'', P_str ''ran the tests''),
     (''verification_commands'', P_list [P_str ''pytest''])]\<rparr>"

definition gate_config :: agent_config where
  "gate_config = demo_config\<lparr>enable_llm_verifier := False\<rparr>"

theorem acceptance_passes_every_gate_witness:
  "passed demo_completion_env ''pytest'' \<and> contract_passed (snd (attempt demo_completion_env gate_config demo_completion (demo_run\<lparr>contract := None\<rparr>)))"
proof -
  let ?run = "attempt demo_completion_env gate_config demo_completion (demo_run\<lparr>contract := None\<rparr>)"
  have "fst ?run = Inr (True, ''ran the tests'')" by code_simp
  then have run: "?run = (Inr (True, ''ran the tests''), snd ?run)" by (metis prod.collapse)
  have "enable_verifier gate_config" by code_simp
  moreover have "command_list (dict_get (arguments demo_completion) ''verification_commands'') = Some [''pytest'']" by code_simp
  ultimately show ?thesis using acceptance_passes_every_gate [OF run] by auto
qed


end
