(* ===== verification/Action_Memo.thy ===== *)
theory Action_Memo
  imports Context Patterns
begin

text \<open>
  The memory of tool calls already made (\<open>garuda/core/action_memo.py\<close>) and the execution of one
  tool call around it (\<open>ToolRunner.execute\<close> of \<open>garuda/core/tool_runner.py\<close>).

  A \<open>tool_box\<close> answers for the rest: the signature (the text \<open>json.dumps\<close> gives), what a tool does to
  a world of any type and what it returns, already shaped for the window at a fixed output budget, and
  the check of a capture descriptor. The observation of a raised exception is the text of the exception.

  \<open>memo_reach\<close> are the worlds and memos that calls reach; while a background writer is known the world
  may also change between calls. \<open>memo_inv\<close> says that what the memo remembers of the workspace is what
  a read would return now, and \<open>memo_inv_reach\<close> that it holds under the laws of the tools. The last
  theorems show the two places where the laws matter.
\<close>

subsection \<open>Tools\<close>

record tool_result =
  tr_content :: string
  tr_is_error :: bool
  tr_metadata :: "pyval dict"
  tr_images :: "string list"

datatype tool_outcome = Returned tool_result | Access_denied string | Tool_raised string | Workspace_lost_in_tool

definition error_result :: "string \<Rightarrow> tool_result" where
  "error_result msg = \<lparr>tr_content = msg, tr_is_error = True, tr_metadata = [], tr_images = []\<rparr>"

definition WORKSPACE_READ_TOOLS :: "string list" where
  "WORKSPACE_READ_TOOLS = [''read_file'', ''grep'', ''glob'', ''ls'', ''read_pdf'', ''read_spreadsheet'', ''image_read'']"

definition BUFFER_READ_TOOLS :: "string list" where
  "BUFFER_READ_TOOLS = [''buffer_grep'', ''buffer_slice'', ''buffer_list'', ''buffer_query'']"

definition CACHEABLE_TOOLS :: "string list" where
  "CACHEABLE_TOOLS = WORKSPACE_READ_TOOLS @ BUFFER_READ_TOOLS"

definition NON_MUTATING_TOOLS :: "string list" where
  "NON_MUTATING_TOOLS = CACHEABLE_TOOLS @ [''todo'', ''update_goal'', ''task_complete'', ''contract'', ''think'',
     ''web_search'', ''web_fetch'', ''search_tool'', ''task_output'']"

definition MANAGED_BACKGROUND_TOOLS :: "string list" where
  "MANAGED_BACKGROUND_TOOLS = [''bash_background'']"

definition REPEAT_STEER_THRESHOLD :: nat where "REPEAT_STEER_THRESHOLD = 3"

subsection \<open>Commands that leave a process behind\<close>

definition TRAILING_AMP :: rx where
  "TRAILING_AMP = cats [NotBehind [among ''&''], lit ''&'', Star (Cls py_space), Eol]"

definition DETACHERS :: rx where
  "DETACHERS = cats [Boundary, alts [lit ''nohup'', lit ''setsid'', lit ''disown''], Boundary]"

definition DAEMONISERS :: rx where
  "DAEMONISERS = cats [Boundary,
     alts [lit ''nginx'', lit ''httpd'', lit ''apache2'', lit ''redis-server'', lit ''mongod'', lit ''mysqld'', lit ''postgres'', lit ''dockerd'',
           cats [lit ''systemctl'', plus (Cls py_space), lit ''start''],
           cats [lit ''service'', plus (Cls py_space), plus (Cls (\<lambda>c. \<not> py_space c)), plus (Cls py_space), lit ''start'']],
     Boundary]"

definition is_backgrounding :: "string \<Rightarrow> bool" where
  "is_backgrounding command \<longleftrightarrow>
     command \<noteq> [] \<and> (search TRAILING_AMP command \<or> search DETACHERS command \<or> search DAEMONISERS command)"

subsection \<open>The memo\<close>

record memo_entry =
  me_content :: string
  me_is_error :: bool
  me_first_step :: nat
  me_capture :: "pyval option"

record action_memo =
  entries :: "memo_entry dict"
  counts :: "nat dict"
  first_seen :: "nat dict"
  steered :: "string list"
  memo_step :: nat
  hits :: nat
  invalidations :: nat
  background_tasks :: int
  untracked_writer :: bool

definition new_memo :: action_memo where
  "new_memo = \<lparr>entries = [], counts = [], first_seen = [], steered = [], memo_step = 0, hits = 0, invalidations = 0,
     background_tasks = 0, untracked_writer = False\<rparr>"

definition filesystem_is_volatile :: "action_memo \<Rightarrow> bool" where
  "filesystem_is_volatile mm \<longleftrightarrow> background_tasks mm \<noteq> 0 \<or> untracked_writer mm"

definition count_for :: "string \<Rightarrow> action_memo \<Rightarrow> nat" where
  "count_for sig mm = (case dict_get (counts mm) sig of None \<Rightarrow> 0 | Some n \<Rightarrow> n)"

definition observe :: "string \<Rightarrow> action_memo \<Rightarrow> action_memo" where
  "observe sig mm =
     (let n = Suc (memo_step mm) in
      mm\<lparr>memo_step := n, counts := dict_set sig (Suc (count_for sig mm)) (counts mm),
         first_seen := (if dict_get (first_seen mm) sig = None then dict_set sig n (first_seen mm) else first_seen mm)\<rparr>)"

definition framed :: "tool_call \<Rightarrow> bool" where
  "framed call \<longleftrightarrow> call_name call = ''buffer_slice''
     \<and> list_ex (\<lambda>k. dict_get (arguments call) k \<noteq> None) [''child_result_reference'', ''start_char'', ''end_char'']"

definition cached_note :: "nat \<Rightarrow> string" where
  "cached_note first = [CHR 0x0A, CHR 0x0A] @ ''[cached] Identical call already made at step '' @ show_nat first
     @ ''; the workspace has not been modified since, so this is the same result. Avoid re-reading unchanged state.''"

definition lookup_result :: "tool_call \<Rightarrow> string \<Rightarrow> action_memo \<Rightarrow> (tool_result \<times> action_memo) option" where
  "lookup_result call sig mm =
     (if call_name call \<notin> set CACHEABLE_TOOLS \<or> framed call
        \<or> filesystem_is_volatile mm \<and> call_name call \<in> set WORKSPACE_READ_TOOLS then None
      else case dict_get (entries mm) sig of
          None \<Rightarrow> None
        | Some e \<Rightarrow> Some (\<lparr>tr_content = me_content e @ cached_note (me_first_step e), tr_is_error = me_is_error e,
            tr_metadata = (case me_capture e of None \<Rightarrow> [] | Some c \<Rightarrow> [(''artifact_capture'', c)]), tr_images = []\<rparr>,
            mm\<lparr>hits := Suc (hits mm)\<rparr>))"

definition invalidate :: "action_memo \<Rightarrow> action_memo" where
  "invalidate mm = (if entries mm \<noteq> [] then mm\<lparr>invalidations := Suc (invalidations mm), entries := []\<rparr> else mm)"

definition note_launch :: "tool_call \<Rightarrow> action_memo \<Rightarrow> action_memo" where
  "note_launch call mm =
     (case dict_get (arguments call) ''command'' of
        Some (P_str command) \<Rightarrow>
          if \<not> untracked_writer mm \<and> call_name call \<notin> set MANAGED_BACKGROUND_TOOLS \<and> is_backgrounding command
          then invalidate (mm\<lparr>untracked_writer := True\<rparr>) else mm
      | _ \<Rightarrow> mm)"

definition note_count :: "pyval dict \<Rightarrow> action_memo \<Rightarrow> action_memo" where
  "note_count md mm =
     (case dict_get md ''background_tasks'' of
        Some (P_int n) \<Rightarrow>
          if max n 0 = background_tasks mm then mm else invalidate (mm\<lparr>background_tasks := max n 0\<rparr>)
      | _ \<Rightarrow> mm)"

definition remember :: "(pyval option \<Rightarrow> pyval option) \<Rightarrow> string \<Rightarrow> tool_result \<Rightarrow> action_memo \<Rightarrow> action_memo" where
  "remember valid sig r mm =
     (if dict_get (entries mm) sig \<noteq> None then mm
      else mm\<lparr>entries := dict_set sig \<lparr>me_content = tr_content r, me_is_error = tr_is_error r, me_first_step = memo_step mm,
                me_capture = valid (dict_get (tr_metadata r) ''artifact_capture'')\<rparr> (entries mm)\<rparr>)"

definition record_result :: "(pyval option \<Rightarrow> pyval option) \<Rightarrow> tool_call \<Rightarrow> string \<Rightarrow> tool_result \<Rightarrow> action_memo \<Rightarrow> action_memo" where
  "record_result valid call sig r mm =
     (let mm1 = note_count (tr_metadata r) (note_launch call mm) in
      if call_name call \<in> set WORKSPACE_READ_TOOLS
      then (if filesystem_is_volatile mm1 then mm1 else remember valid sig r mm1)
      else if call_name call \<in> set BUFFER_READ_TOOLS then (if framed call then mm1 else remember valid sig r mm1)
      else if call_name call \<notin> set NON_MUTATING_TOOLS then invalidate mm1
      else mm1)"

text \<open>\<open>steer_note\<close>: the count and the first step of a call that keeps coming back, once per signature.\<close>

definition steer_note :: "string \<Rightarrow> nat \<Rightarrow> action_memo \<Rightarrow> (nat \<times> nat) option \<times> action_memo" where
  "steer_note sig n mm =
     (if n < REPEAT_STEER_THRESHOLD \<or> sig \<in> set (steered mm) then (None, mm)
      else (Some (n, case dict_get (first_seen mm) sig of None \<Rightarrow> 1 | Some k \<Rightarrow> k), mm\<lparr>steered := sig # steered mm\<rparr>))"

subsection \<open>Executing a call\<close>

text \<open>\<open>ToolRunner.execute\<close>: \<open>None\<close> is the exception for a workspace that is gone.\<close>

record 'w tool_box =
  signature :: "tool_call \<Rightarrow> string"
  known_tool :: "string \<Rightarrow> bool"
  required_arguments :: "string \<Rightarrow> string list"
  accepted_arguments :: "string \<Rightarrow> string list"
  valid_descriptor :: "pyval option \<Rightarrow> pyval option"
  run_tool :: "'w \<Rightarrow> tool_call \<Rightarrow> tool_outcome \<times> 'w"

definition missing_required_arguments :: "('w, 'x) tool_box_scheme \<Rightarrow> tool_call \<Rightarrow> string option" where
  "missing_required_arguments box call =
     (let sent = dict_keys (arguments call);
          missing = filter (\<lambda>n. n \<notin> set sent) (required_arguments box (call_name call));
          accepted = join_with '', '' (accepted_arguments box (call_name call)) in
      if missing = [] then None
      else Some (''Tool '' @ [CHR 0x27] @ call_name call @ [CHR 0x27] @ '' is missing required argument(s): '' @ join_with '', '' missing
        @ ''. Accepted arguments: '' @ (if accepted = [] then ''none'' else accepted) @ ''.''
        @ (if sent = [] then [] else '' Received: '' @ join_with '', '' (sort sent) @ ''.'')))"

definition raised_result :: "string \<Rightarrow> string \<Rightarrow> tool_result" where
  "raised_result tool exn = error_result (''Tool '' @ [CHR 0x27] @ tool @ [CHR 0x27] @ '' failed: '' @ exn)"

text \<open>A call begins with the lookups and finishes with the run of its tool; reads that are gathered begin and
  finish in any order. What happens between the run of a tool and its recording is one step.\<close>

datatype begun = Answered tool_result | Dispatched string

definition begin_call :: "('w, 'x) tool_box_scheme \<Rightarrow> tool_call \<Rightarrow> action_memo \<Rightarrow> begun \<times> action_memo" where
  "begin_call box call mm =
     (if \<not> known_tool box (call_name call) then (Answered (error_result (''Unknown tool: '' @ call_name call)), mm)
      else case missing_required_arguments box call of
          Some msg \<Rightarrow> (Answered (error_result msg), mm)
        | None \<Rightarrow>
           (let sig = signature box call; mm1 = observe sig mm in
            case lookup_result call sig mm1 of
              Some (cached, mm2) \<Rightarrow> (Answered cached, mm2)
            | None \<Rightarrow> (Dispatched sig, mm1)))"

definition finish_call :: "('w, 'x) tool_box_scheme \<Rightarrow> tool_call \<Rightarrow> string \<Rightarrow> 'w \<Rightarrow> action_memo \<Rightarrow> tool_result option \<times> 'w \<times> action_memo" where
  "finish_call box call sig w mm =
     (let (outcome, w1) = run_tool box w call in
      case outcome of
        Returned r \<Rightarrow>
          (Some r, w1, if dict_get (tr_metadata r) ''permission_denied'' = Some (P_bool True) then mm
                       else record_result (valid_descriptor box) call sig r mm)
      | Access_denied msg \<Rightarrow> (Some ((error_result msg)\<lparr>tr_metadata := [(''permission_denied'', P_bool True)]\<rparr>), w1, mm)
      | Tool_raised exn \<Rightarrow> (Some (raised_result (call_name call) exn), w1, mm)
      | Workspace_lost_in_tool \<Rightarrow> (None, w1, mm))"

definition execute_call :: "('w, 'x) tool_box_scheme \<Rightarrow> tool_call \<Rightarrow> 'w \<Rightarrow> action_memo \<Rightarrow> tool_result option \<times> 'w \<times> action_memo" where
  "execute_call box call w mm =
     (case begin_call box call mm of
        (Answered r, mm1) \<Rightarrow> (Some r, w, mm1)
      | (Dispatched sig, mm1) \<Rightarrow> finish_call box call sig w mm1)"

text \<open>The pairs of a world and a memo that calls can reach, however they interleave. While the memo knows of a writer outside the
  tool stream the world may be anything by the next call.\<close>

inductive memo_reach :: "('w, 'x) tool_box_scheme \<Rightarrow> 'w \<Rightarrow> 'w \<Rightarrow> action_memo \<Rightarrow> bool" for box w0 where
  start: "memo_reach box w0 w0 new_memo"
| lookup: "memo_reach box w0 w mm \<Longrightarrow> begin_call box c mm = (b, mm1) \<Longrightarrow> memo_reach box w0 w mm1"
| run: "memo_reach box w0 w mm \<Longrightarrow> finish_call box c (signature box c) w mm = (r, w1, mm1) \<Longrightarrow> memo_reach box w0 w1 mm1"
| drift: "memo_reach box w0 w mm \<Longrightarrow> filesystem_is_volatile mm \<Longrightarrow> memo_reach box w0 w1 mm"

subsection \<open>When the cache is right\<close>

definition same_reads :: "('w, 'x) tool_box_scheme \<Rightarrow> 'w \<Rightarrow> 'w \<Rightarrow> bool" where
  "same_reads box w w' \<longleftrightarrow> (\<forall>c. call_name c \<in> set WORKSPACE_READ_TOOLS \<longrightarrow> fst (run_tool box w c) = fst (run_tool box w' c))"

text \<open>The laws of the tools: the signature gives the name and the arguments of a call, on which alone the
  tool depends; a tool that is not mutating leaves what is read as it is; so does a call that is refused
  or raises.\<close>

definition signature_law :: "('w, 'x) tool_box_scheme \<Rightarrow> bool" where
  "signature_law box \<longleftrightarrow> (\<forall>c c'. signature box c = signature box c' \<longrightarrow>
     call_name c = call_name c' \<and> (\<forall>w. run_tool box w c = run_tool box w c'))"

definition quiet_law :: "('w, 'x) tool_box_scheme \<Rightarrow> bool" where
  "quiet_law box \<longleftrightarrow> (\<forall>w c. call_name c \<in> set NON_MUTATING_TOOLS \<longrightarrow> same_reads box w (snd (run_tool box w c)))"

definition refused :: "tool_outcome \<Rightarrow> bool" where
  "refused out \<longleftrightarrow> (case out of Returned r \<Rightarrow> dict_get (tr_metadata r) ''permission_denied'' = Some (P_bool True) | _ \<Rightarrow> True)"

definition failure_law :: "('w, 'x) tool_box_scheme \<Rightarrow> bool" where
  "failure_law box \<longleftrightarrow> (\<forall>w c. refused (fst (run_tool box w c)) \<longrightarrow> same_reads box w (snd (run_tool box w c)))"

definition current_entry :: "('w, 'x) tool_box_scheme \<Rightarrow> 'w \<Rightarrow> string \<Rightarrow> memo_entry \<Rightarrow> bool" where
  "current_entry box w sig e \<longleftrightarrow> (\<forall>c. signature box c = sig \<and> call_name c \<in> set WORKSPACE_READ_TOOLS \<longrightarrow>
     (\<exists>r. fst (run_tool box w c) = Returned r \<and> tr_content r = me_content e \<and> tr_is_error r = me_is_error e))"

text \<open>The invariant: what is remembered of the workspace is current, and nothing is while a writer runs.\<close>

definition workspace_entry :: "('w, 'x) tool_box_scheme \<Rightarrow> string \<Rightarrow> bool" where
  "workspace_entry box sig \<longleftrightarrow> (\<exists>c. signature box c = sig \<and> call_name c \<in> set WORKSPACE_READ_TOOLS)"

definition memo_inv :: "('w, 'x) tool_box_scheme \<Rightarrow> 'w \<Rightarrow> action_memo \<Rightarrow> bool" where
  "memo_inv box w mm \<longleftrightarrow> (\<forall>sig e. dict_get (entries mm) sig = Some e \<longrightarrow>
     current_entry box w sig e \<and> (filesystem_is_volatile mm \<longrightarrow> \<not> workspace_entry box sig))"

lemma memo_invI:
  "(\<And>sig e. dict_get (entries mm) sig = Some e \<Longrightarrow> current_entry box w sig e) \<Longrightarrow>
   (\<And>sig e. dict_get (entries mm) sig = Some e \<Longrightarrow> filesystem_is_volatile mm \<Longrightarrow> \<not> workspace_entry box sig) \<Longrightarrow> memo_inv box w mm"
  by (auto simp: memo_inv_def)

lemma memo_inv_same: "memo_inv box w mm \<Longrightarrow> same_reads box w w1 \<Longrightarrow> memo_inv box w1 mm"
  by (fastforce simp: memo_inv_def current_entry_def same_reads_def)

lemma current_elsewhere: "\<not> workspace_entry box sig \<Longrightarrow> current_entry box w sig e"
  by (auto simp: workspace_entry_def current_entry_def)

lemma memo_inv_drift: "memo_inv box w mm \<Longrightarrow> filesystem_is_volatile mm \<Longrightarrow> memo_inv box w1 mm"
  by (auto simp: memo_inv_def intro: current_elsewhere)

lemma memo_inv_kept:
  "memo_inv box w mm \<Longrightarrow> entries mm1 = [] \<or> entries mm1 = entries mm \<and> filesystem_is_volatile mm1 = filesystem_is_volatile mm \<Longrightarrow>
   memo_inv box w mm1"
  by (auto simp: memo_inv_def)

lemma invalidate_entries [simp]: "entries (invalidate mm) = []"
  by (simp add: invalidate_def)

lemma invalidate_volatile [simp]: "filesystem_is_volatile (invalidate mm) = filesystem_is_volatile mm"
  by (simp add: invalidate_def filesystem_is_volatile_def)

lemma observe_fields [simp]:
  "entries (observe sig mm) = entries mm" "filesystem_is_volatile (observe sig mm) = filesystem_is_volatile mm"
  by (simp_all add: observe_def filesystem_is_volatile_def Let_def)

lemma memo_inv_observe: "memo_inv box w mm \<Longrightarrow> memo_inv box w (observe sig mm)"
  by (erule memo_inv_kept) simp

lemma memo_inv_launch: "memo_inv box w mm \<Longrightarrow> memo_inv box w (note_launch c mm)"
  by (erule memo_inv_kept) (auto simp: note_launch_def split: option.split pyval.split)

lemma memo_inv_count: "memo_inv box w mm \<Longrightarrow> memo_inv box w (note_count md mm)"
  by (erule memo_inv_kept) (auto simp: note_count_def split: option.split pyval.split)

lemma remember_volatile [simp]: "filesystem_is_volatile (remember valid sig r mm) = filesystem_is_volatile mm"
  by (simp add: remember_def filesystem_is_volatile_def)

lemma memo_inv_remember:
  assumes "memo_inv box w mm" "signature_law box" "fst (run_tool box w c) = Returned r"
    and "call_name c \<in> set BUFFER_READ_TOOLS \<or> \<not> filesystem_is_volatile mm"
  shows "memo_inv box w (remember valid (signature box c) r mm)"
proof (rule memo_invI)
  fix sig e assume e: "dict_get (entries (remember valid (signature box c) r mm)) sig = Some e"
  show "current_entry box w sig e"
  proof (cases "dict_get (entries mm) sig = Some e")
    case True with assms(1) show ?thesis by (simp add: memo_inv_def)
  next
    case False
    with e have sig: "sig = signature box c" "me_content e = tr_content r" "me_is_error e = tr_is_error r"
      by (auto simp: remember_def dict_simps split: if_splits)
    show ?thesis unfolding current_entry_def
    proof (intro allI impI)
      fix c' assume "signature box c' = sig \<and> call_name c' \<in> set WORKSPACE_READ_TOOLS"
      with assms(2) sig(1) have "run_tool box w c' = run_tool box w c" unfolding signature_law_def by blast
      with assms(3) sig show "\<exists>x. fst (run_tool box w c') = Returned x \<and> tr_content x = me_content e \<and> tr_is_error x = me_is_error e"
        by (intro exI [of _ r]) simp
    qed
  qed
  assume volatile: "filesystem_is_volatile (remember valid (signature box c) r mm)"
  have "call_name c' \<notin> set WORKSPACE_READ_TOOLS" if "signature box c' = signature box c" for c'
  proof -
    from that assms(2) have "call_name c' = call_name c" unfolding signature_law_def by blast
    with assms(4) volatile show ?thesis by (auto simp: BUFFER_READ_TOOLS_def WORKSPACE_READ_TOOLS_def)
  qed
  moreover from volatile have "filesystem_is_volatile mm" by simp
  ultimately show "\<not> workspace_entry box sig"
    using e assms(1) by (auto simp: remember_def dict_simps memo_inv_def workspace_entry_def split: if_splits)
qed

lemma mutating_forgets:
  "call_name c \<notin> set NON_MUTATING_TOOLS \<Longrightarrow> entries (record_result valid c sig r mm) = []"
  by (simp add: record_result_def Let_def NON_MUTATING_TOOLS_def CACHEABLE_TOOLS_def)

lemma memo_inv_record:
  assumes "memo_inv box w mm" "signature_law box" "quiet_law box" "run_tool box w c = (Returned r, w1)"
  shows "memo_inv box w1 (record_result valid c (signature box c) r mm)"
proof (cases "call_name c \<in> set NON_MUTATING_TOOLS")
  case True
  have "memo_inv box w (record_result valid c (signature box c) r mm)"
    using True memo_inv_count [OF memo_inv_launch [OF assms(1)]] assms(2,4)
    by (auto simp: record_result_def Let_def intro!: memo_inv_remember)
  moreover have "same_reads box w w1" using True assms(3,4) unfolding quiet_law_def by (metis snd_conv)
  ultimately show ?thesis by (rule memo_inv_same)
qed (simp add: memo_inv_def mutating_forgets)

lemma lookup_keeps:
  "lookup_result c sig mm = Some (r, mm1) \<Longrightarrow> entries mm1 = entries mm \<and> filesystem_is_volatile mm1 = filesystem_is_volatile mm"
  by (auto simp: lookup_result_def filesystem_is_volatile_def split: if_splits option.splits)

lemma memo_inv_begin:
  assumes "begin_call box c mm = (b, mm1)" "memo_inv box w mm"
  shows "memo_inv box w mm1"
proof -
  let ?mm = "observe (signature box c) mm"
  have "mm1 = mm \<or> mm1 = ?mm \<or> (\<exists>r. lookup_result c (signature box c) ?mm = Some (r, mm1))"
    using assms(1) by (auto simp: begin_call_def Let_def split: if_splits option.splits)
  then show ?thesis
    using assms(2) memo_inv_observe [OF assms(2)] memo_inv_kept [OF memo_inv_observe [OF assms(2)]] lookup_keeps by metis
qed

lemma memo_inv_finish:
  assumes "finish_call box c (signature box c) w mm = (r, w1, mm1)" "memo_inv box w mm" "signature_law box" "quiet_law box" "failure_law box"
  shows "memo_inv box w1 mm1"
proof -
  obtain outcome wa where run: "run_tool box w c = (outcome, wa)" by fastforce
  show ?thesis
  proof (cases "refused outcome")
    case True
    with assms(1) run have "w1 = wa" "mm1 = mm" by (auto simp: finish_call_def refused_def split: tool_outcome.splits if_splits)
    moreover from assms(5) run True have "same_reads box w wa" unfolding failure_law_def by (metis fst_conv snd_conv)
    ultimately show ?thesis using memo_inv_same [OF assms(2)] by simp
  next
    case False
    with assms(1) run obtain x where "outcome = Returned x" "w1 = wa" "mm1 = record_result (valid_descriptor box) c (signature box c) x mm"
      by (cases outcome) (auto simp: finish_call_def refused_def)
    with memo_inv_record [OF assms(2-4)] run show ?thesis by simp
  qed
qed

lemma memo_inv_reach:
  assumes "memo_reach box w0 w mm" "signature_law box" "quiet_law box" "failure_law box"
  shows "memo_inv box w mm"
  using assms(1)
proof (induction rule: memo_reach.induct)
  case start
  then show ?case by (simp add: memo_inv_def new_memo_def)
next
  case (lookup w mm c b mm1)
  from memo_inv_begin [OF lookup(2,3)] show ?case .
next
  case (run w mm c r w1 mm1)
  from memo_inv_finish [OF run(2,3) assms(2-4)] show ?case .
next
  case (drift w mm w1)
  then show ?case by (simp add: memo_inv_drift)
qed

lemma lookup_serves_entry:
  assumes "lookup_result c sig mm = Some (cached, mm1)"
  obtains e where "dict_get (entries mm) sig = Some e" "tr_content cached = me_content e @ cached_note (me_first_step e)"
    "tr_is_error cached = me_is_error e"
  using assms by (auto simp: lookup_result_def split: if_splits option.splits)

lemma served_read_is_current:
  assumes "memo_inv box w mm" "lookup_result c (signature box c) (observe (signature box c) mm) = Some (cached, mm1)"
    and "call_name c \<in> set WORKSPACE_READ_TOOLS"
  shows "\<exists>r n. fst (run_tool box w c) = Returned r \<and> tr_content cached = tr_content r @ cached_note n \<and> tr_is_error cached = tr_is_error r"
proof -
  from assms(2) obtain e where e: "dict_get (entries mm) (signature box c) = Some e"
    "tr_content cached = me_content e @ cached_note (me_first_step e)" "tr_is_error cached = me_is_error e"
    by (rule lookup_serves_entry) simp
  with assms(1,3) obtain r where "fst (run_tool box w c) = Returned r" "tr_content r = me_content e" "tr_is_error r = me_is_error e"
    unfolding memo_inv_def current_entry_def by blast
  with e show ?thesis by auto
qed

subsection \<open>A concrete box\<close>

text \<open>One file; \<open>read_file\<close> reads it, \<open>bash\<close> changes it, \<open>edit\<close> raises after its own change if \<open>bad\<close>.\<close>

definition demo_box :: "bool \<Rightarrow> string tool_box" where
  "demo_box bad = \<lparr>signature = call_name, known_tool = (\<lambda>_. True), required_arguments = (\<lambda>_. []), accepted_arguments = (\<lambda>_. []), valid_descriptor = (\<lambda>x. x),
     run_tool = (\<lambda>w c. if call_name c \<in> set NON_MUTATING_TOOLS
       then (Returned \<lparr>tr_content = w, tr_is_error = False, tr_metadata = [], tr_images = []\<rparr>, w)
       else if call_name c = ''edit'' then (Tool_raised ''OSError'', if bad then ''new'' else w)
       else (Returned \<lparr>tr_content = [], tr_is_error = False, tr_metadata = [], tr_images = []\<rparr>, ''new''))\<rparr>"

definition memo_call :: "string \<Rightarrow> tool_call" where
  "memo_call name = \<lparr>call_id = ''c'', call_name = name, arguments = []\<rparr>"

definition demo_memo :: action_memo where
  "demo_memo = snd (snd (execute_call (demo_box False) (memo_call ''read_file'') ''old'' new_memo))"

lemma demo_box_laws: "signature_law (demo_box bad) \<and> quiet_law (demo_box bad) \<and> failure_law (demo_box False)"
  by (auto simp: signature_law_def quiet_law_def failure_law_def demo_box_def refused_def same_reads_def)

lemma demo_memo_reach: "memo_reach (demo_box False) ''old'' ''old'' demo_memo"
proof -
  let ?read = "memo_call ''read_file''"
  let ?r = "\<lparr>tr_content = ''old'', tr_is_error = False, tr_metadata = [], tr_images = []\<rparr>"
  have "begin_call (demo_box False) ?read new_memo = (Dispatched ''read_file'', observe ''read_file'' new_memo)" by code_simp
  from memo_reach.lookup [OF memo_reach.start this] have reach: "memo_reach (demo_box False) ''old'' ''old'' (observe ''read_file'' new_memo)" .
  have sig: "signature (demo_box False) ?read = ''read_file''" by code_simp
  have "finish_call (demo_box False) ?read ''read_file'' ''old'' (observe ''read_file'' new_memo) = (Some ?r, ''old'', demo_memo)"
    unfolding demo_memo_def by code_simp
  from memo_reach.run [OF reach, of ?read] this show ?thesis unfolding sig by blast
qed

subsection \<open>Properties\<close>



text \<open>A call whose tool raises is not recorded: nothing remembered is dropped, whatever the call changed.\<close>

lemma raised_call_keeps_memo:
  "fst (run_tool box w c) = Tool_raised exn \<Longrightarrow> snd (snd (finish_call box c sig w mm)) = mm"
  by (simp add: finish_call_def case_prod_beta)

lemma raised_mutation_serves_stale_read:
  "(case execute_call (demo_box True) (memo_call ''edit'') ''old'' demo_memo of (_, w, mm) \<Rightarrow>
     map_option tr_content (fst (execute_call (demo_box True) (memo_call ''read_file'') w mm)) = Some (''old'' @ cached_note 1)
     \<and> fst (run_tool (demo_box True) w (memo_call ''read_file'')) = Returned \<lparr>tr_content = ''new'', tr_is_error = False, tr_metadata = [], tr_images = []\<rparr>)"
  by code_simp

text \<open>Reads of the buffer are remembered although a call that is not mutating may store a new buffer: here the
  world is the number of buffers, a fetch adds one, and the list served is the one of before the fetch.\<close>

definition buffer_box :: "nat tool_box" where
  "buffer_box = \<lparr>signature = call_name, known_tool = (\<lambda>_. True), required_arguments = (\<lambda>_. []), accepted_arguments = (\<lambda>_. []), valid_descriptor = (\<lambda>x. x),
     run_tool = (\<lambda>w c. if call_name c = ''buffer_list''
       then (Returned \<lparr>tr_content = show_nat w, tr_is_error = False, tr_metadata = [], tr_images = []\<rparr>, w)
       else (Returned \<lparr>tr_content = ''stored'', tr_is_error = False, tr_metadata = [], tr_images = []\<rparr>, Suc w))\<rparr>"

lemma buffer_list_is_served_stale:
  "(let (_, w1, mm1) = execute_call buffer_box (memo_call ''buffer_list'') 1 new_memo;
        (_, w2, mm2) = execute_call buffer_box (memo_call ''web_fetch'') w1 mm1
    in map_option tr_content (fst (execute_call buffer_box (memo_call ''buffer_list'') w2 mm2)) = Some (show_nat 1 @ cached_note 1)
       \<and> fst (run_tool buffer_box w2 (memo_call ''buffer_list'')) = Returned \<lparr>tr_content = show_nat 2, tr_is_error = False, tr_metadata = [], tr_images = []\<rparr>)"
  by code_simp

end
