(* ===== verification/Tool_Runner.thy ===== *)
theory Tool_Runner
  imports Completion Action_Memo
begin

text \<open>
  One tool call of a run, or a batch of reads: the guards of \<open>garuda/plugins/hooks.py\<close> and the
  screening, dispatch and recording of \<open>garuda/core/tool_runner.py\<close>.

  \<open>tool_run\<close> adds the memo and the list of the calls whose tool was actually run to the state of a
  run. The tools, the hooks, the resolution of a lazy tool, and what the retained facts of a result
  make of a hook's changes (\<open>_retain_frame\<close>, \<open>_retain_child_result\<close>, \<open>_retain_artifact_capture\<close>) are
  parameters, indexed by the clock where they may answer differently each time. Gathered reads
  begin and finish in any order a \<open>schedule\<close> gives. Dictionaries compare with their order, so a
  rewrite that only reorders the arguments is authorized again.
\<close>

subsection \<open>Hooks\<close>

text \<open>What awaiting a guard gives: a call, nothing, something that is not a call, or an exception.\<close>

datatype hook_reply = Passes tool_call | Blocks | Malformed | Hook_raised

type_synonym guard_hook = "nat \<Rightarrow> tool_call \<Rightarrow> hook_reply"

datatype on_failure = Block | Allow

definition advisory :: "guard_hook \<Rightarrow> guard_hook" where
  "advisory hook t call = (case hook t call of Hook_raised \<Rightarrow> Passes call | r \<Rightarrow> r)"

definition register_before_tool :: "guard_hook \<Rightarrow> on_failure \<Rightarrow> guard_hook list \<Rightarrow> guard_hook list" where
  "register_before_tool hook mode hooks = hooks @ [if mode = Allow then advisory hook else hook]"

text \<open>A command of the settings as a guard; \<open>exit\<close> is its exit code, if it finished in time.\<close>

definition command_guard :: "string \<Rightarrow> (nat \<Rightarrow> tool_call \<Rightarrow> int option) \<Rightarrow> on_failure \<Rightarrow> guard_hook" where
  "command_guard pat exit mode t call =
     (if \<not> fnmatch (call_name call) pat then Passes call
      else case exit t call of
          Some n \<Rightarrow> if n = 0 then Passes call else if n = 2 then Blocks else if mode = Allow then Passes call else Blocks
        | None \<Rightarrow> if mode = Allow then Passes call else Blocks)"

text \<open>\<open>run_before_tool\<close>: \<open>late\<close> is whether the deadline of the run has passed.\<close>

fun run_before_tool :: "(nat \<Rightarrow> bool) \<Rightarrow> guard_hook list \<Rightarrow> nat \<Rightarrow> tool_call \<Rightarrow> tool_call option \<times> nat" where
  "run_before_tool late [] t call = (Some call, t)"
| "run_before_tool late (hook # hooks) t call =
     (if late t then (None, t)
      else case hook t call of
          Passes updated \<Rightarrow> run_before_tool late hooks (Suc t) updated
        | _ \<Rightarrow> (None, Suc t))"

datatype after_reply = Keeps | Replaces tool_result | After_raised

fun run_after_tool :: "(nat \<Rightarrow> tool_call \<Rightarrow> tool_result \<Rightarrow> after_reply) list \<Rightarrow> nat \<Rightarrow> tool_call \<Rightarrow> tool_result \<Rightarrow> tool_result \<times> nat" where
  "run_after_tool [] t call r = (r, t)"
| "run_after_tool (hook # hooks) t call r =
     (case hook t call r of
        Replaces updated \<Rightarrow> run_after_tool hooks (Suc t) call updated
      | _ \<Rightarrow> run_after_tool hooks (Suc t) call r)"

text \<open>A guarded call is one every hook let through, each after the rewrites of the ones before it.\<close>

inductive guarded :: "guard_hook list \<Rightarrow> tool_call \<Rightarrow> tool_call \<Rightarrow> bool" where
  no_hook: "guarded [] call call"
| hook: "hook t call = Passes updated \<Longrightarrow> guarded hooks updated final \<Longrightarrow> guarded (hook # hooks) call final"

inductive_simps guarded_simps [simp]: "guarded [] call final" "guarded (hook # hooks) call final"

lemma run_before_tool_guarded: "run_before_tool late hooks t call = (Some final, t1) \<Longrightarrow> guarded hooks call final"
  by (induction hooks arbitrary: t call) (auto split: if_splits hook_reply.splits)

subsection \<open>State and environment\<close>

definition PARALLEL_SAFE_TOOLS :: "string list" where
  "PARALLEL_SAFE_TOOLS = [''read_file'', ''grep'', ''glob'', ''ls'', ''read_pdf'', ''read_spreadsheet'', ''image_read'', ''web_fetch'',
     ''web_search'', ''task_output'', ''buffer_grep'', ''buffer_slice'', ''buffer_list'', ''buffer_query'', ''search_tool'']"

record tool_run = gate_run +
  memo :: action_memo
  dispatched :: "tool_call list"

record tool_env = completion_env +
  tool_map :: "nat tool_box"
  lazy_tools :: "nat tool_box"
  is_dispatcher :: "bool \<Rightarrow> string \<Rightarrow> bool"
  resolve :: "nat \<Rightarrow> tool_call \<Rightarrow> string + string \<times> pyval dict"
  before_hooks :: "guard_hook list"
  after_hooks :: "(nat \<Rightarrow> tool_call \<Rightarrow> tool_result \<Rightarrow> after_reply) list"
  past_deadline :: "nat \<Rightarrow> bool"
  shape_error :: "string \<Rightarrow> string"
  retained :: "tool_call \<Rightarrow> tool_result \<Rightarrow> tool_result \<Rightarrow> tool_result"
  contract_effect :: "nat \<Rightarrow> tool_call \<Rightarrow> acceptance_contract option \<Rightarrow> acceptance_contract option"
  schedule :: "nat \<Rightarrow> nat list"

type_synonym ('r, 'a) running = "('r tool_run_scheme, halt, 'a) prog"

subsection \<open>Screening\<close>

definition tool_args_of :: "pyval dict \<Rightarrow> tool_args" where
  "tool_args_of args = \<lparr>text_args = List.map_filter (\<lambda>(k, v). case v of P_str t \<Rightarrow> Some (k, t) | _ \<Rightarrow> None) args,
     marker_polling = (case dict_get args ''marker_polling'' of None \<Rightarrow> True | Some v \<Rightarrow> truthy v)\<rparr>"

definition permit_call :: "'e tool_env_scheme \<Rightarrow> tool_call \<Rightarrow> halt + bool \<times> string option" where
  "permit_call env call =
     (case permissions env of
        None \<Rightarrow> Inr (True, None)
      | Some p \<Rightarrow>
          (case evaluate_tool_call (perm_world env) (show_args env) p (call_name call) (tool_args_of (arguments call)) of
             Inl err \<Rightarrow> Inl (Permission_failed err)
           | Inr (allowed, reason, _) \<Rightarrow> Inr (allowed, reason)))"

text \<open>\<open>_authorize\<close>: the text of the refusal, if the call is refused.\<close>

definition authorize :: "'e tool_env_scheme \<Rightarrow> nat \<Rightarrow> tool_call \<Rightarrow> ('r, string option) running" where
  "authorize env turn call s =
     (case permit_call env call of
        Inl err \<Rightarrow> (Inl err, s)
      | Inr (True, _) \<Rightarrow> (Inr None, s)
      | Inr (False, reason) \<Rightarrow>
          (Inr (Some (case reason of None \<Rightarrow> ''Permission denied'' | Some r \<Rightarrow> if r = [] then ''Permission denied'' else r)),
           log_event (Permission_refused (call_name call) turn) s))"

definition guard_call :: "'e tool_env_scheme \<Rightarrow> tool_call \<Rightarrow> ('r, tool_call option) running" where
  "guard_call env call s =
     (let (r, t) = run_before_tool (past_deadline env) (before_hooks env) (ticks s) call in (Inr r, s\<lparr>ticks := t\<rparr>))"

text \<open>\<open>Go\<close> carries whether the call goes to the tool a dispatcher resolved it to.\<close>

datatype screened = Stopped string tool_call | Go bool tool_call

text \<open>\<open>screen\<close> up to the dispatcher: a rewritten call needs its own decision. \<open>resolved\<close> is the name of the
  resolved tool, if any.\<close>

definition take_rewrite :: "'e tool_env_scheme \<Rightarrow> nat \<Rightarrow> string option \<Rightarrow> tool_call \<Rightarrow> tool_call \<Rightarrow> ('r, screened) running" where
  "take_rewrite env turn resolved call h =
     (if call_name h = call_name call \<and> arguments h = arguments call then ret (Go False h)
      else if \<not> known_tool (tool_map env) (call_name h) \<and> resolved \<noteq> Some (call_name h)
      then ret (Stopped (''Tool call blocked: a hook rewrote it to unknown tool '' @ repr_text (cenv env) (call_name h)) call)
      else bindE (authorize env turn h) (\<lambda>denied. case denied of Some why \<Rightarrow> ret (Stopped why h) | None \<Rightarrow> ret (Go False h)))"

definition screen_head :: "'e tool_env_scheme \<Rightarrow> nat \<Rightarrow> string option \<Rightarrow> tool_call \<Rightarrow> ('r, screened) running" where
  "screen_head env turn resolved call =
     bindE (authorize env turn call) (\<lambda>denied.
       case denied of Some why \<Rightarrow> ret (Stopped why call)
       | None \<Rightarrow> bindE (guard_call env call) (\<lambda>hooked.
           case hooked of None \<Rightarrow> ret (Stopped ''Tool call blocked by hook'' call)
           | Some h \<Rightarrow> take_rewrite env turn resolved call (h\<lparr>call_id := call_id call\<rparr>)))"

definition screen_resolved :: "'e tool_env_scheme \<Rightarrow> nat \<Rightarrow> string \<Rightarrow> tool_call \<Rightarrow> ('r, screened) running" where
  "screen_resolved env turn tool call =
     bindE (screen_head env turn (Some tool) call) (\<lambda>r.
       case r of Stopped why c \<Rightarrow> ret (Stopped why c)
       | Go _ h \<Rightarrow>
          (let own = (call_name h = tool) in
           if is_dispatcher env own (call_name h) then ret (Stopped ''Nested use_tool dispatch is not supported.'' h)
           else ret (Go own h)))"

definition resolve_call :: "'e tool_env_scheme \<Rightarrow> tool_call \<Rightarrow> ('r, string + string \<times> pyval dict) running" where
  "resolve_call env call s = (Inr (resolve env (ticks s) call), s\<lparr>ticks := Suc (ticks s)\<rparr>)"

definition screen :: "'e tool_env_scheme \<Rightarrow> nat \<Rightarrow> tool_call \<Rightarrow> ('r, screened) running" where
  "screen env turn call =
     bindE (screen_head env turn None call) (\<lambda>r.
       case r of Stopped why c \<Rightarrow> ret (Stopped why c)
       | Go _ h \<Rightarrow>
          if \<not> is_dispatcher env False (call_name h) \<or> missing_required_arguments (tool_map env) h \<noteq> None then ret (Go False h)
          else bindE (resolve_call env h) (\<lambda>resolved.
             case resolved of Inl why \<Rightarrow> ret (Stopped why h)
             | Inr (name, args) \<Rightarrow> screen_resolved env turn name \<lparr>call_id = call_id call, call_name = name, arguments = args\<rparr>))"

subsection \<open>Running a screened call\<close>

definition box_for :: "'e tool_env_scheme \<Rightarrow> bool \<Rightarrow> nat tool_box" where
  "box_for env own = (if own then (lazy_tools env)\<lparr>known_tool := \<lambda>_. True\<rparr> else tool_map env)"

definition begin_run :: "'e tool_env_scheme \<Rightarrow> bool \<Rightarrow> tool_call \<Rightarrow> 'r tool_run_scheme \<Rightarrow> begun \<times> 'r tool_run_scheme" where
  "begin_run env own call s = (let (b, mm) = begin_call (box_for env own) call (memo s) in (b, s\<lparr>memo := mm\<rparr>))"

definition finish_run :: "'e tool_env_scheme \<Rightarrow> bool \<Rightarrow> tool_call \<Rightarrow> string \<Rightarrow> 'r tool_run_scheme \<Rightarrow> tool_result option \<times> 'r tool_run_scheme" where
  "finish_run env own call sig s =
     (let (r, t, mm) = finish_call (box_for env own) call sig (ticks s) (memo s) in
      (r, s\<lparr>ticks := t, memo := mm, dispatched := dispatched s @ [call], contract := contract_effect env (ticks s) call (contract s)\<rparr>))"

definition run_call :: "'e tool_env_scheme \<Rightarrow> bool \<Rightarrow> tool_call \<Rightarrow> 'r tool_run_scheme \<Rightarrow> tool_result option \<times> 'r tool_run_scheme" where
  "run_call env own call s =
     (case begin_run env own call s of
        (Answered r, s1) \<Rightarrow> (Some r, s1)
      | (Dispatched sig, s1) \<Rightarrow> finish_run env own call sig s1)"

definition deliver :: "'e tool_env_scheme \<Rightarrow> tool_call \<Rightarrow> tool_result \<Rightarrow> 'r tool_run_scheme \<Rightarrow> tool_result \<times> 'r tool_run_scheme" where
  "deliver env call r s =
     (let (hooked, t) = run_after_tool (after_hooks env) (ticks s) call r in (retained env call r hooked, s\<lparr>ticks := t\<rparr>))"

definition record_tool_result :: "'e tool_env_scheme \<Rightarrow> nat \<Rightarrow> tool_call \<Rightarrow> tool_result \<Rightarrow> 'r tool_run_scheme \<Rightarrow> 'r tool_run_scheme" where
  "record_tool_result env turn call r s =
     tool_reply env (tr_content r) call (log_event (Tool_returned (call_name call) (tr_is_error r) turn) s)"

definition deliver_result :: "'e tool_env_scheme \<Rightarrow> nat \<Rightarrow> tool_call \<Rightarrow> tool_result \<Rightarrow> ('r, tool_result) running" where
  "deliver_result env turn call r s =
     (let (d, s1) = deliver env call r s in (Inr d, record_tool_result env turn call d s1))"

definition run_one :: "'e tool_env_scheme \<Rightarrow> nat \<Rightarrow> bool \<Rightarrow> tool_call \<Rightarrow> ('r, tool_result) running" where
  "run_one env turn own call s =
     (case run_call env own call (log_event (Tool_called (call_name call) turn) s) of
        (None, s1) \<Rightarrow> (Inl Environment_unavailable, s1)
      | (Some r, s1) \<Rightarrow> deliver_result env turn call r s1)"

subsection \<open>A batch of reads\<close>

fun screen_all :: "'e tool_env_scheme \<Rightarrow> nat \<Rightarrow> tool_call list \<Rightarrow> ('r, screened list) running" where
  "screen_all env turn [] = ret []"
| "screen_all env turn (call # calls) =
     bindE (screen env turn call) (\<lambda>r. bindE (screen_all env turn calls) (\<lambda>rs. ret (r # rs)))"

definition refuse :: "'e tool_env_scheme \<Rightarrow> string \<Rightarrow> tool_call \<Rightarrow> ('r, unit) running" where
  "refuse env why call = modify (tool_reply env (shape_error env why) call)"

fun run_plan :: "'e tool_env_scheme \<Rightarrow> nat \<Rightarrow> screened list \<Rightarrow> ('r, (tool_call \<times> tool_result) list) running" where
  "run_plan env turn [] = ret []"
| "run_plan env turn (Stopped why call # plan) = bindE (refuse env why call) (\<lambda>_. run_plan env turn plan)"
| "run_plan env turn (Go own call # plan) =
     bindE (run_one env turn own call) (\<lambda>r. bindE (run_plan env turn plan) (\<lambda>rs. ret ((call, r) # rs)))"

datatype read_state = Waiting | Reading string | Done "tool_result option"

definition read_step :: "'e tool_env_scheme \<Rightarrow> bool \<times> tool_call \<Rightarrow> read_state \<Rightarrow> 'r tool_run_scheme \<Rightarrow> read_state \<times> 'r tool_run_scheme" where
  "read_step env oc st s =
     (case st of
        Waiting \<Rightarrow> (case begin_run env (fst oc) (snd oc) s of (Answered r, s1) \<Rightarrow> (Done (Some r), s1) | (Dispatched sig, s1) \<Rightarrow> (Reading sig, s1))
      | Reading sig \<Rightarrow> (case finish_run env (fst oc) (snd oc) sig s of (r, s1) \<Rightarrow> (Done r, s1))
      | Done r \<Rightarrow> (Done r, s))"

definition gather_step :: "'e tool_env_scheme \<Rightarrow> (bool \<times> tool_call) list \<Rightarrow> nat \<Rightarrow> read_state list \<times> 'r tool_run_scheme
    \<Rightarrow> read_state list \<times> 'r tool_run_scheme" where
  "gather_step env reads i = (\<lambda>(sts, s).
     if i < length reads \<and> i < length sts
     then (case read_step env (reads ! i) (sts ! i) s of (st, s1) \<Rightarrow> (sts[i := st], s1)) else (sts, s))"

definition complete_read :: "'e tool_env_scheme \<Rightarrow> bool \<times> tool_call \<Rightarrow> read_state \<Rightarrow> 'r tool_run_scheme \<Rightarrow> tool_result option \<times> 'r tool_run_scheme" where
  "complete_read env oc st s =
     (case st of
        Waiting \<Rightarrow> run_call env (fst oc) (snd oc) s
      | Reading sig \<Rightarrow> finish_run env (fst oc) (snd oc) sig s
      | Done r \<Rightarrow> (r, s))"

fun complete_reads :: "'e tool_env_scheme \<Rightarrow> (bool \<times> tool_call) list \<Rightarrow> read_state list \<Rightarrow> 'r tool_run_scheme
    \<Rightarrow> tool_result option list \<times> 'r tool_run_scheme" where
  "complete_reads env (oc # reads) (st # sts) s =
     (let (r, s1) = complete_read env oc st s; (rs, s2) = complete_reads env reads sts s1 in (r # rs, s2))"
| "complete_reads env _ _ s = ([], s)"

text \<open>\<open>asyncio.gather\<close>: the schedule steps the reads, and what it leaves open is completed in order.\<close>

definition gather :: "'e tool_env_scheme \<Rightarrow> (bool \<times> tool_call) list \<Rightarrow> 'r tool_run_scheme \<Rightarrow> tool_result option list \<times> 'r tool_run_scheme" where
  "gather env reads s =
     (let (sts, s1) = fold (gather_step env reads) (schedule env (ticks s)) (replicate (length reads) Waiting, s) in
      complete_reads env reads sts s1)"

definition reads_of :: "screened list \<Rightarrow> (bool \<times> tool_call) list" where
  "reads_of plan = List.map_filter (\<lambda>p. case p of Go own call \<Rightarrow> Some (own, call) | _ \<Rightarrow> None) plan"

definition delivery_interrupted :: tool_result where
  "delivery_interrupted = error_result ''Tool result delivery interrupted.''"

fun retain_undelivered :: "'e tool_env_scheme \<Rightarrow> nat \<Rightarrow> screened list \<Rightarrow> 'r tool_run_scheme \<Rightarrow> 'r tool_run_scheme" where
  "retain_undelivered env turn [] s = s"
| "retain_undelivered env turn (Stopped why call # plan) s =
     retain_undelivered env turn plan (tool_reply env (shape_error env why) call s)"
| "retain_undelivered env turn (Go own call # plan) s =
     retain_undelivered env turn plan (record_tool_result env turn call delivery_interrupted s)"

fun deliver_plan :: "'e tool_env_scheme \<Rightarrow> nat \<Rightarrow> screened list \<Rightarrow> tool_result option list \<Rightarrow> ('r, (tool_call \<times> tool_result) list) running" where
  "deliver_plan env turn (Stopped why call # plan) rs = bindE (refuse env why call) (\<lambda>_. deliver_plan env turn plan rs)"
| "deliver_plan env turn (Go own call # plan) (Some r # rs) =
     bindE (deliver_result env turn call r) (\<lambda>d. bindE (deliver_plan env turn plan rs) (\<lambda>ds. ret ((call, d) # ds)))"
| "deliver_plan env turn _ _ = ret []"

definition gather_plan :: "'e tool_env_scheme \<Rightarrow> nat \<Rightarrow> screened list \<Rightarrow> ('r, (tool_call \<times> tool_result) list) running" where
  "gather_plan env turn plan s =
     (let (rs, s1) = gather env (reads_of plan) (fold (\<lambda>oc. log_event (Tool_called (call_name (snd oc)) turn)) (reads_of plan) s) in
      if None \<in> set rs then (Inl Environment_unavailable, retain_undelivered env turn plan s1)
      else deliver_plan env turn plan rs s1)"

definition run_parallel_reads :: "'e tool_env_scheme \<Rightarrow> nat \<Rightarrow> tool_call list \<Rightarrow> ('r, (tool_call \<times> tool_result) list) running" where
  "run_parallel_reads env turn calls =
     bindE (screen_all env turn calls) (\<lambda>plan.
       if \<exists>oc \<in> set (reads_of plan). call_name (snd oc) \<notin> set PARALLEL_SAFE_TOOLS then run_plan env turn plan
       else gather_plan env turn plan)"

subsection \<open>What holds while calls run\<close>

text \<open>A cleared call was allowed by the policy and let through by every guard, as it is.\<close>

definition cleared :: "'e tool_env_scheme \<Rightarrow> tool_call \<Rightarrow> bool" where
  "cleared env call \<longleftrightarrow> (\<exists>reason. permit_call env call = Inr (True, reason))
     \<and> (\<exists>c0 h0. guarded (before_hooks env) c0 h0 \<and> call = h0\<lparr>call_id := call_id call\<rparr>)"

definition talk :: "bool \<Rightarrow> string set \<Rightarrow> conversation \<Rightarrow> bool" where
  "talk u ids cx \<longleftrightarrow> ids_ok cx \<and> scan (messages cx) = (True, ids) \<and> (u \<longrightarrow> ids \<inter> set (answered_ids (messages cx)) = {})"

lemma owes_iff: "owes u x ids s \<longleftrightarrow> talk u ids (conv s) \<and> gate_run.more s = x"
  by (auto simp: owes_def talk_def)

lemma talk_empty: "talk u {} cx \<longleftrightarrow> conversation_ok cx"
  by (auto simp: talk_def conversation_ok_iff answered_def)

text \<open>The invariant: \<open>ids\<close> are still owed, every dispatched call is cleared, the rest of the run is \<open>x\<close>.\<close>

definition tool_ok :: "'e tool_env_scheme \<Rightarrow> bool \<Rightarrow> 'r \<Rightarrow> string set \<Rightarrow> 'r tool_run_scheme \<Rightarrow> bool" where
  "tool_ok env u x ids s \<longleftrightarrow> talk u ids (conv s) \<and> tool_run.more s = x \<and> (\<forall>c \<in> set (dispatched s). cleared env c)"

lemma tool_ok_other [simp]:
  "tool_ok env u x ids (log_event e s) = tool_ok env u x ids s" "tool_ok env u x ids (s\<lparr>ticks := n\<rparr>) = tool_ok env u x ids s"
  "tool_ok env u x ids (s\<lparr>memo := mm\<rparr>) = tool_ok env u x ids s" "tool_ok env u x ids (s\<lparr>contract := cs\<rparr>) = tool_ok env u x ids s"
  by (simp_all add: tool_ok_def log_event_def)

lemma tool_ok_dispatch [simp]:
  "tool_ok env u x ids (s\<lparr>dispatched := ds\<rparr>) \<longleftrightarrow> talk u ids (conv s) \<and> tool_run.more s = x \<and> (\<forall>c \<in> set ds. cleared env c)"
  by (simp add: tool_ok_def)

lemma more_of_gate: "gate_run.more s1 = gate_run.more s \<Longrightarrow> memo s1 = memo s \<and> dispatched s1 = dispatched s \<and> tool_run.more s1 = tool_run.more s"
  by (cases s; cases s1) simp

lemma tool_ok_owes: "tool_ok env u x ids s \<Longrightarrow> owes u (gate_run.more s) ids' s1 \<Longrightarrow> tool_ok env u x ids' s1"
  using more_of_gate [of s1 s] by (simp add: tool_ok_def owes_iff)

lemma tool_ok_start: "tool_ok env u x ids s \<Longrightarrow> owes u (gate_run.more s) ids s"
  by (simp add: tool_ok_def owes_iff)

lemma tool_ok_reply: "tool_ok env u x ids s \<Longrightarrow> tool_ok env u x (ids - {call_id call}) (tool_reply env' body call s)"
  by (rule tool_ok_owes, assumption, rule owes_tool_reply, rule tool_ok_start)

lemma tool_ok_user_note: "tool_ok env u x ids s \<Longrightarrow> tool_ok env u x ids (user_note env' body s)"
  by (rule tool_ok_owes, assumption, rule owes_user_note, rule tool_ok_start)

lemma tool_ok_record: "tool_ok env u x ids s \<Longrightarrow> tool_ok env u x (ids - {call_id call}) (record_tool_result env' turn call r s)"
  by (simp add: record_tool_result_def tool_ok_reply)

text \<open>The terminal strategy, seen from the run.\<close>

lemma tool_ok_terminal:
  assumes "tool_ok env u x ids s"
  shows "case terminal_attempt env' cfg call s of (Inl e, s1) \<Rightarrow> tool_ok env u x ids s1
    | (Inr d, s1) \<Rightarrow> tool_ok env u x (if td_accepted d then ids else ids - {call_id call}) s1"
  using owes_terminal_attempt [OF tool_ok_start [OF assms], where env = env' and cfg = cfg and call = call]
    tool_ok_owes [OF assms]
  by (auto split: prod.splits sum.splits)

subsection \<open>Screening clears a call\<close>

lemma permit_call_cong:
  assumes "call_name h = call_name call" "arguments h = arguments call"
  shows "permit_call env h = permit_call env call"
  unfolding permit_call_def assms ..

lemma permit_call_id [simp]: "permit_call env (h\<lparr>call_id := i\<rparr>) = permit_call env h"
  by (rule permit_call_cong) simp_all

lemma hoare_carry: "(\<phi> \<Longrightarrow> hoare P m Q E) \<Longrightarrow> hoare (\<lambda>s. P s \<and> \<phi>) m Q E"
  by (auto simp: hoare_def)

lemma authorize_hoare:
  "hoare (tool_ok env u x ids) (authorize env turn call)
     (\<lambda>d s. tool_ok env u x ids s \<and> (d = None \<longrightarrow> (\<exists>reason. permit_call env call = Inr (True, reason)))) (\<lambda>_. tool_ok env u x ids)"
  by (auto simp: hoare_def authorize_def split: sum.split bool.split)

lemma guard_hoare:
  "hoare (tool_ok env u x ids) (guard_call env call)
     (\<lambda>h s. tool_ok env u x ids s \<and> (\<forall>h0. h = Some h0 \<longrightarrow> guarded (before_hooks env) call h0)) (\<lambda>_. tool_ok env u x ids)"
  by (auto simp: hoare_def guard_call_def dest: run_before_tool_guarded split: prod.split)

definition screened_ok :: "'e tool_env_scheme \<Rightarrow> string \<Rightarrow> screened \<Rightarrow> bool" where
  "screened_ok env i r = (case r of Stopped why c \<Rightarrow> call_id c = i | Go own c \<Rightarrow> call_id c = i \<and> cleared env c)"

lemma cleared_rewrite:
  "guarded (before_hooks env) call h0 \<Longrightarrow> permit_call env (h0\<lparr>call_id := i\<rparr>) = Inr (True, reason) \<Longrightarrow> cleared env (h0\<lparr>call_id := i\<rparr>)"
  unfolding cleared_def by (intro conjI exI [of _ reason] exI [of _ call] exI [of _ h0]) simp_all

lemma take_rewrite_hoare:
  assumes g: "guarded (before_hooks env) call h0" and p: "\<exists>reason. permit_call env call = Inr (True, reason)"
  shows "hoare (tool_ok env u x ids) (take_rewrite env turn resolved call (h0\<lparr>call_id := call_id call\<rparr>))
     (\<lambda>r s. tool_ok env u x ids s \<and> screened_ok env (call_id call) r) (\<lambda>_. tool_ok env u x ids)"
  unfolding take_rewrite_def
proof (intro hoare_if hoare_bind [OF authorize_hoare] hoare_carry hoare_option hoare_ret)
  assume "call_name (h0\<lparr>call_id := call_id call\<rparr>) = call_name call \<and> arguments (h0\<lparr>call_id := call_id call\<rparr>) = arguments call"
  with p permit_call_cong obtain reason where "permit_call env (h0\<lparr>call_id := call_id call\<rparr>) = Inr (True, reason)" by metis
  then show "tool_ok env u x ids s \<and> screened_ok env (call_id call) (Go False (h0\<lparr>call_id := call_id call\<rparr>))" if "tool_ok env u x ids s" for s
    using that cleared_rewrite [OF g] by (simp add: screened_ok_def)
qed (use cleared_rewrite [OF g] in \<open>auto simp: screened_ok_def\<close>)

lemma screen_head_hoare:
  "hoare (tool_ok env u x ids) (screen_head env turn resolved call)
     (\<lambda>r s. tool_ok env u x ids s \<and> screened_ok env (call_id call) r) (\<lambda>_. tool_ok env u x ids)"
  unfolding screen_head_def
  by (rule hoare_bind [OF authorize_hoare], rule hoare_carry, rule hoare_option, rule hoare_bind [OF guard_hoare], rule hoare_carry,
      rule hoare_option, rule hoare_ret, simp add: screened_ok_def)
     (rule take_rewrite_hoare hoare_ret; simp add: screened_ok_def)+

lemma screen_resolved_hoare:
  "hoare (tool_ok env u x ids) (screen_resolved env turn tool call)
     (\<lambda>r s. tool_ok env u x ids s \<and> screened_ok env (call_id call) r) (\<lambda>_. tool_ok env u x ids)"
  unfolding screen_resolved_def
  by (rule hoare_bind [OF screen_head_hoare], rule hoare_carry) (auto simp: screened_ok_def hoare_def Let_def split: screened.splits)

lemma screen_hoare:
  "hoare (tool_ok env u x ids) (screen env turn call)
     (\<lambda>r s. tool_ok env u x ids s \<and> screened_ok env (call_id call) r) (\<lambda>_. tool_ok env u x ids)"
proof -
  have resolved: "hoare (tool_ok env u x ids) (resolve_call env h) (\<lambda>_. tool_ok env u x ids) (\<lambda>_. tool_ok env u x ids)" for h
    by (simp add: hoare_def resolve_call_def)
  have nested: "hoare (tool_ok env u x ids) (screen_resolved env turn name \<lparr>call_id = call_id call, call_name = name, arguments = args\<rparr>)
      (\<lambda>r s. tool_ok env u x ids s \<and> screened_ok env (call_id call) r) (\<lambda>_. tool_ok env u x ids)" for name args
    using screen_resolved_hoare [of env u x ids turn name "\<lparr>call_id = call_id call, call_name = name, arguments = args\<rparr>"] by simp
  show ?thesis
    unfolding screen_def
  proof (rule hoare_bind [OF screen_head_hoare], rule hoare_carry)
    fix r assume r: "screened_ok env (call_id call) r"
    show "hoare (tool_ok env u x ids) (case r of Stopped why c \<Rightarrow> ret (Stopped why c) | Go b h \<Rightarrow>
        if \<not> is_dispatcher env False (call_name h) \<or> missing_required_arguments (tool_map env) h \<noteq> None then ret (Go False h)
        else bindE (resolve_call env h) (\<lambda>resolved. case resolved of Inl why \<Rightarrow> ret (Stopped why h)
             | Inr (name, args) \<Rightarrow> screen_resolved env turn name \<lparr>call_id = call_id call, call_name = name, arguments = args\<rparr>))
      (\<lambda>r s. tool_ok env u x ids s \<and> screened_ok env (call_id call) r) (\<lambda>_. tool_ok env u x ids)"
      using r nested
      by (cases r) (auto simp: screened_ok_def intro!: hoare_ret hoare_bind [OF resolved] split: sum.split)
  qed
qed

subsection \<open>Running keeps the invariant\<close>

lemma begin_run_ok: "tool_ok env u x ids s \<Longrightarrow> tool_ok env u x ids (snd (begin_run env own call s))"
  by (simp add: begin_run_def case_prod_beta)

lemma finish_run_ok: "tool_ok env u x ids s \<Longrightarrow> cleared env call \<Longrightarrow> tool_ok env u x ids (snd (finish_run env own call sig s))"
  by (auto simp: finish_run_def case_prod_beta tool_ok_def)

lemma run_call_ok: "tool_ok env u x ids s \<Longrightarrow> cleared env call \<Longrightarrow> tool_ok env u x ids (snd (run_call env own call s))"
  using begin_run_ok [of env u x ids s own call] finish_run_ok
  by (auto simp: run_call_def split: prod.split begun.split)

lemma deliver_ok: "tool_ok env u x ids s \<Longrightarrow> tool_ok env u x ids (snd (deliver env call r s))"
  by (simp add: deliver_def case_prod_beta)

lemma deliver_result_hoare:
  "hoare (tool_ok env u x ids) (deliver_result env turn call r) (\<lambda>_. tool_ok env u x (ids - {call_id call})) E"
  using deliver_ok by (fastforce simp: hoare_def deliver_result_def case_prod_beta intro: tool_ok_record)

lemma run_one_hoare:
  assumes "cleared env call"
  shows "hoare (tool_ok env u x ids) (run_one env turn own call) (\<lambda>_. tool_ok env u x (ids - {call_id call})) (\<lambda>_. tool_ok env u x ids)"
proof -
  have ok: "tool_ok env u x ids (snd (run_call env own call (log_event (Tool_called (call_name call) turn) s)))" if "tool_ok env u x ids s" for s
    by (rule run_call_ok) (use that assms in simp_all)
  show ?thesis
  proof (rule hoareI)
    show "tool_ok env u x (ids - {call_id call}) t" if "tool_ok env u x ids s" "run_one env turn own call s = (Inr r, t)" for s r t
      using that(2) ok [OF that(1)] hoareD [OF deliver_result_hoare] by (fastforce simp: run_one_def split: prod.splits option.splits)
    show "tool_ok env u x ids t" if "tool_ok env u x ids s" "run_one env turn own call s = (Inl e, t)" for s e t
      using that(2) ok [OF that(1)] by (auto simp: run_one_def deliver_result_def split: prod.splits option.splits)
  qed
qed

lemma refuse_hoare: "hoare (tool_ok env u x ids) (refuse env' why call) (\<lambda>_. tool_ok env u x (ids - {call_id call})) E"
  by (auto simp: hoare_def refuse_def modify_def tool_ok_reply)

text \<open>A run that dies leaves some of the owed ids owed.\<close>

definition dies :: "'e tool_env_scheme \<Rightarrow> bool \<Rightarrow> 'r \<Rightarrow> string set \<Rightarrow> halt \<Rightarrow> 'r tool_run_scheme \<Rightarrow> bool" where
  "dies env u x ids e s \<longleftrightarrow> (\<exists>i \<subseteq> ids. tool_ok env u x i s)"

lemma diesI: "tool_ok env u x i s \<Longrightarrow> i \<subseteq> ids \<Longrightarrow> dies env u x ids e s"
  by (auto simp: dies_def)

lemma dies_mono: "dies env u x i e s \<Longrightarrow> i \<subseteq> ids \<Longrightarrow> dies env u x ids e s"
  by (auto simp: dies_def)

definition plan_ids :: "screened list \<Rightarrow> string set" where
  "plan_ids plan = (\<lambda>p. case p of Stopped _ c \<Rightarrow> call_id c | Go _ c \<Rightarrow> call_id c) ` set plan"

definition plan_ok :: "'e tool_env_scheme \<Rightarrow> screened list \<Rightarrow> bool" where
  "plan_ok env plan \<longleftrightarrow> (\<forall>own c. Go own c \<in> set plan \<longrightarrow> cleared env c)"

lemma plan_simps [simp]:
  "plan_ids [] = {}" "plan_ids (Stopped why c # plan) = insert (call_id c) (plan_ids plan)"
  "plan_ids (Go own c # plan) = insert (call_id c) (plan_ids plan)"
  "plan_ok env []" "plan_ok env (Stopped why c # plan) = plan_ok env plan" "plan_ok env (Go own c # plan) \<longleftrightarrow> cleared env c \<and> plan_ok env plan"
  by (auto simp: plan_ids_def plan_ok_def)

lemma plan_Cons: "screened_ok env i p \<Longrightarrow> plan_ids (p # plan) = insert i (plan_ids plan) \<and> (plan_ok env (p # plan) = plan_ok env plan)"
  by (cases p) (auto simp: screened_ok_def)

lemma screen_all_hoare:
  "hoare (tool_ok env u x ids) (screen_all env turn calls)
     (\<lambda>plan s. tool_ok env u x ids s \<and> plan_ids plan = call_id ` set calls \<and> plan_ok env plan) (\<lambda>_. tool_ok env u x ids)"
proof (induction calls)
  case (Cons call calls)
  show ?case
    unfolding screen_all.simps
  proof (rule hoare_bind [OF screen_hoare], rule hoare_carry, rule hoare_bind [OF Cons.IH], rule hoare_ret, elim conjE, intro conjI)
    fix r plan s assume r: "screened_ok env (call_id call) r" and plan: "plan_ids plan = call_id ` set calls" "plan_ok env plan"
    from plan_Cons [OF r, of plan] plan
    show "plan_ids (r # plan) = call_id ` set (call # calls)" "plan_ok env (r # plan)" by simp_all
  qed
qed (simp add: hoare_def)

lemma run_plan_hoare:
  "plan_ok env plan \<Longrightarrow> hoare (tool_ok env u x ids) (run_plan env turn plan)
     (\<lambda>_. tool_ok env u x (ids - plan_ids plan)) (dies env u x ids)"
proof (induction plan arbitrary: ids)
  case (Cons p plan)
  have tail: "hoare (tool_ok env u x (ids - {i})) (run_plan env turn plan) (\<lambda>_. tool_ok env u x (ids - insert i (plan_ids plan)))
      (dies env u x ids)" if "plan_ok env plan" for i
    by (rule hoare_conseq [OF Cons.IH [OF that, of "ids - {i}"]]) (auto simp: Diff_insert2 [symmetric] intro: dies_mono)
  show ?case
  proof (cases p)
    case (Stopped why c)
    with Cons.prems tail show ?thesis by (auto intro!: hoare_bind [OF refuse_hoare])
  next
    case (Go own c)
    with Cons.prems have c: "cleared env c" and ok: "plan_ok env plan" by simp_all
    have one: "hoare (tool_ok env u x ids) (run_one env turn own c) (\<lambda>_. tool_ok env u x (ids - {call_id c})) (dies env u x ids)"
      by (rule hoare_conseq [OF run_one_hoare [OF c]]) (auto intro: diesI)
    show ?thesis
      unfolding Go run_plan.simps plan_simps
      by (rule hoare_bind [OF one], rule hoare_bind [OF tail [OF ok]]) (simp add: hoare_def)
  qed
qed (simp add: hoare_def)

text \<open>The gathered reads change the clock, the memo, the contract and the trace of dispatched calls.\<close>

lemma read_step_ok:
  assumes "tool_ok env u x ids s" "cleared env (snd oc)"
  shows "tool_ok env u x ids (snd (read_step env oc st s))"
  using begin_run_ok [OF assms(1), of "fst oc" "snd oc"] finish_run_ok [OF assms, of "fst oc"] assms(1)
  by (cases st) (simp_all add: read_step_def case_prod_beta split: begun.split)

lemma complete_read_ok:
  assumes "tool_ok env u x ids s" "cleared env (snd oc)"
  shows "tool_ok env u x ids (snd (complete_read env oc st s))"
  using run_call_ok [OF assms, of "fst oc"] finish_run_ok [OF assms, of "fst oc"] assms(1)
  by (cases st) (simp_all add: complete_read_def)

lemma gather_step_ok:
  "tool_ok env u x ids (snd p) \<Longrightarrow> \<forall>oc \<in> set reads. cleared env (snd oc) \<Longrightarrow> tool_ok env u x ids (snd (gather_step env reads i p))"
  using read_step_ok [of env u x ids "snd p" "reads ! i" "fst p ! i"]
  by (auto simp: gather_step_def case_prod_beta)

lemma complete_reads_ok:
  "tool_ok env u x ids s \<Longrightarrow> \<forall>oc \<in> set reads. cleared env (snd oc) \<Longrightarrow> tool_ok env u x ids (snd (complete_reads env reads sts s))"
proof (induction reads arbitrary: sts s)
  case (Cons oc reads)
  then show ?case by (cases sts) (simp_all add: complete_read_ok case_prod_beta Let_def)
qed simp

lemma complete_reads_length: "length sts = length reads \<Longrightarrow> length (fst (complete_reads env reads sts s)) = length reads"
proof (induction reads arbitrary: sts s)
  case (Cons oc reads)
  then show ?case by (cases sts) (simp_all add: case_prod_beta Let_def)
qed simp

lemma fold_gather_ok:
  "tool_ok env u x ids (snd p) \<Longrightarrow> \<forall>oc \<in> set reads. cleared env (snd oc) \<Longrightarrow>
   tool_ok env u x ids (snd (fold (gather_step env reads) order p)) \<and> length (fst (fold (gather_step env reads) order p)) = length (fst p)"
proof (induction order arbitrary: p)
  case (Cons i order)
  have "length (fst (gather_step env reads i p)) = length (fst p)" by (simp add: gather_step_def case_prod_beta)
  with Cons.IH [OF gather_step_ok [OF Cons.prems] Cons.prems(2)] show ?case by simp
qed simp

lemma gather_ok:
  assumes "tool_ok env u x ids s" "\<forall>oc \<in> set reads. cleared env (snd oc)"
  shows "tool_ok env u x ids (snd (gather env reads s)) \<and> length (fst (gather env reads s)) = length reads"
  using fold_gather_ok [of env u x ids "(replicate (length reads) Waiting, s)" reads "schedule env (ticks s)"] assms
  by (simp add: gather_def case_prod_beta complete_reads_ok complete_reads_length)

lemma retain_undelivered_ok:
  "tool_ok env u x ids s \<Longrightarrow> tool_ok env u x (ids - plan_ids plan) (retain_undelivered env turn plan s)"
proof (induction plan arbitrary: ids s)
  case (Cons p plan)
  show ?case
    using Cons.IH [OF tool_ok_reply [OF Cons.prems]] Cons.IH [OF tool_ok_record [OF Cons.prems]]
    by (cases p) (simp_all add: Diff_insert2 [symmetric])
qed simp

lemma reads_of_simps [simp]:
  "reads_of [] = []" "reads_of (Stopped why c # plan) = reads_of plan" "reads_of (Go own c # plan) = (own, c) # reads_of plan"
  by (simp_all add: reads_of_def map_filter_def)

lemma reads_of_cleared: "plan_ok env plan \<Longrightarrow> \<forall>oc \<in> set (reads_of plan). cleared env (snd oc)"
proof (induction plan)
  case (Cons p plan)
  then show ?case by (cases p) simp_all
qed simp

lemma deliver_plan_hoare:
  "length rs = length (reads_of plan) \<Longrightarrow> None \<notin> set rs \<Longrightarrow>
   hoare (tool_ok env u x ids) (deliver_plan env turn plan rs) (\<lambda>_. tool_ok env u x (ids - plan_ids plan)) E"
proof (induction plan arbitrary: ids rs)
  case (Cons p plan)
  show ?case
  proof (cases p)
    case (Stopped why c)
    with Cons.prems Cons.IH [of rs "ids - {call_id c}"] show ?thesis
      by (auto simp: Diff_insert2 [symmetric] intro!: hoare_bind [OF refuse_hoare])
  next
    case (Go own c)
    with Cons.prems obtain r rs' where rs: "rs = Some r # rs'" by (cases rs; cases "hd rs") auto
    have "hoare (tool_ok env u x (ids - {call_id c})) (deliver_plan env turn plan rs') (\<lambda>_. tool_ok env u x (ids - insert (call_id c) (plan_ids plan))) E"
      using Cons.IH [of rs' "ids - {call_id c}"] Cons.prems Go rs by (simp add: Diff_insert2 [symmetric])
    then show ?thesis
      unfolding Go rs deliver_plan.simps plan_simps
      by (rule hoare_bind [OF deliver_result_hoare hoare_bind]) (simp add: hoare_def)
  qed
qed (cases rs; simp add: hoare_def)

lemma fold_log_ok: "tool_ok env u x ids (fold (\<lambda>oc. log_event (f oc)) ocs s) = tool_ok env u x ids s"
  by (induction ocs arbitrary: s) simp_all

lemma gather_plan_hoare:
  assumes ok: "plan_ok env plan"
  shows "hoare (tool_ok env u x ids) (gather_plan env turn plan) (\<lambda>_. tool_ok env u x (ids - plan_ids plan)) (dies env u x ids)"
  unfolding hoare_def
proof (intro allI impI)
  fix s assume s: "tool_ok env u x ids s"
  let ?s = "fold (\<lambda>oc. log_event (Tool_called (call_name (snd oc)) turn)) (reads_of plan) s"
  obtain rs s1 where run: "gather env (reads_of plan) ?s = (rs, s1)" by fastforce
  with gather_ok [of env u x ids ?s "reads_of plan"] reads_of_cleared [OF ok] s
  have g: "tool_ok env u x ids s1" "length rs = length (reads_of plan)" by (simp_all add: fold_log_ok)
  show "case gather_plan env turn plan s of (Inl e, t) \<Rightarrow> dies env u x ids e t | (Inr r, t) \<Rightarrow> tool_ok env u x (ids - plan_ids plan) t"
  proof (cases "None \<in> set rs")
    case True
    with run retain_undelivered_ok [OF g(1), of plan turn] show ?thesis
      by (simp add: gather_plan_def diesI [of _ _ _ "ids - plan_ids plan"])
  next
    case False
    have "hoare (tool_ok env u x ids) (deliver_plan env turn plan rs) (\<lambda>_. tool_ok env u x (ids - plan_ids plan)) (dies env u x ids)"
      by (rule deliver_plan_hoare) (use g run False in simp_all)
    with g(1) run False show ?thesis by (simp add: hoare_def gather_plan_def)
  qed
qed

lemma run_parallel_reads_hoare:
  "hoare (tool_ok env u x ids) (run_parallel_reads env turn calls)
     (\<lambda>_. tool_ok env u x (ids - call_id ` set calls)) (dies env u x ids)"
  unfolding run_parallel_reads_def
proof (rule hoare_bind [OF hoare_conseq [OF screen_all_hoare]], assumption, assumption)
  show "tool_ok env u x ids s \<Longrightarrow> dies env u x ids e s" for e s by (rule diesI) auto
  fix plan
  let ?run = "if \<exists>oc \<in> set (reads_of plan). call_name (snd oc) \<notin> set PARALLEL_SAFE_TOOLS then run_plan env turn plan
    else gather_plan env turn plan"
  show "hoare (\<lambda>s. tool_ok env u x ids s \<and> plan_ids plan = call_id ` set calls \<and> plan_ok env plan) ?run
     (\<lambda>_. tool_ok env u x (ids - call_id ` set calls)) (dies env u x ids)"
  proof (rule hoare_carry, elim conjE)
    assume p: "plan_ids plan = call_id ` set calls" "plan_ok env plan"
    show "hoare (tool_ok env u x ids) ?run (\<lambda>_. tool_ok env u x (ids - call_id ` set calls)) (dies env u x ids)"
      unfolding p(1) [symmetric] by (rule hoare_if) (rule run_plan_hoare [OF p(2)], rule gather_plan_hoare [OF p(2)])
  qed
qed

end
