(* ===== verification/Steering.thy ===== *)
theory Steering
  imports Tool_Runner
begin

text \<open>
  What the harness tells the model between turns (\<open>garuda/core/steering.py\<close>), and the state and the
  environment of a run of the agent loop (\<open>RunState\<close> of \<open>garuda/core/run_state.py\<close>).

  \<open>agent_run\<close> adds the steering counters, the queued notes, the requests sent to the model and the
  checkpoints saved. The wording of a note is the environment's; times are rationals read from a clock
  indexed by the ticks of the run.
\<close>

subsection \<open>State and environment\<close>

datatype harness_note =
    Turns_remain int nat | Five_turns_left | Budget_review rat nat nat | Final_turn | Context_warning | Continue_nudge
  | Repeated nat | Failing nat | Completion_stuck nat | Truncated | Final_submission | Images_returned nat
  | Repetition_steer tool_call nat nat | Terminal_accepted | Ended_by_acceptance | Ended_here | Ended_workspace
  | Aborted nat | Criteria_pinned acceptance_contract | Goal_pinned string | Todos_pinned string

record model_response =
  rp_content :: string
  rp_calls :: "tool_call list"
  rp_prompt_tokens :: "int option"
  rp_truncated :: bool
  rp_thinking :: "pyval option"
  rp_reasoning :: "string option"

datatype model_outcome = Reply model_response | Overflow string | Model_error string

record agent_run = tool_run +
  pending_notes :: "string list"
  last_signature :: "string option"
  repeat_count :: nat
  failure_streak :: nat
  completion_rejections :: nat
  context_warned :: bool
  budget_stage :: nat
  final_turn_forced :: bool
  final_turn_at :: nat
  final_message :: string
  last_assistant_text :: string
  sent :: "message list list"
  saved :: "message list list"

record agent_env = tool_env +
  model :: "nat \<Rightarrow> message list \<Rightarrow> bool \<Rightarrow> model_outcome"
  scrub :: "model_response \<Rightarrow> model_response"
  clock :: "nat \<Rightarrow> rat"
  started_at :: rat
  deadline_at :: "rat option"
  harness_text :: "harness_note \<Rightarrow> string"
  card :: "nat \<Rightarrow> string option"
  goal :: "nat \<Rightarrow> string option"
  todos :: "nat \<Rightarrow> string option"
  checkpointing :: bool
  emit_session_events :: bool

definition harness_message :: "'e agent_env_scheme \<Rightarrow> harness_note \<Rightarrow> 'r agent_run_scheme \<Rightarrow> 'r agent_run_scheme" where
  "harness_message env note = user_note env (harness_text env note)"

definition queue_note :: "string \<Rightarrow> 'r agent_run_scheme \<Rightarrow> 'r agent_run_scheme" where
  "queue_note body s = s\<lparr>pending_notes := pending_notes s @ [body]\<rparr>"

definition flush_pending :: "'e agent_env_scheme \<Rightarrow> 'r agent_run_scheme \<Rightarrow> 'r agent_run_scheme" where
  "flush_pending env s = (fold (user_note env) (pending_notes s) s)\<lparr>pending_notes := []\<rparr>"

subsection \<open>The budget\<close>

definition REPEAT_THRESHOLD :: nat where "REPEAT_THRESHOLD = 3"
definition FAILURE_STREAK_THRESHOLD :: nat where "FAILURE_STREAK_THRESHOLD = 3"
definition CONTEXT_WARNING_FRACTION :: rat where "CONTEXT_WARNING_FRACTION = 8 / 10"
definition BUDGET_REVIEW_STAGES :: "rat list" where "BUDGET_REVIEW_STAGES = [1 / 2, 8 / 10]"

definition turn_budget_notice :: "nat \<Rightarrow> nat \<Rightarrow> harness_note option" where
  "turn_budget_notice turn turns =
     (let left = int turns - int turn in
      if left = max 1 (int turns div 4) then Some (Turns_remain left turns)
      else if left = 5 then Some Five_turns_left else None)"

definition budget_fraction :: "nat \<Rightarrow> nat \<Rightarrow> rat \<Rightarrow> rat option \<Rightarrow> rat \<Rightarrow> rat" where
  "budget_fraction turn turns started deadline now =
     (let by_turns = of_nat turn / of_nat (max 1 turns) in
      case deadline of
        None \<Rightarrow> by_turns
      | Some d \<Rightarrow> if d - started \<le> 0 then 1 else max by_turns ((now - started) / (d - started)))"

fun review_stages :: "'e agent_env_scheme \<Rightarrow> nat \<Rightarrow> nat \<Rightarrow> rat \<Rightarrow> rat list \<Rightarrow> 'r agent_run_scheme \<Rightarrow> 'r agent_run_scheme" where
  "review_stages env turn turns spent [] s = s"
| "review_stages env turn turns spent (stage # stages) s =
     (if spent < stage then s
      else review_stages env turn turns spent stages
             (harness_message env (Budget_review stage turn turns)
               (log_event (Budget ''review'' turn) (s\<lparr>budget_stage := Suc (budget_stage s)\<rparr>))))"

definition warn_context :: "'e agent_env_scheme \<Rightarrow> 'r agent_run_scheme \<Rightarrow> 'r agent_run_scheme" where
  "warn_context env s =
     (if context_warned s then s
      else (let (usage, cx) = usage_fraction (cenv env) (conv s); s1 = s\<lparr>conv := cx\<rparr> in
            if usage < CONTEXT_WARNING_FRACTION then s1
            else harness_message env Context_warning (s1\<lparr>context_warned := True\<rparr>)))"

text \<open>\<open>open_turn\<close>: whether the run stops, because the reserved final turn has been used.\<close>

definition open_turn :: "'e agent_env_scheme \<Rightarrow> agent_config \<Rightarrow> nat \<Rightarrow> 'r agent_run_scheme \<Rightarrow> bool \<times> 'r agent_run_scheme" where
  "open_turn env cfg turn s =
     (let s1 = (case turn_budget_notice turn (max_turns cfg) of None \<Rightarrow> s | Some note \<Rightarrow> harness_message env note s);
          spent = budget_fraction turn (max_turns cfg) (started_at env) (deadline_at env) (clock env (ticks s1));
          s2 = review_stages env turn (max_turns cfg) spent (drop (budget_stage s1) BUDGET_REVIEW_STAGES) s1 in
      if final_turn_forced s2 \<and> turn > final_turn_at s2 then (True, s2)
      else
       (let s3 = (if \<not> final_turn_forced s2 \<and> (turn = max_turns cfg \<or> spent \<ge> 1)
                  then harness_message env Final_turn (log_event (Budget ''final_turn'' turn) (s2\<lparr>final_turn_forced := True, final_turn_at := turn\<rparr>))
                  else s2) in
        (False, warn_context env s3)))"

definition deadline_exceeded :: "'e agent_env_scheme \<Rightarrow> 'r agent_run_scheme \<Rightarrow> bool" where
  "deadline_exceeded env s \<longleftrightarrow> (case deadline_at env of None \<Rightarrow> False | Some d \<Rightarrow> d \<noteq> 0 \<and> clock env (ticks s) \<ge> d)"

subsection \<open>Stuck patterns\<close>

definition batch_signature :: "'e agent_env_scheme \<Rightarrow> tool_call list \<Rightarrow> string" where
  "batch_signature env calls = join_with ''||'' (sort (map (signature (tool_map env)) calls))"

definition note_repetition :: "'e agent_env_scheme \<Rightarrow> string \<Rightarrow> 'r agent_run_scheme \<Rightarrow> 'r agent_run_scheme" where
  "note_repetition env sig s =
     (let n = (if last_signature s = Some sig then Suc (repeat_count s) else 1) in
      if n < REPEAT_THRESHOLD then s\<lparr>last_signature := Some sig, repeat_count := n\<rparr>
      else queue_note (harness_text env (Repeated n)) (s\<lparr>last_signature := None, repeat_count := 0\<rparr>))"

definition record_failure_streak :: "'e agent_env_scheme \<Rightarrow> bool \<Rightarrow> nat \<Rightarrow> 'r agent_run_scheme \<Rightarrow> 'r agent_run_scheme" where
  "record_failure_streak env failed turn s =
     (if \<not> failed then s\<lparr>failure_streak := 0\<rparr>
      else
       (let n = Suc (failure_streak s) in
        if n < FAILURE_STREAK_THRESHOLD then s\<lparr>failure_streak := n\<rparr>
        else log_event (Failure_streak n turn) (queue_note (harness_text env (Failing n)) (s\<lparr>failure_streak := 0\<rparr>))))"

definition note_progress :: "'r agent_run_scheme \<Rightarrow> 'r agent_run_scheme" where
  "note_progress s = s\<lparr>completion_rejections := 0\<rparr>"

definition note_completion_rejection :: "'e agent_env_scheme \<Rightarrow> 'r agent_run_scheme \<Rightarrow> 'r agent_run_scheme" where
  "note_completion_rejection env s =
     (let n = Suc (completion_rejections s) in
      if n < REPEAT_THRESHOLD then s\<lparr>completion_rejections := n\<rparr>
      else queue_note (harness_text env (Completion_stuck n)) (s\<lparr>completion_rejections := 0\<rparr>))"

subsection \<open>What holds between the steps of a run\<close>

text \<open>\<open>run_ok\<close>: the conversation owes \<open>ids\<close>; every dispatched call is cleared; every request and every
  checkpoint is valid; at most \<open>n\<close> requests were sent.\<close>

definition valid_list :: "message list list \<Rightarrow> bool" where
  "valid_list mss \<longleftrightarrow> (\<forall>ms \<in> set mss. valid_request ms)"

definition run_ok :: "'e agent_env_scheme \<Rightarrow> bool \<Rightarrow> nat \<Rightarrow> string set \<Rightarrow> 'r agent_run_scheme \<Rightarrow> bool" where
  "run_ok env u n ids s \<longleftrightarrow> talk u ids (conv s) \<and> (\<forall>c \<in> set (dispatched s). cleared env c)
     \<and> valid_list (sent s) \<and> valid_list (saved s) \<and> length (sent s) \<le> n"

lemma run_ok_mono: "run_ok env u n ids s \<Longrightarrow> n \<le> n' \<Longrightarrow> run_ok env u n' ids s"
  by (auto simp: run_ok_def)

lemma more_of_tool: "tool_run.more s1 = tool_run.more s \<Longrightarrow> sent s1 = sent s \<and> saved s1 = saved s"
  by (cases s; cases s1) simp

lemma run_ok_tool: "run_ok env u n ids s \<Longrightarrow> tool_ok env u (tool_run.more s) ids' s1 \<Longrightarrow> run_ok env u n ids' s1"
  using more_of_tool [of s1 s] by (simp add: run_ok_def tool_ok_def)

lemma run_ok_start: "run_ok env u n ids s \<Longrightarrow> tool_ok env u (tool_run.more s) ids s"
  by (simp add: run_ok_def tool_ok_def)

lemma run_ok_user_note: "run_ok env u n ids s \<Longrightarrow> run_ok env u n ids (user_note env' body s)"
  by (rule run_ok_tool, assumption, rule tool_ok_user_note, rule run_ok_start)

lemma run_ok_reply: "run_ok env u n ids s \<Longrightarrow> run_ok env u n (ids - {call_id call}) (tool_reply env' body call s)"
  by (rule run_ok_tool, assumption, rule tool_ok_reply, rule run_ok_start)

lemma run_ok_harness [simp]: "run_ok env u n ids s \<Longrightarrow> run_ok env u n ids (harness_message env' note s)"
  by (simp add: harness_message_def run_ok_user_note)

lemma run_ok_notes: "run_ok env u n ids s \<Longrightarrow> run_ok env u n ids (fold (user_note env') ns s)"
  by (induction ns arbitrary: s) (simp_all add: run_ok_user_note)

lemma run_ok_other [simp]:
  "run_ok env u n ids (log_event e s) = run_ok env u n ids s" "run_ok env u n ids (s\<lparr>ticks := k\<rparr>) = run_ok env u n ids s"
  "run_ok env u n ids (s\<lparr>memo := mm\<rparr>) = run_ok env u n ids s" "run_ok env u n ids (queue_note body s) = run_ok env u n ids s"
  "run_ok env u n ids (s\<lparr>deferred_notes := ns\<rparr>) = run_ok env u n ids s" "run_ok env u n ids (s\<lparr>pending_notes := ns\<rparr>) = run_ok env u n ids s"
  "run_ok env u n ids (s\<lparr>last_signature := sg\<rparr>) = run_ok env u n ids s" "run_ok env u n ids (s\<lparr>repeat_count := k\<rparr>) = run_ok env u n ids s"
  "run_ok env u n ids (s\<lparr>failure_streak := k\<rparr>) = run_ok env u n ids s" "run_ok env u n ids (s\<lparr>completion_rejections := k\<rparr>) = run_ok env u n ids s"
  "run_ok env u n ids (s\<lparr>context_warned := b\<rparr>) = run_ok env u n ids s" "run_ok env u n ids (s\<lparr>budget_stage := k\<rparr>) = run_ok env u n ids s"
  "run_ok env u n ids (s\<lparr>final_turn_forced := b\<rparr>) = run_ok env u n ids s" "run_ok env u n ids (s\<lparr>final_turn_at := k\<rparr>) = run_ok env u n ids s"
  "run_ok env u n ids (s\<lparr>final_message := m\<rparr>) = run_ok env u n ids s" "run_ok env u n ids (s\<lparr>last_assistant_text := m\<rparr>) = run_ok env u n ids s"
  by (simp_all add: run_ok_def log_event_def queue_note_def)

lemma run_ok_conv [simp]: "talk u ids cx \<Longrightarrow> run_ok env u n ids' s \<Longrightarrow> run_ok env u n ids (s\<lparr>conv := cx\<rparr>)"
  by (simp add: run_ok_def)

lemma run_ok_flush_pending: "run_ok env u n ids s \<Longrightarrow> run_ok env u n ids (flush_pending env' s)"
  by (simp add: flush_pending_def run_ok_notes)

lemma run_ok_flush_deferred: "run_ok env u n ids s \<Longrightarrow> run_ok env u n ids (flush_deferred env' s)"
  by (simp add: flush_deferred_def run_ok_notes)

lemma run_ok_steering [simp]:
  "run_ok env u n ids (note_repetition env' sig s) = run_ok env u n ids s"
  "run_ok env u n ids (record_failure_streak env' b turn s) = run_ok env u n ids s"
  "run_ok env u n ids (note_progress s) = run_ok env u n ids s"
  "run_ok env u n ids (note_completion_rejection env' s) = run_ok env u n ids s"
  by (simp_all add: note_repetition_def record_failure_streak_def note_progress_def note_completion_rejection_def Let_def)

lemma run_ok_review: "run_ok env u n ids s \<Longrightarrow> run_ok env u n ids (review_stages env' turn turns spent stages s)"
  by (induction stages arbitrary: s) simp_all

lemma talk_same: "messages cx1 = messages cx \<Longrightarrow> fresh cx1 = fresh cx \<Longrightarrow> talk u ids cx1 = talk u ids cx"
  by (simp add: talk_def ids_ok_def)

lemma talk_usage_fraction: "talk u ids (snd (usage_fraction env cx)) = talk u ids cx"
  by (rule talk_same) (simp_all add: usage_fraction_def case_prod_beta)

lemma run_ok_warn: "run_ok env u n ids s \<Longrightarrow> run_ok env u n ids (warn_context env' s)"
  using talk_usage_fraction [of u ids "cenv env'" "conv s"]
  by (auto simp: warn_context_def run_ok_def case_prod_beta Let_def intro!: run_ok_harness [unfolded run_ok_def])

lemma run_ok_open_turn: "run_ok env u n ids s \<Longrightarrow> run_ok env u n ids (snd (open_turn env' cfg turn s))"
  by (auto simp: open_turn_def Let_def intro!: run_ok_warn run_ok_harness run_ok_review split: option.split)

end
