(* ===== verification/Agent_Loop.thy ===== *)
theory Agent_Loop
  imports Steering
begin

text \<open>
  The turn loop of the agent (\<open>DefaultAgent\<close> of \<open>garuda/core/loop.py\<close>) with the parts of
  \<open>garuda/core/run_state.py\<close> it calls: compaction, the re-pinned state, the closing of open calls, the
  results.

  The model answers through the environment, from the clock, the request and whether only the terminal
  tool is offered. Usage totals, turn metrics, the published context pack and the metadata of a result
  are not modelled. The terminal strategy is the completion gate, whose tool is always among the tools.
\<close>

subsection \<open>Results and open calls\<close>

record agent_result =
  ar_success :: bool
  ar_message :: string
  ar_messages :: "message list"
  ar_turns :: nat
  ar_output :: "pyval option"
  ar_error :: "string option"

definition TERMINAL :: string where "TERMINAL = ''task_complete''"
definition TOOL_ARG_PARSE_ERROR_KEY :: string where "TOOL_ARG_PARSE_ERROR_KEY = ''__tool_arg_parse_error__''"

definition run_result :: "bool \<Rightarrow> string \<Rightarrow> nat \<Rightarrow> pyval option \<Rightarrow> string option \<Rightarrow> 'r agent_run_scheme \<Rightarrow> agent_result" where
  "run_result success msg turns out err s = \<lparr>ar_success = success, ar_message = msg, ar_messages = get_messages (conv s),
     ar_turns = turns, ar_output = out, ar_error = err\<rparr>"

text \<open>\<open>answer_open_calls\<close>: the answered ids are taken once, from the whole conversation.\<close>

definition close_call :: "'e agent_env_scheme \<Rightarrow> string list \<Rightarrow> tool_call option \<Rightarrow> harness_note \<Rightarrow> tool_call
    \<Rightarrow> 'r agent_run_scheme \<Rightarrow> 'r agent_run_scheme" where
  "close_call env done_ids accepted reason call s =
     (if call_id call \<in> set done_ids then s
      else tool_reply env (harness_text env
        (case accepted of Some a \<Rightarrow> if call_id call = call_id a then Terminal_accepted else reason | None \<Rightarrow> reason)) call s)"

definition answer_open_calls :: "'e agent_env_scheme \<Rightarrow> tool_call list \<Rightarrow> tool_call option \<Rightarrow> harness_note
    \<Rightarrow> 'r agent_run_scheme \<Rightarrow> 'r agent_run_scheme" where
  "answer_open_calls env calls accepted reason s =
     fold (close_call env (answered_ids (get_messages (conv s))) accepted reason) calls s"

definition session_end :: "'e agent_env_scheme \<Rightarrow> bool \<Rightarrow> string option \<Rightarrow> nat option \<Rightarrow> 'r agent_run_scheme \<Rightarrow> 'r agent_run_scheme" where
  "session_end env success reason turns s = (if emit_session_events env then log_event (Session_end success reason turns) s else s)"

definition abort_environment_dead :: "'e agent_env_scheme \<Rightarrow> nat \<Rightarrow> 'r agent_run_scheme \<Rightarrow> agent_result \<times> 'r agent_run_scheme" where
  "abort_environment_dead env turn s =
     (let s1 = session_end env False (Some ''environment_unavailable'') None (log_event (Workspace_lost turn) s) in
      (run_result False (harness_text env (Aborted turn)) turn None None s1, s1))"

definition exhausted :: "'e agent_env_scheme \<Rightarrow> agent_config \<Rightarrow> nat \<Rightarrow> 'r agent_run_scheme \<Rightarrow> agent_result \<times> 'r agent_run_scheme" where
  "exhausted env cfg turn s =
     (let turns = min turn (max_turns cfg);
          s1 = session_end env False (Some (if deadline_exceeded env s then ''deadline'' else ''max_turns'')) (Some turns) s;
          msg = (if final_message s \<noteq> [] then final_message s
                 else if last_assistant_text s \<noteq> [] then last_assistant_text s
                 else ''Budget exhausted before the task was verified.'') in
      (run_result False msg turns None None s1, s1))"

definition output_failed :: "'e agent_env_scheme \<Rightarrow> terminal_decision \<Rightarrow> nat \<Rightarrow> 'r agent_run_scheme \<Rightarrow> agent_result \<times> 'r agent_run_scheme" where
  "output_failed env d turn s =
     (let s1 = session_end env False (td_failure d) (Some turn) s in (run_result False (td_summary d) turn None (td_failure d) s1, s1))"

definition accept_run :: "'e agent_env_scheme \<Rightarrow> tool_call list \<Rightarrow> tool_call \<Rightarrow> terminal_decision \<Rightarrow> nat
    \<Rightarrow> 'r agent_run_scheme \<Rightarrow> agent_result \<times> 'r agent_run_scheme" where
  "accept_run env calls call d turns s =
     (let s1 = session_end env True None (Some turns)
                 (flush_deferred env (answer_open_calls env calls (Some call) Ended_by_acceptance s)) in
      (run_result True (td_summary d) turns (td_output d) None s1, s1))"

definition end_with :: "('r agent_run_scheme \<Rightarrow> agent_result \<times> 'r agent_run_scheme)
    \<Rightarrow> ('r agent_run_scheme, halt, agent_result option) prog" where
  "end_with f s = (let (r, s1) = f s in (Inr (Some r), s1))"

subsection \<open>Compaction and the request\<close>

definition pin :: "'e agent_env_scheme \<Rightarrow> ('a \<Rightarrow> harness_note) \<Rightarrow> 'a option \<Rightarrow> 'r agent_run_scheme \<Rightarrow> 'r agent_run_scheme" where
  "pin env mk v s = (case v of None \<Rightarrow> s | Some x \<Rightarrow> harness_message env (mk x) s)"

definition already_pinned :: "string \<Rightarrow> message list \<Rightarrow> bool" where
  "already_pinned body ms \<longleftrightarrow> list_ex (\<lambda>m. contains (content m) body) ms"

definition reinject_pinned_state :: "'e agent_env_scheme \<Rightarrow> agent_config \<Rightarrow> 'r agent_run_scheme \<Rightarrow> 'r agent_run_scheme" where
  "reinject_pinned_state env cfg s =
     (if enable_working_state_card cfg
      then (case card env (ticks s) of
              None \<Rightarrow> s
            | Some body \<Rightarrow> if already_pinned body (get_messages (conv s)) then s else user_note env body s)
      else pin env Todos_pinned (todos env (ticks s)) (pin env Goal_pinned (goal env (ticks s))
             (pin env Criteria_pinned (case contract s of None \<Rightarrow> None | Some cs \<Rightarrow> if cs = [] then None else Some cs) s)))"

definition compact_if_needed :: "'e agent_env_scheme \<Rightarrow> agent_config \<Rightarrow> nat \<Rightarrow> 'r agent_run_scheme \<Rightarrow> 'r agent_run_scheme" where
  "compact_if_needed env cfg turn s =
     (let (summarized, cx) = maybe_summarize (cenv env) (conv s); s1 = s\<lparr>conv := cx\<rparr> in
      if summarized then reinject_pinned_state env cfg (log_event (Summarization turn False) s1) else s1)"

definition note_context_budget :: "'e agent_env_scheme \<Rightarrow> nat \<Rightarrow> 'r agent_run_scheme \<Rightarrow> 'r agent_run_scheme" where
  "note_context_budget env turn s = log_event (Budget ''context'' turn) (s\<lparr>conv := snd (used_tokens (cenv env) (conv s))\<rparr>)"

definition complete :: "'e agent_env_scheme \<Rightarrow> bool \<Rightarrow> 'r agent_run_scheme \<Rightarrow> model_outcome \<times> 'r agent_run_scheme" where
  "complete env final s =
     (let ms = get_messages (conv s) in
      (model env (ticks s) ms final, s\<lparr>ticks := Suc (ticks s), sent := sent s @ [ms]\<rparr>))"

definition complete_or_shrink :: "'e agent_env_scheme \<Rightarrow> agent_config \<Rightarrow> nat \<Rightarrow> bool \<Rightarrow> 'r agent_run_scheme
    \<Rightarrow> model_outcome \<times> 'r agent_run_scheme" where
  "complete_or_shrink env cfg turn final s =
     (let (out, s1) = complete env final s in
      case out of
        Overflow why \<Rightarrow>
       (let (shrunk, cx) = force_compact (cenv env) (snd (used_tokens (cenv env) (conv s1)));
            s2 = log_event (Summarization turn True) (s1\<lparr>conv := cx\<rparr>) in
        if shrunk then complete env final (reinject_pinned_state env cfg s2) else (Overflow why, s2))
      | _ \<Rightarrow> (out, s1))"

definition assistant_message :: "nat \<Rightarrow> model_response \<Rightarrow> message" where
  "assistant_message n r = \<lparr>oid = n, role = ASSISTANT, content = rp_content r, message_name = None, tool_call_id = None,
     tool_calls = rp_calls r,
     metadata = (case rp_thinking r of None \<Rightarrow> [] | Some v \<Rightarrow> [(''thinking_blocks'', v)])
       @ (case rp_reasoning r of None \<Rightarrow> [] | Some t \<Rightarrow> [(''reasoning_content'', P_str t)]),
     images = []\<rparr>"

definition record_response :: "'e agent_env_scheme \<Rightarrow> nat \<Rightarrow> model_response \<Rightarrow> 'r agent_run_scheme \<Rightarrow> 'r agent_run_scheme" where
  "record_response env turn r s =
     (let s1 = log_event (Model_response turn) s;
          s2 = (if py_strip (rp_content r) \<noteq> [] then s1\<lparr>last_assistant_text := py_strip (rp_content r)\<rparr> else s1);
          s3 = (if rp_content r \<noteq> [] \<or> rp_calls r \<noteq> [] \<or> rp_thinking r \<noteq> None then add_message env (\<lambda>n. assistant_message n r) s2 else s2) in
      if rp_truncated r then queue_note (harness_text env Truncated) (log_event (Response_truncated turn) s3) else s3)"

definition take_response :: "'e agent_env_scheme \<Rightarrow> nat \<Rightarrow> model_response \<Rightarrow> 'r agent_run_scheme \<Rightarrow> 'r agent_run_scheme" where
  "take_response env turn r s = record_response env turn r (s\<lparr>conv := note_usage (rp_prompt_tokens r) (conv s)\<rparr>)"

subsection \<open>The calls of a response\<close>

definition is_parallel_safe :: "tool_call \<Rightarrow> bool" where
  "is_parallel_safe call \<longleftrightarrow> call_name call \<in> set PARALLEL_SAFE_TOOLS \<and> dict_get (arguments call) TOOL_ARG_PARSE_ERROR_KEY = None"

definition is_parallel_batch :: "tool_call list \<Rightarrow> bool" where
  "is_parallel_batch calls \<longleftrightarrow> 1 < length calls \<and> list_all is_parallel_safe calls"

definition note_call_outcome :: "'e agent_env_scheme \<Rightarrow> nat \<Rightarrow> tool_call \<times> tool_result \<Rightarrow> 'r agent_run_scheme \<Rightarrow> 'r agent_run_scheme" where
  "note_call_outcome env turn cr s =
     (let s1 = note_progress (record_failure_streak env (tr_is_error (snd cr)) turn s);
          sig = signature (tool_map env) (fst cr);
          (steer, mm) = steer_note sig (count_for sig (memo s1)) (memo s1);
          s2 = s1\<lparr>memo := mm\<rparr> in
      case steer of None \<Rightarrow> s2 | Some (n, k) \<Rightarrow> queue_note (harness_text env (Repetition_steer (fst cr) n k)) s2)"

definition surface_images :: "'e agent_env_scheme \<Rightarrow> string list \<Rightarrow> 'r agent_run_scheme \<Rightarrow> 'r agent_run_scheme" where
  "surface_images env imgs s =
     (if imgs = [] then s
      else add_message env (\<lambda>n. (plain_message n USER (harness_text env (Images_returned (length imgs))))\<lparr>images := imgs\<rparr>) s)"

definition failed_for_good :: "terminal_decision \<Rightarrow> bool" where
  "failed_for_good d \<longleftrightarrow> (case td_failure d of None \<Rightarrow> False | Some f \<Rightarrow> f \<noteq> [])"

type_synonym ('r, 'a) looping = "('r agent_run_scheme, halt, 'a) prog"

definition parse_error_text :: "'e agent_env_scheme \<Rightarrow> pyval \<Rightarrow> string" where
  "parse_error_text env v = (case v of P_str t \<Rightarrow> t | _ \<Rightarrow> str_of_value env v)"

text \<open>One call of a sequential group: the result that ends the run, if it does, and the images.\<close>

definition run_sequential_call :: "'e agent_env_scheme \<Rightarrow> agent_config \<Rightarrow> nat \<Rightarrow> tool_call list \<Rightarrow> tool_call
    \<Rightarrow> ('r, agent_result option \<times> string list) looping" where
  "run_sequential_call env cfg turn response call =
     (if call_name call = TERMINAL then
        bindE (terminal_attempt env cfg call) (\<lambda>d.
          if td_accepted d then bindE (end_with (accept_run env response call d turn)) (\<lambda>r. ret (r, []))
          else if failed_for_good d
          then bindE (end_with (\<lambda>s. output_failed env d turn (answer_open_calls env response None Ended_here s))) (\<lambda>r. ret (r, []))
          else bindE (modify (note_completion_rejection env)) (\<lambda>_. ret (None, [])))
      else case dict_get (arguments call) TOOL_ARG_PARSE_ERROR_KEY of
          Some v \<Rightarrow> bindE (refuse env (parse_error_text env v) call) (\<lambda>_. ret (None, []))
        | None \<Rightarrow> bindE (screen env turn call) (\<lambda>r.
            case r of
              Stopped why c \<Rightarrow> bindE (refuse env why c) (\<lambda>_. ret (None, []))
            | Go own c \<Rightarrow> bindE (run_one env turn own c) (\<lambda>res.
                bindE (modify (note_call_outcome env turn (c, res))) (\<lambda>_. ret (None, tr_images res)))))"

fun run_sequentially :: "'e agent_env_scheme \<Rightarrow> agent_config \<Rightarrow> nat \<Rightarrow> tool_call list \<Rightarrow> tool_call list
    \<Rightarrow> ('r, agent_result option \<times> string list) looping" where
  "run_sequentially env cfg turn response [] = ret (None, [])"
| "run_sequentially env cfg turn response (call # calls) =
     bindE (run_sequential_call env cfg turn response call) (\<lambda>(out, imgs).
       if out \<noteq> None then ret (out, imgs)
       else bindE (run_sequentially env cfg turn response calls) (\<lambda>(out', imgs'). ret (out', imgs @ imgs')))"

definition run_reads :: "'e agent_env_scheme \<Rightarrow> nat \<Rightarrow> tool_call list \<Rightarrow> ('r, string list) looping" where
  "run_reads env turn calls =
     bindE (run_parallel_reads env turn calls) (\<lambda>finished.
     bindE (modify (fold (note_call_outcome env turn) finished)) (\<lambda>_. ret (concat (map (tr_images \<circ> snd) finished))))"

fun run_call_segments :: "'e agent_env_scheme \<Rightarrow> agent_config \<Rightarrow> nat \<Rightarrow> tool_call list \<Rightarrow> (bool \<times> tool_call list) list
    \<Rightarrow> ('r, agent_result option \<times> string list) looping" where
  "run_call_segments env cfg turn response [] = ret (None, [])"
| "run_call_segments env cfg turn response ((gathered, grp) # segs) =
     bindE (if gathered then bindE (run_reads env turn grp) (\<lambda>imgs. ret (None, imgs))
            else run_sequentially env cfg turn response grp) (\<lambda>(out, imgs).
       if out \<noteq> None then ret (out, imgs)
       else bindE (run_call_segments env cfg turn response segs) (\<lambda>(out', imgs'). ret (out', imgs @ imgs')))"

definition close_response :: "'e agent_env_scheme \<Rightarrow> tool_call list \<Rightarrow> string list \<Rightarrow> 'r agent_run_scheme \<Rightarrow> 'r agent_run_scheme" where
  "close_response env calls imgs s = surface_images env imgs (note_repetition env (batch_signature env calls) s)"

definition run_calls :: "'e agent_env_scheme \<Rightarrow> agent_config \<Rightarrow> nat \<Rightarrow> tool_call list \<Rightarrow> ('r, agent_result option) looping" where
  "run_calls env cfg turn calls =
     bindE (run_call_segments env cfg turn calls (segments is_parallel_safe calls)) (\<lambda>(out, imgs).
       if out \<noteq> None then ret out else bindE (modify (close_response env calls imgs)) (\<lambda>_. ret None))"

definition run_parallel_batch :: "'e agent_env_scheme \<Rightarrow> nat \<Rightarrow> tool_call list \<Rightarrow> ('r, agent_result option) looping" where
  "run_parallel_batch env turn calls =
     bindE (run_reads env turn calls) (\<lambda>imgs. bindE (modify (close_response env calls imgs)) (\<lambda>_. ret None))"

subsection \<open>A turn\<close>

text \<open>The handler of a dead workspace; every other error leaves the run.\<close>

definition on_dead_workspace :: "'e agent_env_scheme \<Rightarrow> nat \<Rightarrow> tool_call list \<Rightarrow> halt \<Rightarrow> ('r, agent_result option) looping" where
  "on_dead_workspace env turn calls e =
     (if e = Environment_unavailable
      then end_with (\<lambda>s. abort_environment_dead env turn (answer_open_calls env calls None Ended_workspace s)) else raise e)"

definition run_response :: "'e agent_env_scheme \<Rightarrow> agent_config \<Rightarrow> nat \<Rightarrow> model_response \<Rightarrow> ('r, agent_result option) looping" where
  "run_response env cfg turn r s =
     (if rp_calls r = [] then
       (let s1 = s\<lparr>final_message := rp_content r\<rparr> in
        if \<not> enable_verifier cfg \<and> output_schema cfg = None
        then (let s2 = session_end env True None (Some turn) s1 in (Inr (Some (run_result True (rp_content r) turn None None s2)), s2))
        else (Inr None, harness_message env Continue_nudge s1))
      else catchE (if is_parallel_batch (rp_calls r) then run_parallel_batch env turn (rp_calls r) else run_calls env cfg turn (rp_calls r))
             (on_dead_workspace env turn (rp_calls r)) s)"

definition model_failed :: "'e agent_env_scheme \<Rightarrow> nat \<Rightarrow> string \<Rightarrow> 'r agent_run_scheme \<Rightarrow> agent_result \<times> 'r agent_run_scheme" where
  "model_failed env turn why s =
     (let s1 = session_end env False (Some ''model_error'') None s in
      (run_result False (''Model call failed: '' @ why) turn None None s1, s1))"

definition run_turn :: "'e agent_env_scheme \<Rightarrow> agent_config \<Rightarrow> nat \<Rightarrow> ('r, agent_result option) looping" where
  "run_turn env cfg turn s =
     (let s1 = note_context_budget env turn (if enable_request_preflight cfg then compact_if_needed env cfg turn s else s);
          (out, s2) = complete_or_shrink env cfg turn False s1 in
      case out of
        Reply r0 \<Rightarrow> (let r = scrub env r0 in run_response env cfg turn r (take_response env turn r s2))
      | Overflow why \<Rightarrow> end_with (model_failed env turn why) s2
      | Model_error why \<Rightarrow> end_with (model_failed env turn why) s2)"

subsection \<open>The final submission and the run\<close>

definition judge_submission :: "'e agent_env_scheme \<Rightarrow> agent_config \<Rightarrow> nat \<Rightarrow> tool_call list \<Rightarrow> tool_call
    \<Rightarrow> ('r, agent_result option) looping" where
  "judge_submission env cfg turn calls call =
     bindE (terminal_attempt env cfg call) (\<lambda>d.
       if td_accepted d then end_with (accept_run env calls call d (min turn (max_turns cfg)))
       else if failed_for_good d then end_with (\<lambda>s. output_failed env d turn (answer_open_calls env calls None Ended_here s))
       else end_with (\<lambda>s. exhausted env cfg turn (answer_open_calls env calls None Ended_here s)))"

definition submit :: "'e agent_env_scheme \<Rightarrow> agent_config \<Rightarrow> nat \<Rightarrow> model_response \<Rightarrow> ('r, agent_result option) looping" where
  "submit env cfg turn r =
     (case find (\<lambda>c. call_name c = TERMINAL) (rp_calls r) of
        None \<Rightarrow> end_with (\<lambda>s. exhausted env cfg turn (answer_open_calls env (rp_calls r) None Ended_here s))
      | Some call \<Rightarrow> catchE (judge_submission env cfg turn (rp_calls r) call) (on_dead_workspace env turn (rp_calls r)))"

definition final_submission :: "'e agent_env_scheme \<Rightarrow> agent_config \<Rightarrow> nat \<Rightarrow> ('r, agent_result option) looping" where
  "final_submission env cfg turn s =
     (if \<not> (force_final_submission cfg \<and> enable_verifier cfg \<and> known_tool (tool_map env) TERMINAL)
      then end_with (exhausted env cfg turn) s
      else
       (let s1 = harness_message env Final_submission (log_event (Budget ''final_submission'' turn) s);
            s2 = (if enable_request_preflight cfg then compact_if_needed env cfg turn s1 else s1);
            (out, s3) = complete_or_shrink env cfg turn True s2 in
        case out of
          Reply r \<Rightarrow> submit env cfg turn r (take_response env turn r s3)
        | _ \<Rightarrow> end_with (exhausted env cfg turn) s3))"

definition save_checkpoint :: "'e agent_env_scheme \<Rightarrow> 'r agent_run_scheme \<Rightarrow> 'r agent_run_scheme" where
  "save_checkpoint env s = (if checkpointing env then s\<lparr>saved := saved s @ [get_messages (conv s)]\<rparr> else s)"

definition begin_turn :: "'e agent_env_scheme \<Rightarrow> agent_config \<Rightarrow> nat \<Rightarrow> 'r agent_run_scheme \<Rightarrow> bool \<times> 'r agent_run_scheme" where
  "begin_turn env cfg turn s = open_turn env cfg turn (save_checkpoint env (flush_pending env (compact_if_needed env cfg turn s)))"

text \<open>The loop over the turns: \<open>left\<close> turns remain, the next one is \<open>turn\<close>.\<close>

fun run_turns :: "'e agent_env_scheme \<Rightarrow> agent_config \<Rightarrow> nat \<Rightarrow> nat \<Rightarrow> ('r, agent_result option) looping" where
  "run_turns env cfg turn 0 s = final_submission env cfg (turn - 1) s"
| "run_turns env cfg turn (Suc left) s =
     (case begin_turn env cfg turn s of
        (True, s1) \<Rightarrow> final_submission env cfg turn s1
      | (False, s1) \<Rightarrow>
          bindE (run_turn env cfg turn) (\<lambda>out. if out \<noteq> None then ret out else run_turns env cfg (Suc turn) left) s1)"

definition run_agent :: "'e agent_env_scheme \<Rightarrow> agent_config \<Rightarrow> ('r, agent_result option) looping" where
  "run_agent env cfg = run_turns env cfg 1 (max_turns cfg)"

subsection \<open>Closing a run\<close>

lemma valid_of_talk: "talk u {} cx \<Longrightarrow> valid_request (get_messages cx)"
  using answered_valid order_walk_ordered [of "messages cx"] answered_order [of "messages cx"]
  by (auto simp: talk_empty conversation_ok_iff get_messages_def order_tool_results_def)

lemma answered_ids_iff: "i \<in> set (answered_ids ms) \<longleftrightarrow> (\<exists>m \<in> set ms. role m = TOOL \<and> tool_call_id m = Some i \<and> i \<noteq> [])"
  by (induction ms) (auto simp: answered_ids_def map_filter_simps split: option.split)

lemma answered_ids_get [simp]: "set (answered_ids (get_messages cx)) = set (answered_ids (messages cx))"
proof -
  have "set (order_tool_results (messages cx)) = set (messages cx)"
    by (metis mset_order_walk order_tool_results_def set_mset_mset)
  then show ?thesis by (auto simp: get_messages_def answered_ids_iff)
qed

lemma close_calls_ok:
  "run_ok env u n ids s \<Longrightarrow>
   run_ok env u n (ids - {i \<in> call_id ` set calls. i \<notin> set D}) (fold (close_call env' D acc reason) calls s)"
proof (induction calls arbitrary: ids s)
  case (Cons c calls)
  show ?case
  proof (cases "call_id c \<in> set D")
    case True
    have "ids - {i \<in> call_id ` set (c # calls). i \<notin> set D} = ids - {i \<in> call_id ` set calls. i \<notin> set D}"
      using True by auto
    with Cons.IH [OF Cons.prems] True show ?thesis by (simp add: close_call_def)
  next
    case False
    have "ids - {i \<in> call_id ` set (c # calls). i \<notin> set D} = ids - {call_id c} - {i \<in> call_id ` set calls. i \<notin> set D}"
      using False by auto
    with Cons.IH [OF run_ok_reply [OF Cons.prems]] False show ?thesis by (simp add: close_call_def)
  qed
qed simp

definition ids_of :: "tool_call list \<Rightarrow> string set" where
  "ids_of calls = call_id ` set calls"

lemma answer_open_calls_ok:
  assumes "run_ok env u n ids s" "ids \<subseteq> ids_of calls"
  shows "\<exists>i \<subseteq> ids. (u \<longrightarrow> i = {}) \<and> run_ok env u n i (answer_open_calls env' calls acc reason s)"
proof -
  let ?D = "answered_ids (get_messages (conv s))"
  let ?i = "ids - {i \<in> call_id ` set calls. i \<notin> set ?D}"
  have "u \<longrightarrow> ?i = {}"
    using assms by (auto simp: run_ok_def talk_def ids_of_def)
  with close_calls_ok [OF assms(1), of calls ?D env' acc reason] show ?thesis
    by (intro exI [of _ ?i]) (auto simp: answer_open_calls_def)
qed

definition ended :: "'e agent_env_scheme \<Rightarrow> bool \<Rightarrow> nat \<Rightarrow> agent_result \<Rightarrow> 'r agent_run_scheme \<Rightarrow> bool" where
  "ended env u n r s \<longleftrightarrow> (\<exists>i. run_ok env u n i s) \<and> (u \<longrightarrow> valid_request (ar_messages r))"

lemma endedI: "run_ok env u n i s \<Longrightarrow> u \<longrightarrow> i = {} \<Longrightarrow> ar_messages r = get_messages (conv s) \<Longrightarrow> ended env u n r s"
  by (auto simp: ended_def run_ok_def dest: valid_of_talk)

lemma run_ok_session_end [simp]: "run_ok env u n ids (session_end env' b reason t s) = run_ok env u n ids s"
  by (simp add: session_end_def)

lemma messages_run_result [simp]: "ar_messages (run_result b msg t out err s) = get_messages (conv s)"
  by (simp add: run_result_def)

lemma abort_ended: "run_ok env u n i s \<Longrightarrow> u \<longrightarrow> i = {} \<Longrightarrow> case abort_environment_dead env' turn s of (r, s1) \<Rightarrow> ended env u n r s1"
  by (simp add: abort_environment_dead_def Let_def endedI)

lemma exhausted_ended: "run_ok env u n i s \<Longrightarrow> u \<longrightarrow> i = {} \<Longrightarrow> case exhausted env' cfg turn s of (r, s1) \<Rightarrow> ended env u n r s1"
  by (simp add: exhausted_def Let_def endedI)

lemma output_failed_ended: "run_ok env u n i s \<Longrightarrow> u \<longrightarrow> i = {} \<Longrightarrow> case output_failed env' d turn s of (r, s1) \<Rightarrow> ended env u n r s1"
  by (simp add: output_failed_def Let_def endedI)

lemma model_failed_ended: "run_ok env u n i s \<Longrightarrow> u \<longrightarrow> i = {} \<Longrightarrow> case model_failed env' turn why s of (r, s1) \<Rightarrow> ended env u n r s1"
  by (simp add: model_failed_def Let_def endedI)

lemma accept_ended:
  assumes "run_ok env u n ids s" "ids \<subseteq> ids_of calls"
  shows "case accept_run env' calls call d turns s of (r, s1) \<Rightarrow> ended env u n r s1"
proof -
  obtain i where "u \<longrightarrow> i = {}" "run_ok env u n i (answer_open_calls env' calls (Some call) Ended_by_acceptance s)"
    using answer_open_calls_ok [OF assms] by blast
  then have "run_ok env u n i (session_end env' True None (Some turns)
      (flush_deferred env' (answer_open_calls env' calls (Some call) Ended_by_acceptance s)))" "u \<longrightarrow> i = {}"
    by (simp_all add: run_ok_flush_deferred)
  then show ?thesis unfolding accept_run_def Let_def prod.case by (rule endedI) (rule messages_run_result)
qed

text \<open>A run that ends after its open calls were closed.\<close>

lemma closed_ended:
  assumes "\<And>i s. run_ok env u n i s \<Longrightarrow> u \<longrightarrow> i = {} \<Longrightarrow> case f s of (r, s1) \<Rightarrow> ended env u n r s1"
    and "run_ok env u n ids s" "ids \<subseteq> ids_of calls"
  shows "case f (answer_open_calls env' calls None reason s) of (r, s1) \<Rightarrow> ended env u n r s1"
proof -
  obtain i where "u \<longrightarrow> i = {}" "run_ok env u n i (answer_open_calls env' calls None reason s)"
    using answer_open_calls_ok [OF assms(2,3)] by blast
  then show ?thesis by (intro assms(1))
qed

definition run_dies :: "'e agent_env_scheme \<Rightarrow> bool \<Rightarrow> nat \<Rightarrow> string set \<Rightarrow> halt \<Rightarrow> 'r agent_run_scheme \<Rightarrow> bool" where
  "run_dies env u n ids e s \<longleftrightarrow> (\<exists>i \<subseteq> ids. run_ok env u n i s)"

lemma run_diesI: "run_ok env u n i s \<Longrightarrow> i \<subseteq> ids \<Longrightarrow> run_dies env u n ids e s"
  by (auto simp: run_dies_def)

lemma run_dies_mono: "run_dies env u n i e s \<Longrightarrow> i \<subseteq> ids \<Longrightarrow> run_dies env u n ids e s"
  by (auto simp: run_dies_def)

text \<open>What the tool runner keeps, the run keeps.\<close>

lemma run_lift:
  fixes m :: "('r agent_run_scheme, halt, 'a) prog"
  assumes "\<And>x. hoare (tool_ok env u x ids) m (\<lambda>r s. tool_ok env u x (f r) s \<and> Q r) (dies env u x ids)"
  shows "hoare (run_ok env u n ids) m (\<lambda>r s. run_ok env u n (f r) s \<and> Q r) (run_dies env u n ids)"
proof (rule hoareI)
  fix s :: "'r agent_run_scheme"
  assume s: "run_ok env u n ids s"
  note h = assms [of "tool_run.more s"] and start = run_ok_start [OF s]
  show "run_ok env u n (f r) t \<and> Q r" if "m s = (Inr r, t)" for r t
    using hoareD [OF h start that] run_ok_tool [OF s] by blast
  show "run_dies env u n ids e t" if "m s = (Inl e, t)" for e t
    using hoareD_error [OF h start that] run_ok_tool [OF s] by (auto simp: dies_def run_dies_def)
qed

lemma run_lift_same:
  fixes m :: "('r agent_run_scheme, halt, 'a) prog"
  assumes "\<And>x. hoare (tool_ok env u x ids) m (\<lambda>_. tool_ok env u x ids') (dies env u x ids)"
  shows "hoare (run_ok env u n ids) m (\<lambda>_. run_ok env u n ids') (run_dies env u n ids)"
  by (rule hoare_conseq [OF run_lift [where f = "\<lambda>_. ids'" and Q = "\<lambda>_. True"]]) (use assms in simp_all)

definition ending :: "'e agent_env_scheme \<Rightarrow> bool \<Rightarrow> nat \<Rightarrow> string set \<Rightarrow> agent_result option \<Rightarrow> 'r agent_run_scheme \<Rightarrow> bool" where
  "ending env u n ids out s = (case out of None \<Rightarrow> run_ok env u n ids s | Some r \<Rightarrow> ended env u n r s)"

lemma ending_simps [simp]:
  "ending env u n ids None s = run_ok env u n ids s" "ending env u n ids (Some r) s = ended env u n r s"
  by (simp_all add: ending_def)

lemma ending_None [simp]: "ending env u n ids None = run_ok env u n ids"
  by (simp add: ending_def fun_eq_iff)

lemma end_with_hoare:
  assumes "\<And>s. P s \<Longrightarrow> case f s of (r, s1) \<Rightarrow> ended env u n r s1"
  shows "hoare P (end_with f) (\<lambda>out s. out \<noteq> None \<and> ending env u n ids out s) E"
  using assms by (fastforce simp: hoare_def end_with_def split: prod.split)

subsection \<open>The calls of a response keep the invariant\<close>

lemma run_terminal:
  assumes "run_ok env u n ids s"
  shows "case terminal_attempt env' cfg call s of (Inl e, s1) \<Rightarrow> run_ok env u n ids s1
    | (Inr d, s1) \<Rightarrow> run_ok env u n (if td_accepted d then ids else ids - {call_id call}) s1"
  using tool_ok_terminal [OF run_ok_start [OF assms], where env' = env' and cfg = cfg and call = call] run_ok_tool [OF assms]
  by (auto split: prod.splits sum.splits)

lemma run_terminal_hoare:
  "hoare (run_ok env u n ids :: 'r agent_run_scheme \<Rightarrow> bool) (terminal_attempt env' cfg call)
     (\<lambda>d. run_ok env u n (if td_accepted d then ids else ids - {call_id call})) (run_dies env u n ids)"
  unfolding hoare_def
proof (intro allI impI)
  fix s :: "'r agent_run_scheme"
  assume "run_ok env u n ids s"
  from run_terminal [OF this, where env' = env' and cfg = cfg and call = call]
  show "case terminal_attempt env' cfg call s of (Inl e, t) \<Rightarrow> run_dies env u n ids e t
     | (Inr d, t) \<Rightarrow> run_ok env u n (if td_accepted d then ids else ids - {call_id call}) t"
    by (auto split: prod.splits sum.splits intro: run_diesI)
qed

lemma run_screen_hoare:
  "hoare (run_ok env u n ids) (screen env turn call) (\<lambda>r s. run_ok env u n ids s \<and> screened_ok env (call_id call) r) (run_dies env u n ids)"
  by (rule run_lift [where f = "\<lambda>_. ids" and Q = "screened_ok env (call_id call)"], rule hoare_conseq [OF screen_hoare])
     (auto intro: diesI)

lemma run_refuse_hoare: "hoare (run_ok env u n ids) (refuse env' why call) (\<lambda>_. run_ok env u n (ids - {call_id call})) E"
  by (auto simp: hoare_def refuse_def modify_def run_ok_reply)

lemma run_one_run_hoare:
  assumes "cleared env call"
  shows "hoare (run_ok env u n ids) (run_one env turn own call) (\<lambda>_. run_ok env u n (ids - {call_id call})) (run_dies env u n ids)"
  by (rule run_lift_same, rule hoare_conseq [OF run_one_hoare [OF assms]]) (auto intro: diesI)

lemma run_parallel_run_hoare:
  "hoare (run_ok env u n ids) (run_parallel_reads env turn calls) (\<lambda>_. run_ok env u n (ids - ids_of calls)) (run_dies env u n ids)"
  unfolding ids_of_def by (rule run_lift_same, rule run_parallel_reads_hoare)

lemma note_call_outcome_ok [simp]: "run_ok env u n ids (note_call_outcome env' turn cr s) = run_ok env u n ids s"
  by (simp add: note_call_outcome_def Let_def case_prod_beta split: option.split)

lemma fold_outcomes_ok: "run_ok env u n ids (fold (note_call_outcome env' turn) crs s) = run_ok env u n ids s"
  by (induction crs arbitrary: s) simp_all

lemma hoare_modify_ok: "(\<And>s. P s \<Longrightarrow> Q (f s)) \<Longrightarrow> hoare P (modify f) (\<lambda>_. Q) E"
  by (simp add: hoare_def modify_def)

lemma hoare_ret_ok: "(\<And>s. P s \<Longrightarrow> Q r s) \<Longrightarrow> hoare P (ret r) Q E"
  by (simp add: hoare_def)

lemma hoare_case_pair: "(\<And>a b. hoare (P (a, b)) (f a b) Q E) \<Longrightarrow> hoare (P ab) (case ab of (a, b) \<Rightarrow> f a b) Q E"
  by (cases ab) simp

text \<open>A call either ends the run, or is answered.\<close>

lemma run_sequential_call_hoare:
  assumes "ids \<subseteq> ids_of response"
  shows "hoare (run_ok env u n ids) (run_sequential_call env cfg turn response call)
     (\<lambda>(out, imgs). ending env u n (ids - {call_id call}) out) (run_dies env u n ids)"
proof -
  let ?post = "\<lambda>(out :: agent_result option, imgs :: string list). ending env u n (ids - {call_id call}) out"
  have accepted: "hoare (run_ok env u n ids) (bindE (end_with (accept_run env response call d turn)) (\<lambda>r. ret (r, []))) ?post (run_dies env u n ids)" for d
    by (rule hoare_bind [OF end_with_hoare], rule accept_ended [OF _ assms], assumption) (auto simp: hoare_def)
  have failed: "hoare (run_ok env u n (ids - {call_id call}))
      (bindE (end_with (\<lambda>s. output_failed env d turn (answer_open_calls env response None Ended_here s))) (\<lambda>r. ret (r, []))) ?post
      (run_dies env u n ids)" for d
    by (rule hoare_bind [OF end_with_hoare], rule closed_ended [OF output_failed_ended, where ids = "ids - {call_id call}"])
       (use assms in \<open>auto simp: hoare_def\<close>)
  have answered: "hoare (run_ok env u n (ids - {call_id call})) (ret (None, imgs)) ?post E" for imgs E
    by (rule hoare_ret_ok) simp
  have terminal: "hoare (run_ok env u n ids) (bindE (terminal_attempt env cfg call) (\<lambda>d.
          if td_accepted d then bindE (end_with (accept_run env response call d turn)) (\<lambda>r. ret (r, []))
          else if failed_for_good d
          then bindE (end_with (\<lambda>s. output_failed env d turn (answer_open_calls env response None Ended_here s))) (\<lambda>r. ret (r, []))
          else bindE (modify (note_completion_rejection env)) (\<lambda>_. ret (None, [])))) ?post (run_dies env u n ids)"
  proof (rule hoare_bind [OF run_terminal_hoare], intro hoare_if)
    show "hoare (run_ok env u n (if td_accepted d then ids else ids - {call_id call}))
        (bindE (modify (note_completion_rejection env)) (\<lambda>_. ret (None, []))) ?post (run_dies env u n ids)" if "\<not> td_accepted d" for d
      using that by (auto intro!: hoare_bind [OF hoare_modify_ok answered])
  qed (use accepted failed in simp_all)
  have refused: "hoare (run_ok env u n ids) (bindE (refuse env why c) (\<lambda>_. ret (None, []))) ?post (run_dies env u n ids)"
    if "call_id c = call_id call" for why c
    using run_refuse_hoare [of env u n ids env why c] that by (auto intro!: hoare_bind [OF _ answered])
  have go: "hoare (run_ok env u n ids) (bindE (run_one env turn own c) (\<lambda>res.
      bindE (modify (note_call_outcome env turn (c, res))) (\<lambda>_. ret (None, tr_images res)))) ?post (run_dies env u n ids)"
    if "call_id c = call_id call" "cleared env c" for own c
    by (rule hoare_bind [OF run_one_run_hoare [OF that(2)]], rule hoare_bind [OF hoare_modify_ok answered]) (simp add: that(1))
  have screened: "hoare (run_ok env u n ids) (bindE (screen env turn call) (\<lambda>r. case r of
              Stopped why c \<Rightarrow> bindE (refuse env why c) (\<lambda>_. ret (None, []))
            | Go own c \<Rightarrow> bindE (run_one env turn own c) (\<lambda>res.
                bindE (modify (note_call_outcome env turn (c, res))) (\<lambda>_. ret (None, tr_images res))))) ?post (run_dies env u n ids)"
  proof (rule hoare_bind [OF run_screen_hoare], rule hoare_carry)
    fix r assume "screened_ok env (call_id call) r"
    then show "hoare (run_ok env u n ids) (case r of
              Stopped why c \<Rightarrow> bindE (refuse env why c) (\<lambda>_. ret (None, []))
            | Go own c \<Rightarrow> bindE (run_one env turn own c) (\<lambda>res.
                bindE (modify (note_call_outcome env turn (c, res))) (\<lambda>_. ret (None, tr_images res)))) ?post (run_dies env u n ids)"
      by (cases r) (auto simp: screened_ok_def intro!: refused go)
  qed
  show ?thesis
    unfolding run_sequential_call_def by (auto intro!: hoare_if terminal refused screened split: option.split)
qed

lemma ids_of_simps [simp]: "ids_of [] = {}" "ids_of (c # cs) = insert (call_id c) (ids_of cs)" "ids_of (cs @ ds) = ids_of cs \<union> ids_of ds"
  by (auto simp: ids_of_def)

text \<open>A program that may end the run, followed by more calls.\<close>

lemma then_more_hoare:
  assumes first: "hoare P m (\<lambda>(out, imgs). ending env u n ids out) (run_dies env u n ids0)"
    and more: "hoare (run_ok env u n ids) m' (\<lambda>(out, imgs). ending env u n ids' out) (run_dies env u n ids)"
    and le: "ids \<subseteq> ids0"
  shows "hoare P (bindE m (\<lambda>(out, imgs). if out \<noteq> None then ret (out, imgs) else bindE m' (\<lambda>(out', imgs'). ret (out', imgs @ imgs'))))
     (\<lambda>(out, imgs :: string list). ending env u n ids' out) (run_dies env u n ids0)"
proof (rule hoare_bind [OF first], rule hoare_case_pair)
  fix out imgs
  have ended: "ending env u n ids out s \<Longrightarrow> out \<noteq> None \<Longrightarrow> ending env u n ids' out s" for s by (cases out) simp_all
  have tail: "hoare (run_ok env u n ids) (bindE m' (\<lambda>(out', imgs'). ret (out', imgs @ imgs')))
      (\<lambda>(out, imgs). ending env u n ids' out) (run_dies env u n ids0)"
  proof (rule hoare_bind [where R = "\<lambda>(out :: agent_result option, imgs :: string list). ending env u n ids' out"])
    show "hoare (run_ok env u n ids) m' (\<lambda>(out, imgs). ending env u n ids' out) (run_dies env u n ids0)"
      by (rule hoare_conseq [OF more _ _ run_dies_mono [OF _ le]]) simp_all
  qed (auto simp: hoare_def)
  show "hoare ((\<lambda>(out, imgs). ending env u n ids out) (out, imgs))
      (if out \<noteq> None then ret (out, imgs) else bindE m' (\<lambda>(out', imgs'). ret (out', imgs @ imgs')))
      (\<lambda>(out, imgs). ending env u n ids' out) (run_dies env u n ids0)"
  proof (cases out)
    case None
    with tail show ?thesis by simp
  next
    case (Some r)
    with ended show ?thesis by (auto intro!: hoare_ret_ok)
  qed
qed

lemma run_sequentially_hoare:
  "ids \<subseteq> ids_of response \<Longrightarrow> hoare (run_ok env u n ids) (run_sequentially env cfg turn response calls)
     (\<lambda>(out, imgs). ending env u n (ids - ids_of calls) out) (run_dies env u n ids)"
proof (induction calls arbitrary: ids)
  case (Cons call calls)
  have eq: "ids - ids_of (call # calls) = (ids - {call_id call}) - ids_of calls" by auto
  show ?case
    unfolding eq run_sequentially.simps
    by (rule then_more_hoare [OF run_sequential_call_hoare [OF Cons.prems] Cons.IH]) (use Cons.prems in auto)
qed (simp add: hoare_def)

lemma run_reads_hoare:
  "hoare (run_ok env u n ids) (run_reads env turn calls) (\<lambda>_. run_ok env u n (ids - ids_of calls)) (run_dies env u n ids)"
  unfolding run_reads_def
  by (rule hoare_bind [OF run_parallel_run_hoare], rule hoare_bind [OF hoare_modify_ok hoare_ret_ok]) (simp_all add: fold_outcomes_ok)

lemma run_call_segments_hoare:
  "ids \<subseteq> ids_of response \<Longrightarrow> hoare (run_ok env u n ids) (run_call_segments env cfg turn response segs)
     (\<lambda>(out, imgs). ending env u n (ids - ids_of (concat (map snd segs))) out) (run_dies env u n ids)"
proof (induction segs arbitrary: ids)
  case (Cons seg segs)
  obtain gathered grp where seg: "seg = (gathered, grp)" by fastforce
  have eq: "ids - ids_of (concat (map snd ((gathered, grp) # segs))) = (ids - ids_of grp) - ids_of (concat (map snd segs))" by auto
  show ?case
    unfolding seg run_call_segments.simps eq
    by (rule then_more_hoare [OF _ Cons.IH], intro hoare_if run_sequentially_hoare Cons.prems hoare_bind [OF run_reads_hoare] hoare_ret_ok)
       (use Cons.prems in auto)
qed (simp add: hoare_def)

lemma talk_append_user: "talk u ids cx \<Longrightarrow> role m = USER \<Longrightarrow> oid m = fresh cx \<Longrightarrow> talk u ids (append_message env m cx)"
  by (auto simp: talk_def ids_ok_append scan_user answered_ids_iff)

lemma close_response_ok: "run_ok env u n ids s \<Longrightarrow> run_ok env u n ids (close_response env' calls imgs s)"
  using run_ok_steering(1) [of env u n ids env' "batch_signature env' calls" s]
  by (auto simp: close_response_def surface_images_def add_message_def run_ok_def plain_message_def intro!: talk_append_user)

lemma run_calls_hoare:
  "hoare (run_ok env u n (ids_of calls)) (run_calls env cfg turn calls) (ending env u n {}) (run_dies env u n (ids_of calls))"
  unfolding run_calls_def
proof (rule hoare_bind [OF run_call_segments_hoare], rule subset_refl, rule hoare_case_pair)
  fix out imgs
  show "hoare ((\<lambda>(out, imgs). ending env u n (ids_of calls - ids_of (concat (map snd (segments is_parallel_safe calls)))) out) (out, imgs))
     (if out \<noteq> None then ret out else bindE (modify (close_response env calls imgs)) (\<lambda>_. ret None))
     (ending env u n {}) (run_dies env u n (ids_of calls))"
    by (cases out) (auto simp: concat_segments hoare_def bindE_def modify_def close_response_ok)
qed

lemma run_parallel_batch_hoare:
  "hoare (run_ok env u n (ids_of calls)) (run_parallel_batch env turn calls) (ending env u n {}) (run_dies env u n (ids_of calls))"
  unfolding run_parallel_batch_def
  by (rule hoare_bind [OF run_reads_hoare]) (auto simp: hoare_def bindE_def modify_def close_response_ok)

lemma on_dead_workspace_hoare:
  "hoare (run_dies env u n (ids_of calls) e :: 'r agent_run_scheme \<Rightarrow> bool) (on_dead_workspace env' turn calls e) (ending env u n {}) (run_dies env u n (ids_of calls))"
proof (cases "e = Environment_unavailable")
  case True
  have "case abort_environment_dead env' turn (answer_open_calls env' calls None Ended_workspace s) of (r, s1) \<Rightarrow> ended env u n r s1"
    if dies: "run_dies env u n (ids_of calls) e s" for s :: "'r agent_run_scheme"
  proof -
    from dies obtain i where "run_ok env u n i s" "i \<subseteq> ids_of calls" unfolding run_dies_def by blast
    then show ?thesis by (rule closed_ended [where f = "abort_environment_dead env' turn", rotated]) (rule abort_ended)
  qed
  then show ?thesis
    unfolding on_dead_workspace_def using True by (fastforce simp: hoare_def end_with_def split: prod.splits)
qed (auto simp: on_dead_workspace_def hoare_def run_dies_def)

subsection \<open>A turn keeps the invariant\<close>

lemma talk_progress: "talk u {} cx \<Longrightarrow> progress cx cx' \<Longrightarrow> talk u {} cx'"
  by (simp add: talk_empty progress_def)

lemma reinject_ok: "run_ok env u n ids s \<Longrightarrow> run_ok env u n ids (reinject_pinned_state env' cfg s)"
  by (auto simp: reinject_pinned_state_def pin_def Let_def run_ok_user_note split: option.split)

lemma run_ok_talk: "run_ok env u n ids s \<Longrightarrow> talk u ids (conv s)"
  by (simp add: run_ok_def)

lemma compact_ok:
  assumes "run_ok env u n {} s"
  shows "run_ok env u n {} (compact_if_needed env' cfg turn s)"
proof -
  have "talk u {} (snd (maybe_summarize (cenv env') (conv s)))"
    using run_ok_talk [OF assms] maybe_summarize_ok talk_progress by (auto simp: talk_empty)
  with assms show ?thesis by (auto simp: compact_if_needed_def case_prod_beta Let_def intro!: reinject_ok)
qed

lemma talk_used_tokens [simp]: "talk u ids (snd (used_tokens env cx)) = talk u ids cx"
  by (rule talk_same) simp_all

lemma note_budget_ok: "run_ok env u n ids s \<Longrightarrow> run_ok env u n ids (note_context_budget env' turn s)"
  by (simp add: note_context_budget_def run_ok_talk)

text \<open>The ids of a response are new to the request it answers.\<close>

definition new_ids :: "model_response \<Rightarrow> conversation \<Rightarrow> bool" where
  "new_ids r cx \<longleftrightarrow> ids_of (rp_calls r) \<inter> set (answered_ids (messages cx)) = {}"

definition fresh_ids :: "'e agent_env_scheme \<Rightarrow> bool" where
  "fresh_ids env \<longleftrightarrow> (\<forall>t ms final r. model env t ms final = Reply r \<longrightarrow> ids_of (rp_calls r) \<inter> set (answered_ids ms) = {})
     \<and> (\<forall>r. ids_of (rp_calls (scrub env r)) = ids_of (rp_calls r))"

definition reply_new :: "bool \<Rightarrow> model_outcome \<Rightarrow> conversation \<Rightarrow> bool" where
  "reply_new u out cx \<longleftrightarrow> (\<forall>r. u \<longrightarrow> out = Reply r \<longrightarrow> new_ids r cx)"

lemma complete_ok:
  assumes "run_ok env u n {} s" "u \<longrightarrow> fresh_ids env'" "complete env' final s = (out, s1)"
  shows "run_ok env u (Suc n) {} s1 \<and> reply_new u out (conv s1)"
proof -
  have "valid_request (get_messages (conv s))" using valid_of_talk run_ok_talk [OF assms(1)] by blast
  with assms(1,3) have "run_ok env u (Suc n) {} s1" by (auto simp: complete_def Let_def run_ok_def valid_list_def)
  moreover have "reply_new u out (conv s1)"
    using assms(2,3) by (auto simp: complete_def Let_def reply_new_def new_ids_def fresh_ids_def) (metis answered_ids_get disjoint_iff)
  ultimately show ?thesis ..
qed

lemma complete_or_shrink_ok:
  assumes "run_ok env u n {} s" "u \<longrightarrow> fresh_ids env'" "complete_or_shrink env' cfg turn final s = (out, s1)"
  shows "run_ok env u (n + 2) {} s1 \<and> reply_new u out (conv s1)"
proof -
  obtain out0 s0 where c: "complete env' final s = (out0, s0)" by fastforce
  note ok = complete_ok [OF assms(1,2) c]
  show ?thesis
  proof (cases "\<exists>why. out0 = Overflow why")
    case False
    with assms(3) c have "out = out0" "s1 = s0" by (auto simp: complete_or_shrink_def split: model_outcome.splits)
    with ok show ?thesis by (auto intro: run_ok_mono)
  next
    case True
    then obtain why where why: "out0 = Overflow why" by blast
    obtain shrunk cx where f: "force_compact (cenv env') (snd (used_tokens (cenv env') (conv s0))) = (shrunk, cx)" by fastforce
    let ?s = "log_event (Summarization turn True) (s0\<lparr>conv := cx\<rparr>)"
    have "conversation_ok (snd (used_tokens (cenv env') (conv s0)))"
      using ok run_ok_talk talk_used_tokens [of u "{}" "cenv env'" "conv s0"] by (metis talk_empty)
    from force_compact_ok [OF this, of "cenv env'"] f have "talk u {} cx" by (simp add: talk_empty progress_def)
    with ok have s: "run_ok env u (Suc n) {} ?s" by (auto intro: run_ok_conv)
    show ?thesis
    proof (cases shrunk)
      case True
      with assms(3) c f why have "complete env' final (reinject_pinned_state env' cfg ?s) = (out, s1)"
        by (simp add: complete_or_shrink_def Let_def)
      from complete_ok [OF reinject_ok [OF s] assms(2) this] show ?thesis by simp
    next
      case False
      with assms(3) c f why have "out = Overflow why" "s1 = ?s" by (simp_all add: complete_or_shrink_def Let_def)
      with s show ?thesis by (auto simp: reply_new_def intro: run_ok_mono)
    qed
  qed
qed

lemma scan_response: "scan ms = (True, {}) \<Longrightarrow> scan (ms @ [assistant_message k r]) = (True, ids_of (rp_calls r))"
  by (simp add: scan_snoc scan_message_def boundary_def assistant_message_def expected_def ids_of_def)

lemma messages_note_usage [simp]: "messages (note_usage p cx) = messages cx" "fresh (note_usage p cx) = fresh cx"
  by (simp_all add: note_usage_def learn_overhead_def split: option.split)

lemma talk_response:
  assumes "talk u {} cx" "u \<longrightarrow> new_ids r cx"
  shows "talk u (ids_of (rp_calls r)) (append_message env (assistant_message (fresh cx) r) cx)"
proof -
  have "answered_ids [assistant_message (fresh cx) r] = []" by (simp add: answered_ids_def map_filter_def assistant_message_def)
  moreover have "oid (assistant_message (fresh cx) r) = fresh cx" by (simp add: assistant_message_def)
  ultimately show ?thesis using assms by (auto simp: talk_def ids_ok_append scan_response new_ids_def)
qed

lemma take_response_ok:
  assumes "run_ok env u n {} s" "u \<longrightarrow> new_ids r (conv s)"
  shows "run_ok env u n (ids_of (rp_calls r)) (take_response env' turn r s)"
proof -
  define s1 where "s1 = s\<lparr>conv := note_usage (rp_prompt_tokens r) (conv s)\<rparr>"
  have t: "talk u {} (conv s1)" "u \<longrightarrow> new_ids r (conv s1)"
    using run_ok_talk [OF assms(1)] talk_same [of "conv s1" "conv s"] assms(2) by (simp_all add: s1_def new_ids_def)
  with assms(1) have s1: "run_ok env u n {} s1" by (simp add: s1_def)
  define s2 where "s2 = (if py_strip (rp_content r) \<noteq> [] then (log_event (Model_response turn) s1)\<lparr>last_assistant_text := py_strip (rp_content r)\<rparr>
     else log_event (Model_response turn) s1)"
  have s2: "run_ok env u n {} s2" using s1 by (simp add: s2_def)
  have conv: "conv s2 = conv s1" by (simp add: s2_def log_event_def)
  define s3 where "s3 = (if rp_content r \<noteq> [] \<or> rp_calls r \<noteq> [] \<or> rp_thinking r \<noteq> None
     then add_message env' (\<lambda>n. assistant_message n r) s2 else s2)"
  have "run_ok env u n (ids_of (rp_calls r)) s3"
    using s2 talk_response [OF t, of "cenv env'"] by (auto simp: s3_def add_message_def conv)
  then show ?thesis unfolding take_response_def record_response_def Let_def s1_def [symmetric] s2_def [symmetric] s3_def [symmetric] by simp
qed

lemma run_response_hoare:
  "hoare (run_ok env u n (ids_of (rp_calls r))) (run_response env cfg turn r) (ending env u n {}) (run_dies env u n (ids_of (rp_calls r)))"
proof (cases "rp_calls r = []")
  case True
  then show ?thesis
    by (auto simp: hoare_def run_response_def Let_def run_diesI intro!: endedI)
next
  case False
  have "hoare (run_ok env u n (ids_of (rp_calls r)))
      (catchE (if is_parallel_batch (rp_calls r) then run_parallel_batch env turn (rp_calls r) else run_calls env cfg turn (rp_calls r))
        (on_dead_workspace env turn (rp_calls r))) (ending env u n {}) (run_dies env u n (ids_of (rp_calls r)))"
    by (intro hoare_catch [OF hoare_if on_dead_workspace_hoare] run_parallel_batch_hoare run_calls_hoare)
  with False show ?thesis by (simp add: hoare_def run_response_def)
qed

text \<open>What a turn or a run leaves: the result, and in any case the invariant for some owed ids.\<close>

definition leaves_ok :: "'e agent_env_scheme \<Rightarrow> bool \<Rightarrow> nat \<Rightarrow> (halt + agent_result option) \<times> 'r agent_run_scheme \<Rightarrow> bool" where
  "leaves_ok env u n rs \<longleftrightarrow> (case rs of (Inl e, s) \<Rightarrow> \<exists>i. run_ok env u n i s | (Inr out, s) \<Rightarrow> ending env u n {} out s)"

lemma leaves_ok_hoare: "hoare P m (ending env u n {}) (run_dies env u n ids) \<Longrightarrow> P s \<Longrightarrow> leaves_ok env u n (m s)"
  by (fastforce simp: leaves_ok_def hoare_def run_dies_def split: prod.splits sum.splits)

lemma leaves_ok_end:
  assumes "case f s of (r, s1) \<Rightarrow> ended env u n r s1"
  shows "leaves_ok env u n (end_with f s)"
  using assms by (simp add: leaves_ok_def end_with_def split: prod.splits)

lemma fresh_scrub: "u \<longrightarrow> fresh_ids env \<Longrightarrow> u \<longrightarrow> new_ids r cx \<Longrightarrow> u \<longrightarrow> new_ids (scrub env r) cx"
  by (simp add: new_ids_def fresh_ids_def)

lemma run_turn_ok:
  assumes "run_ok env u n {} s" "u \<longrightarrow> fresh_ids env"
  shows "leaves_ok env u (n + 2) (run_turn env cfg turn s)"
proof -
  define s1 where "s1 = note_context_budget env turn (if enable_request_preflight cfg then compact_if_needed env cfg turn s else s)"
  have s1: "run_ok env u n {} s1" using assms(1) by (auto simp: s1_def intro!: note_budget_ok compact_ok)
  obtain out s2 where c: "complete_or_shrink env cfg turn False s1 = (out, s2)" by fastforce
  note ok = complete_or_shrink_ok [OF s1 assms(2) c]
  have failed: "leaves_ok env u (n + 2) (end_with (model_failed env turn why) s2)" for why
    by (rule leaves_ok_end, rule model_failed_ended [of _ _ _ "{}"]) (use ok in simp_all)
  show ?thesis
  proof (cases out)
    case (Reply r)
    with ok have "u \<longrightarrow> new_ids r (conv s2)" by (auto simp: reply_new_def)
    with take_response_ok [OF _ fresh_scrub [OF assms(2)]] ok
    have "run_ok env u (n + 2) (ids_of (rp_calls (scrub env r))) (take_response env turn (scrub env r) s2)" by blast
    with leaves_ok_hoare [OF run_response_hoare] show ?thesis
      using c Reply by (simp add: run_turn_def s1_def [symmetric] Let_def)
  qed (use failed c in \<open>simp_all add: run_turn_def s1_def [symmetric] Let_def\<close>)
qed

lemma judge_submission_hoare:
  "hoare (run_ok env u n (ids_of calls)) (judge_submission env cfg turn calls call) (ending env u n {}) (run_dies env u n (ids_of calls))"
  unfolding judge_submission_def
proof (rule hoare_bind [OF run_terminal_hoare], intro hoare_if)
  fix d
  have accepted: "hoare (run_ok env u n (ids_of calls)) (end_with (accept_run env calls call d t)) (ending env u n {}) E" for t E
    by (rule hoare_conseq [OF end_with_hoare [where P = "run_ok env u n (ids_of calls)", OF accept_ended]]) auto
  have closed: "hoare (run_ok env u n (ids_of calls - {call_id call})) (end_with (\<lambda>s. f (answer_open_calls env calls None Ended_here s)))
      (ending env u n {}) E" if "\<And>i s. run_ok env u n i s \<Longrightarrow> u \<longrightarrow> i = {} \<Longrightarrow> case f s of (r, s1) \<Rightarrow> ended env u n r s1" for f E
    by (rule hoare_conseq [OF end_with_hoare [where P = "run_ok env u n (ids_of calls - {call_id call})", OF closed_ended [OF that]]]) auto
  show "hoare (run_ok env u n (if td_accepted d then ids_of calls else ids_of calls - {call_id call}))
      (end_with (accept_run env calls call d (min turn (max_turns cfg)))) (ending env u n {}) (run_dies env u n (ids_of calls))" if "td_accepted d"
    using that accepted by simp
  show "hoare (run_ok env u n (if td_accepted d then ids_of calls else ids_of calls - {call_id call}))
      (end_with (\<lambda>s. output_failed env d turn (answer_open_calls env calls None Ended_here s))) (ending env u n {})
      (run_dies env u n (ids_of calls))" if "\<not> td_accepted d"
    unfolding if_not_P [OF that] by (rule closed) (rule output_failed_ended)
  show "hoare (run_ok env u n (if td_accepted d then ids_of calls else ids_of calls - {call_id call}))
      (end_with (\<lambda>s. exhausted env cfg turn (answer_open_calls env calls None Ended_here s))) (ending env u n {})
      (run_dies env u n (ids_of calls))" if "\<not> td_accepted d"
    unfolding if_not_P [OF that] by (rule closed) (rule exhausted_ended)
qed

lemma submit_hoare:
  "hoare (run_ok env u n (ids_of (rp_calls r))) (submit env cfg turn r) (ending env u n {}) (run_dies env u n (ids_of (rp_calls r)))"
proof (cases "find (\<lambda>c. call_name c = TERMINAL) (rp_calls r)")
  case None
  have "hoare (run_ok env u n (ids_of (rp_calls r)))
      (end_with (\<lambda>s. exhausted env cfg turn (answer_open_calls env (rp_calls r) None Ended_here s)))
      (ending env u n {}) (run_dies env u n (ids_of (rp_calls r)))"
    by (rule hoare_conseq [OF end_with_hoare [where P = "run_ok env u n (ids_of (rp_calls r))",
        OF closed_ended [OF exhausted_ended]]]) auto
  then show ?thesis by (simp add: submit_def None)
next
  case (Some call)
  show ?thesis
    unfolding submit_def Some option.case
    by (rule hoare_catch [OF judge_submission_hoare on_dead_workspace_hoare])
qed

lemma final_submission_ok:
  assumes "run_ok env u n {} s" "u \<longrightarrow> fresh_ids env"
  shows "leaves_ok env u (n + 2) (final_submission env cfg turn s)"
proof -
  have gone: "leaves_ok env u (n + 2) (end_with (exhausted env cfg turn) s')" if "run_ok env u m {} s'" "m \<le> n + 2" for s' m
    by (rule leaves_ok_end, rule exhausted_ended [of _ _ _ "{}"]) (use that run_ok_mono in auto)
  show ?thesis
  proof (cases "force_final_submission cfg \<and> enable_verifier cfg \<and> known_tool (tool_map env) TERMINAL")
    case False
    with gone [OF assms(1)] show ?thesis by (simp add: final_submission_def)
  next
    case True
    define s1 where "s1 = harness_message env Final_submission (log_event (Budget ''final_submission'' turn) s)"
    define s2 where "s2 = (if enable_request_preflight cfg then compact_if_needed env cfg turn s1 else s1)"
    have "run_ok env u n {} s1" using assms(1) by (simp add: s1_def)
    then have s2: "run_ok env u n {} s2" by (simp add: s2_def compact_ok)
    obtain out s3 where c: "complete_or_shrink env cfg turn True s2 = (out, s3)" by fastforce
    note ok = complete_or_shrink_ok [OF s2 assms(2) c]
    show ?thesis
    proof (cases out)
      case (Reply r)
      with ok take_response_ok have "run_ok env u (n + 2) (ids_of (rp_calls r)) (take_response env turn r s3)"
        unfolding reply_new_def by blast
      from leaves_ok_hoare [OF submit_hoare this] show ?thesis
        using c Reply True by (simp add: final_submission_def s1_def [symmetric] s2_def [symmetric] Let_def)
    qed (use gone ok c True in \<open>auto simp: final_submission_def s1_def [symmetric] s2_def [symmetric] Let_def\<close>)
  qed
qed

lemma save_checkpoint_ok: "run_ok env u n {} s \<Longrightarrow> run_ok env u n {} (save_checkpoint env' s)"
  using valid_of_talk [OF run_ok_talk] by (fastforce simp: save_checkpoint_def run_ok_def valid_list_def)

lemma begin_turn_ok: "run_ok env u n {} s \<Longrightarrow> run_ok env u n {} (snd (begin_turn env' cfg turn s))"
  unfolding begin_turn_def by (intro run_ok_open_turn save_checkpoint_ok run_ok_flush_pending compact_ok)

lemma leaves_ok_mono: "leaves_ok env u n rs \<Longrightarrow> n \<le> n' \<Longrightarrow> leaves_ok env u n' rs"
  using run_ok_mono [of env u n _ _ n']
  by (fastforce simp: leaves_ok_def ending_def ended_def split: prod.splits sum.splits option.splits)

lemma run_turns_ok:
  "run_ok env u n {} s \<Longrightarrow> u \<longrightarrow> fresh_ids env \<Longrightarrow> leaves_ok env u (n + 2 * left + 2) (run_turns env cfg turn left s)"
proof (induction left arbitrary: n turn s)
  case 0
  with final_submission_ok show ?case by simp
next
  case (Suc left)
  obtain stop s1 where b: "begin_turn env cfg turn s = (stop, s1)" by fastforce
  with begin_turn_ok [OF Suc.prems(1), of env cfg turn] have s1: "run_ok env u n {} s1" by simp
  show ?case
  proof (cases stop)
    case True
    with b leaves_ok_mono [OF final_submission_ok [OF s1 Suc.prems(2)]] show ?thesis by simp
  next
    case False
    obtain r s2 where t: "run_turn env cfg turn s1 = (r, s2)" by fastforce
    with run_turn_ok [OF s1 Suc.prems(2), of cfg turn] have ok: "leaves_ok env u (n + 2) (r, s2)" by simp
    show ?thesis
    proof (cases "r = Inr None")
      case True
      with ok have "run_ok env u (n + 2) {} s2" by (simp add: leaves_ok_def)
      from Suc.IH [OF this Suc.prems(2), of "Suc turn"] show ?thesis using b False t True by (simp add: bindE_def)
    next
      case no: False
      with b False t have "run_turns env cfg turn (Suc left) s = (r, s2)" by (cases r) (auto simp: bindE_def)
      with leaves_ok_mono [OF ok] show ?thesis by simp
    qed
  qed
qed

subsection \<open>How a run ends\<close>

text \<open>\<open>goes F Q m\<close>: whatever the state, \<open>m\<close> raises an error in \<open>F\<close> or returns a value in \<open>Q\<close>.\<close>

definition goes :: "('e \<Rightarrow> bool) \<Rightarrow> ('a \<Rightarrow> bool) \<Rightarrow> ('s, 'e, 'a) prog \<Rightarrow> bool" where
  "goes F Q m \<longleftrightarrow> (\<forall>s. case fst (m s) of Inl e \<Rightarrow> F e | Inr x \<Rightarrow> Q x)"

lemma goes_ret: "Q x \<Longrightarrow> goes F Q (ret x)"
  by (simp add: goes_def)

lemma goesD: "goes F Q m \<Longrightarrow> case fst (m s) of Inl e \<Rightarrow> F e | Inr x \<Rightarrow> Q x"
  by (simp add: goes_def)

lemma goes_any: "goes (\<lambda>_. True) (\<lambda>_. True) m"
  by (simp add: goes_def split: sum.split)

lemma goes_bind:
  assumes "goes F R m" "\<And>x. R x \<Longrightarrow> goes F Q (f x)"
  shows "goes F Q (bindE m f)"
  unfolding goes_def
proof
  fix s
  obtain r t where m: "m s = (r, t)" by fastforce
  have "case r of Inl e \<Rightarrow> F e | Inr x \<Rightarrow> R x" using assms(1) m unfolding goes_def by (metis fst_conv)
  then show "case fst (bindE m f s) of Inl e \<Rightarrow> F e | Inr x \<Rightarrow> Q x"
    using assms(2) by (cases r) (auto simp: bindE_def m goes_def)
qed

lemma goes_bind_any: "(\<And>x. goes (\<lambda>_. True) Q (f x)) \<Longrightarrow> goes (\<lambda>_. True) Q (bindE m f)"
  by (rule goes_bind [OF goes_any])

lemma goes_catch:
  assumes "goes G Q m" "\<And>e. G e \<Longrightarrow> goes F Q (h e)"
  shows "goes F Q (catchE m h)"
  unfolding goes_def
proof
  fix s
  obtain r t where m: "m s = (r, t)" by fastforce
  have "case r of Inl e \<Rightarrow> G e | Inr x \<Rightarrow> Q x" using assms(1) m unfolding goes_def by (metis fst_conv)
  then show "case fst (catchE m h s) of Inl e \<Rightarrow> F e | Inr x \<Rightarrow> Q x"
    using assms(2) by (cases r) (auto simp: catchE_def m goes_def)
qed

lemma goes_if: "(b \<Longrightarrow> goes F Q m) \<Longrightarrow> (\<not> b \<Longrightarrow> goes F Q n) \<Longrightarrow> goes F Q (if b then m else n)"
  by simp

lemma goes_end: "(\<And>s. Q (Some (fst (f s)))) \<Longrightarrow> goes F Q (end_with f)"
  by (simp add: goes_def end_with_def case_prod_beta)

text \<open>A call a completion can be accepted on, with the summary and the output of the acceptance.\<close>

definition accepted_call :: "'e agent_env_scheme \<Rightarrow> agent_config \<Rightarrow> tool_call \<Rightarrow> string \<Rightarrow> pyval option \<Rightarrow> bool" where
  "accepted_call env cfg call summary out \<longleftrightarrow>
     (\<forall>schema. output_schema cfg = Some schema \<longrightarrow>
        (\<exists>v. dict_get (arguments call) ''result'' = Some v \<and> validation_errors env schema v = [] \<and> out = Some v))
     \<and> (enable_verifier cfg \<longrightarrow> summary_of call = Some summary
          \<and> (\<exists>commands. command_list (dict_get (arguments call) ''verification_commands'') = Some commands
               \<and> (\<forall>c \<in> set commands. passed env c)
               \<and> (require_discriminating_evidence cfg \<and> \<not> has_authoritative_grader env \<longrightarrow> (\<exists>c \<in> set commands. is_discriminating c))))"

definition earned :: "'e agent_env_scheme \<Rightarrow> agent_config \<Rightarrow> agent_result \<Rightarrow> bool" where
  "earned env cfg r \<longleftrightarrow> (ar_success r \<longrightarrow> \<not> enable_verifier cfg \<and> output_schema cfg = None
     \<or> (\<exists>call. accepted_call env cfg call (ar_message r) (ar_output r)))"

lemma attempt_accepts: "attempt env cfg call s = (Inr (True, m), s1) \<Longrightarrow> accepted_call env cfg call m (accepted_output s1)"
  using attempt_gates(1) [of env cfg call s m s1] accepted_attempt_gates [of env cfg call s m s1] by (auto simp: accepted_call_def)

definition decision_ok :: "'e agent_env_scheme \<Rightarrow> agent_config \<Rightarrow> terminal_decision \<Rightarrow> bool" where
  "decision_ok env cfg d \<longleftrightarrow> (td_accepted d \<longrightarrow> (\<exists>call. accepted_call env cfg call (td_summary d) (td_output d)))"

lemma terminal_goes: "goes (\<lambda>_. True) (decision_ok env cfg) (terminal_attempt env cfg call)"
  unfolding goes_def
proof
  fix s
  show "case fst (terminal_attempt env cfg call s) of Inl e \<Rightarrow> True | Inr d \<Rightarrow> decision_ok env cfg d"
  proof (cases "attempt env cfg call s")
    case (Pair r s1)
    show ?thesis
    proof (cases r)
      case (Inr am)
      obtain a m where am: "am = (a, m)" by fastforce
      show ?thesis
      proof (cases a)
        case True
        then have "attempt env cfg call s = (Inr (True, m), s1)" using Pair Inr am by simp
        then have "accepted_call env cfg call m (accepted_output s1)" by (rule attempt_accepts)
        then have "\<exists>c. accepted_call env cfg c m (accepted_output s1)" ..
        then show ?thesis using Pair Inr am True by (simp add: terminal_attempt_def bindE_def gets_def decision_ok_def)
      qed (simp add: terminal_attempt_def bindE_def gets_def decision_ok_def Pair Inr am)
    qed (simp add: terminal_attempt_def bindE_def Pair)
  qed
qed

definition earned_out :: "'e agent_env_scheme \<Rightarrow> agent_config \<Rightarrow> agent_result option \<Rightarrow> bool" where
  "earned_out env cfg out \<longleftrightarrow> (\<forall>r. out = Some r \<longrightarrow> earned env cfg r)"

lemma earned_simps [simp]: "earned_out env cfg None" "earned_out env cfg (Some r) = earned env cfg r"
  by (simp_all add: earned_out_def)

lemma earned_results [simp]:
  "earned env cfg (fst (abort_environment_dead env' t s))" "earned env cfg (fst (exhausted env' cfg' t s))"
  "earned env cfg (fst (output_failed env' d t s))" "earned env cfg (fst (model_failed env' t why s))"
  "decision_ok env cfg d \<Longrightarrow> td_accepted d \<Longrightarrow> earned env cfg (fst (accept_run env' calls call d t s))"
  by (simp_all add: earned_def abort_environment_dead_def exhausted_def output_failed_def model_failed_def accept_run_def
      run_result_def decision_ok_def Let_def)

definition earned_pair :: "'e agent_env_scheme \<Rightarrow> agent_config \<Rightarrow> agent_result option \<times> string list \<Rightarrow> bool" where
  "earned_pair env cfg p = earned_out env cfg (fst p)"

lemma earned_pair_simps [simp]: "earned_pair env cfg (None, imgs)" "earned_pair env cfg (out, imgs) = earned_out env cfg out"
  by (simp_all add: earned_pair_def)

lemma ended_pair: "(\<And>s. earned env cfg (fst (f s))) \<Longrightarrow> goes (\<lambda>_. True) (earned_pair env cfg) (bindE (end_with f) (\<lambda>r. ret (r, [])))"
  by (rule goes_bind [OF goes_end, of "earned_out env cfg"]) (simp_all add: goes_ret)

lemma quiet_pair: "goes (\<lambda>_. True) (earned_pair env cfg) (bindE m (\<lambda>x. ret (None, imgs x)))"
  by (intro goes_bind_any goes_ret) simp

lemma sequential_call_goes: "goes (\<lambda>_. True) (earned_pair env cfg) (run_sequential_call env cfg turn response call)"
proof -
  have terminal: "goes (\<lambda>_. True) (earned_pair env cfg) (bindE (terminal_attempt env cfg call) (\<lambda>d.
          if td_accepted d then bindE (end_with (accept_run env response call d turn)) (\<lambda>r. ret (r, []))
          else if failed_for_good d
          then bindE (end_with (\<lambda>s. output_failed env d turn (answer_open_calls env response None Ended_here s))) (\<lambda>r. ret (r, []))
          else bindE (modify (note_completion_rejection env)) (\<lambda>_. ret (None, []))))"
    by (rule goes_bind [OF terminal_goes], intro goes_if ended_pair quiet_pair) simp_all
  have screened: "goes (\<lambda>_. True) (earned_pair env cfg) (bindE (screen env turn call) (\<lambda>r. case r of
              Stopped why c \<Rightarrow> bindE (refuse env why c) (\<lambda>_. ret (None, []))
            | Go own c \<Rightarrow> bindE (run_one env turn own c) (\<lambda>res.
                bindE (modify (note_call_outcome env turn (c, res))) (\<lambda>_. ret (None, tr_images res)))))"
    by (rule goes_bind_any) (auto intro!: quiet_pair goes_bind_any goes_ret split: screened.split)
  show ?thesis
    unfolding run_sequential_call_def by (auto intro!: goes_if terminal quiet_pair screened split: option.split)
qed

lemma earned_then:
  assumes "goes (\<lambda>_. True) (earned_pair env cfg) m" "goes (\<lambda>_. True) (earned_pair env cfg) m'"
  shows "goes (\<lambda>_. True) (earned_pair env cfg)
     (bindE m (\<lambda>(out, imgs). if out \<noteq> None then ret (out, imgs) else bindE m' (\<lambda>(out', imgs'). ret (out', imgs @ imgs'))))"
proof (rule goes_bind [OF assms(1)])
  fix p assume p: "earned_pair env cfg p"
  have "goes (\<lambda>_. True) (earned_pair env cfg) (bindE m' (\<lambda>(out', imgs'). ret (out', imgs @ imgs')))" for imgs
    by (rule goes_bind [OF assms(2)]) (auto intro!: goes_ret)
  with p show "goes (\<lambda>_. True) (earned_pair env cfg)
      (case p of (out, imgs) \<Rightarrow> if out \<noteq> None then ret (out, imgs) else bindE m' (\<lambda>(out', imgs'). ret (out', imgs @ imgs')))"
    by (cases p) (simp add: goes_ret)
qed

lemma sequentially_goes: "goes (\<lambda>_. True) (earned_pair env cfg) (run_sequentially env cfg turn response calls)"
proof (induction calls)
  case (Cons call calls)
  show ?case unfolding run_sequentially.simps by (rule earned_then [OF sequential_call_goes Cons.IH])
qed (simp add: goes_def)

lemma segments_go: "goes (\<lambda>_. True) (earned_pair env cfg) (run_call_segments env cfg turn response segs)"
proof (induction segs)
  case (Cons seg segs)
  obtain gathered grp where seg: "seg = (gathered, grp)" by fastforce
  show ?case
    unfolding seg run_call_segments.simps by (rule earned_then [OF goes_if Cons.IH]) (rule quiet_pair sequentially_goes)+
qed (simp add: goes_def)

abbreviation alive :: "halt \<Rightarrow> bool" where
  "alive e \<equiv> e \<noteq> Environment_unavailable"

lemma on_dead_goes: "goes alive (\<lambda>out. earned_out env cfg out) (on_dead_workspace env' turn calls e)"
  by (auto simp: on_dead_workspace_def goes_def end_with_def case_prod_beta raise_def)

lemma run_response_goes: "goes alive (earned_out env cfg) (run_response env cfg turn r)"
proof -
  have "goes (\<lambda>_. True) (earned_out env cfg) (run_calls env cfg turn (rp_calls r))"
    unfolding run_calls_def by (rule goes_bind [OF segments_go]) (auto intro!: goes_ret goes_bind_any)
  moreover have "goes (\<lambda>_. True) (earned_out env cfg) (run_parallel_batch env turn (rp_calls r))"
    unfolding run_parallel_batch_def by (intro goes_bind_any goes_ret) simp
  ultimately have "goes alive (earned_out env cfg)
      (catchE (if is_parallel_batch (rp_calls r) then run_parallel_batch env turn (rp_calls r) else run_calls env cfg turn (rp_calls r))
         (on_dead_workspace env turn (rp_calls r)))"
    by (intro goes_catch [OF goes_if] on_dead_goes)
  then show ?thesis
    by (auto simp: goes_def run_response_def Let_def earned_def run_result_def)
qed

lemma run_turn_goes: "goes alive (earned_out env cfg) (run_turn env cfg turn)"
  unfolding goes_def
proof
  fix s
  let ?s = "note_context_budget env turn (if enable_request_preflight cfg then compact_if_needed env cfg turn s else s)"
  obtain out s2 where c: "complete_or_shrink env cfg turn False ?s = (out, s2)" by fastforce
  show "case fst (run_turn env cfg turn s) of Inl e \<Rightarrow> alive e | Inr out \<Rightarrow> earned_out env cfg out"
  proof (cases out)
    case (Reply r)
    have "fst (run_turn env cfg turn s) = fst (run_response env cfg turn (scrub env r) (take_response env turn (scrub env r) s2))"
      using c Reply by (simp add: run_turn_def Let_def)
    then show ?thesis by (simp only: goesD [OF run_response_goes])
  qed (use c in \<open>simp_all add: run_turn_def Let_def end_with_def case_prod_beta\<close>)
qed

definition final_out :: "'e agent_env_scheme \<Rightarrow> agent_config \<Rightarrow> agent_result option \<Rightarrow> bool" where
  "final_out env cfg out \<longleftrightarrow> out \<noteq> None \<and> earned_out env cfg out"

lemma on_dead_final: "goes alive (final_out env cfg) (on_dead_workspace env' turn calls e)"
  by (auto simp: on_dead_workspace_def goes_def end_with_def case_prod_beta raise_def final_out_def)

lemma submit_goes: "goes alive (final_out env cfg) (submit env cfg turn r)"
proof (cases "find (\<lambda>c. call_name c = TERMINAL) (rp_calls r)")
  case None
  then show ?thesis by (auto simp: submit_def final_out_def intro!: goes_end)
next
  case (Some call)
  have "goes (\<lambda>_. True) (final_out env cfg) (judge_submission env cfg turn (rp_calls r) call)"
    unfolding judge_submission_def
    by (rule goes_bind [OF terminal_goes], intro goes_if goes_end) (simp_all add: final_out_def)
  then show ?thesis unfolding submit_def Some option.case by (rule goes_catch) (rule on_dead_final)
qed

lemma final_submission_goes: "goes alive (final_out env cfg) (final_submission env cfg turn)"
  unfolding goes_def
proof
  fix s
  let ?s1 = "harness_message env Final_submission (log_event (Budget ''final_submission'' turn) s)"
  let ?s2 = "if enable_request_preflight cfg then compact_if_needed env cfg turn ?s1 else ?s1"
  obtain out s3 where c: "complete_or_shrink env cfg turn True ?s2 = (out, s3)" by fastforce
  show "case fst (final_submission env cfg turn s) of Inl e \<Rightarrow> alive e | Inr out \<Rightarrow> final_out env cfg out"
  proof (cases "force_final_submission cfg \<and> enable_verifier cfg \<and> known_tool (tool_map env) TERMINAL")
    case False
    then show ?thesis by (simp add: final_submission_def final_out_def end_with_def case_prod_beta)
  next
    case True
    show ?thesis
    proof (cases out)
      case (Reply r)
      have "fst (final_submission env cfg turn s) = fst (submit env cfg turn r (take_response env turn r s3))"
        using c Reply True by (simp add: final_submission_def Let_def)
      then show ?thesis by (simp only: goesD [OF submit_goes])
    qed (use c True in \<open>simp_all add: final_submission_def Let_def final_out_def end_with_def case_prod_beta\<close>)
  qed
qed

lemma run_turns_goes: "goes alive (final_out env cfg) (run_turns env cfg turn left :: ('r, agent_result option) looping)"
proof (induction left arbitrary: turn)
  case 0
  show ?case by (simp add: goes_def goesD [OF final_submission_goes])
next
  case (Suc left)
  let ?rest = "\<lambda>out. if out \<noteq> None then ret out else run_turns env cfg (Suc turn) left :: ('r, agent_result option) looping"
  have "goes alive (final_out env cfg) (bindE (run_turn env cfg turn) ?rest)"
    by (rule goes_bind [OF run_turn_goes], rule goes_if) (auto simp: final_out_def intro!: goes_ret Suc.IH)
  from goesD [OF this] show ?case
    by (auto simp: goes_def goesD [OF final_submission_goes] split: prod.split bool.split)
qed

end
