(* ===== verification/Agent_Properties.thy ===== *)
theory Agent_Properties
  imports Agent_Loop
begin

text \<open>
  The properties of a whole run of the agent loop, for every model, tool, hook and clock, and the runs on
  which they are instantiated.
\<close>

subsection \<open>Runs\<close>

text \<open>A run starts on a conversation that owes nothing, with empty traces.\<close>

definition starts_run :: "'r agent_run_scheme \<Rightarrow> bool" where
  "starts_run s \<longleftrightarrow> conversation_ok (conv s) \<and> sent s = [] \<and> saved s = [] \<and> dispatched s = []"

lemma run_agent_ok:
  assumes "starts_run s" "u \<longrightarrow> fresh_ids env"
  shows "leaves_ok env u (2 * max_turns cfg + 2) (run_agent env cfg s)"
proof -
  have "run_ok env u 0 {} s" using assms(1) by (simp add: starts_run_def run_ok_def valid_list_def talk_empty)
  from run_turns_ok [OF this assms(2), of "max_turns cfg" cfg 1] show ?thesis by (simp add: run_agent_def)
qed

lemma run_agent_invariant:
  assumes "starts_run s"
  shows "\<exists>i. run_ok env False (2 * max_turns cfg + 2) i (snd (run_agent env cfg s))"
proof -
  obtain out s1 where r: "run_agent env cfg s = (out, s1)" by fastforce
  with run_agent_ok [OF assms, of False env cfg] show ?thesis
    by (auto simp: leaves_ok_def ending_def ended_def split: sum.splits option.splits)
qed

text \<open>A model that submits at once, a box whose tools answer at once, a roomy conversation.\<close>

definition demo_tools :: "nat tool_box" where
  "demo_tools = \<lparr>signature = call_id, known_tool = (\<lambda>_. True), required_arguments = (\<lambda>_. []), accepted_arguments = (\<lambda>_. []),
     valid_descriptor = (\<lambda>x. x),
     run_tool = (\<lambda>w c. (Returned \<lparr>tr_content = ''text'', tr_is_error = False, tr_metadata = [], tr_images = []\<rparr>, Suc w))\<rparr>"

definition demo_read :: "string \<Rightarrow> tool_call" where
  "demo_read i = \<lparr>call_id = i, call_name = ''read_file'', arguments = [(''path'', P_str i)]\<rparr>"

definition demo_model :: "message list \<Rightarrow> model_outcome" where
  "demo_model ms =
     (if ''x'' \<notin> set (answered_ids ms)
      then Reply \<lparr>rp_content = [], rp_calls = [demo_completion], rp_prompt_tokens = None, rp_truncated = False, rp_thinking = None,
        rp_reasoning = None\<rparr>
      else Model_error ''no more'')"

definition demo_agent_env :: agent_env where
  "demo_agent_env = (tool_env.extend
     (completion_env.extend demo_completion_env
       (tool_env.fields demo_tools demo_tools (\<lambda>_ _. False) (\<lambda>_ _. Inl []) [\<lambda>_ c. Passes c] [] (\<lambda>_. False) (\<lambda>m. m) (\<lambda>_ _ r. r)
         (\<lambda>_ _ c. c) (\<lambda>_. [1, 0, 1])))
     (agent_env.fields (\<lambda>_ ms _. demo_model ms) (\<lambda>r. r) (\<lambda>_. 0) 0 None (\<lambda>_. ''note'') (\<lambda>_. None) (\<lambda>_. None) (\<lambda>_. None) True True))
     \<lparr>cenv := demo_context_env\<lparr>count_request := length\<rparr>\<rparr>"

definition quick_config :: agent_config where
  "quick_config = demo_config\<lparr>require_stable_verification := False, parallel_verification := False, enable_llm_verifier := False,
     max_turns := 2\<rparr>"

definition small_conversation :: conversation where
  "small_conversation = \<lparr>messages = [plain_message 0 SYSTEM ''s'', plain_message 1 USER ''task''],
     anchor_tokens = None, anchor_from_provider = False, pending_tokens = 0, count_overhead = 0, last_raw_anchor = 0,
     strategy = Recent_window 1, last_compaction = None, fresh = 2\<rparr>"

definition demo_start :: agent_run where
  "demo_start = tool_run.extend (gate_run.extend (demo_run\<lparr>conv := small_conversation, contract := None\<rparr>) (tool_run.fields new_memo []))
     (agent_run.fields [] None 0 0 0 False 0 False 0 [] [] [] [])"

lemma demo_starts: "starts_run demo_start"
proof -
  have "distinct (map oid (messages small_conversation))" "answered (messages small_conversation)" by code_simp+
  moreover have "\<forall>i \<in> set (map oid (messages small_conversation)). i < fresh small_conversation" by code_simp
  ultimately show ?thesis
    by (simp add: starts_run_def demo_start_def conversation_ok_def history_ok_def demo_run_def agent_run.defs tool_run.defs gate_run.defs)
qed

lemma demo_fresh: "fresh_ids demo_agent_env"
  by (auto simp: fresh_ids_def demo_agent_env_def agent_env.defs tool_env.defs completion_env.defs demo_model_def
      demo_completion_def ids_of_def split: if_splits)

lemma demo_result: "\<exists>r. fst (run_agent demo_agent_env quick_config demo_start) = Inr (Some r) \<and> ar_success r"
proof -
  have "case fst (run_agent demo_agent_env quick_config demo_start) of Inr (Some r) \<Rightarrow> ar_success r | _ \<Rightarrow> False" by code_simp
  then show ?thesis by (auto split: sum.splits option.splits)
qed

lemma add_segment_all:
  "\<forall>x \<in> set xs. P x \<Longrightarrow> fold (add_segment P) xs [(True, g)] = [(True, g @ xs)]"
  by (induction xs arbitrary: g) (simp_all add: add_segment_def)

lemma segments_all: "\<forall>x \<in> set xs. P x \<Longrightarrow> 1 < length xs \<Longrightarrow> segments P xs = [(True, xs)]"
  by (cases xs) (simp_all add: segments_def add_segment_all add_segment_def)

subsection \<open>Properties\<close>










text \<open>C4. The transcript a run hands out is complete: as long as the model gives its calls new ids, the
  messages of the result answer every call, however the run ended: accepted, out of turns, on a
  failed model, on a dead workspace or with other calls still open.\<close>

theorem handed_out_transcript_is_answered:
  assumes "starts_run s" "fresh_ids env" "fst (run_agent env cfg s) = Inr (Some r)"
  shows "valid_request (ar_messages r)"
  using run_agent_ok [OF assms(1), of True env cfg] assms(2,3)
  by (auto simp: leaves_ok_def ending_def ended_def split: prod.splits)

theorem handed_out_transcript_is_answered_witness:
  "\<exists>r. fst (run_agent demo_agent_env quick_config demo_start) = Inr (Some r) \<and> valid_request (ar_messages r)"
  using demo_result handed_out_transcript_is_answered [OF demo_starts demo_fresh] by blast

text \<open>C7. The fast path of a batch of reads is redundant: running a parallel batch is running its calls,
  whose grouping gives the whole batch as one gathered segment.\<close>

theorem fast_path_is_redundant:
  assumes "is_parallel_batch calls"
  shows "run_parallel_batch env turn calls s = run_calls env cfg turn calls s"
proof -
  have "segments is_parallel_safe calls = [(True, calls)]"
    using assms by (intro segments_all) (auto simp: is_parallel_batch_def list_all_iff)
  then show ?thesis
    by (cases "run_reads env turn calls s") (simp add: run_parallel_batch_def run_calls_def bindE_def ret_def split: sum.split)
qed

theorem fast_path_is_redundant_witness:
  "run_parallel_batch demo_agent_env 1 [demo_read ''a'', demo_read ''b''] demo_start
   = run_calls demo_agent_env quick_config 1 [demo_read ''a'', demo_read ''b''] demo_start"
  by (rule fast_path_is_redundant) code_simp

end
